(* ===== verification/Prelude.thy ===== *)
theory Prelude
  imports Main "HOL-Library.Word"
begin

text \<open>
  Shared vocabulary of the development: results that may panic, the alignment arithmetic of
  abi.go (on machine words as the source writes it, and on natural numbers as the layout
  lemmas use it), and generic facts on lists that several components need.
\<close>

unbundle bit_operations_syntax

section \<open>Collections of facts\<close>

named_theorems res_simps \<open>unfolding of the panic monad\<close>
named_theorems align_simps \<open>alignment arithmetic\<close>

section \<open>Results that may panic\<close>

text \<open>
  A Go function that may panic returns \<open>Inl msg\<close> where the source calls
  \<open>panic(msg)\<close> (or the runtime does, for an index out of range) and \<open>Inr v\<close>
  where it returns.
\<close>

type_synonym 'a res = "string + 'a"

definition res_bind :: "'a res \<Rightarrow> ('a \<Rightarrow> 'b res) \<Rightarrow> 'b res" where
  "res_bind m f = (case m of Inl e \<Rightarrow> Inl e | Inr x \<Rightarrow> f x)"

lemma res_bind_Inr [simp, res_simps]: "res_bind (Inr x) f = f x"
  by (simp add: res_bind_def)

lemma res_bind_Inl [simp, res_simps]: "res_bind (Inl e) f = Inl e"
  by (simp add: res_bind_def)

lemma res_bind_eq_Inr_iff [res_simps]:
  "res_bind m f = Inr y \<longleftrightarrow> (\<exists>x. m = Inr x \<and> f x = Inr y)"
  by (cases m) (auto simp: res_bind_def)

lemma res_bind_cong [fundef_cong]:
  "m = m' \<Longrightarrow> (\<And>x. m' = Inr x \<Longrightarrow> f x = f' x) \<Longrightarrow> res_bind m f = res_bind m' f'"
  by (cases m') (auto simp: res_bind_def)

text \<open>A \<open>for\<close> loop over a list whose body may panic.\<close>

fun res_fold :: "('a \<Rightarrow> 's \<Rightarrow> 's res) \<Rightarrow> 'a list \<Rightarrow> 's \<Rightarrow> 's res" where
  "res_fold f [] s = Inr s"
| "res_fold f (x # xs) s = res_bind (f x s) (\<lambda>s'. res_fold f xs s')"

lemma res_fold_Inl:
  "x \<in> set xs \<Longrightarrow> (\<And>s. \<exists>e. f x s = Inl e) \<Longrightarrow> \<exists>e'. res_fold f xs s = Inl e'"
proof (induction xs arbitrary: s)
  case (Cons y xs)
  show ?case
  proof (cases "f y s")
    case (Inr s')
    with Cons.prems(2) [of s] have "x \<noteq> y" by auto
    with Cons Inr show ?thesis by auto
  qed simp
qed simp

lemma res_fold_Inr:
  "(\<And>x s. x \<in> set xs \<Longrightarrow> f x s = Inr (g x s)) \<Longrightarrow> res_fold f xs s = Inr (fold g xs s)"
  by (induction xs arbitrary: s) auto

section \<open>Alignment\<close>

text \<open>
  \<open>alignUp\<close> of abi.go on the machine's 64-bit \<open>uintptr\<close>: \<open>(x + a - 1) &^ (a - 1)\<close>.
  \<open>align_up\<close> is the same rounding on natural numbers; \<open>alignUp_align_up\<close> relates the two
  where the sum does not wrap.
\<close>

definition alignUp :: "64 word \<Rightarrow> 64 word \<Rightarrow> 64 word" where
  "alignUp x a = (x + a - 1) AND NOT (a - 1)"

definition align_up :: "nat \<Rightarrow> nat \<Rightarrow> nat" where
  "align_up x a = (x + a - 1) div a * a"

lemma align_up_ge [align_simps]: "0 < a \<Longrightarrow> x \<le> align_up x a"
proof -
  assume a: "0 < a"
  have "x + a - 1 = (x + a - 1) div a * a + (x + a - 1) mod a"
    by simp
  moreover have "(x + a - 1) mod a \<le> a - 1"
    using a by (simp add: less_Suc_eq_le [symmetric])
  ultimately show ?thesis
    using a unfolding align_up_def by linarith
qed

lemma align_up_dvd [simp, align_simps]: "a dvd align_up x a"
  by (simp add: align_up_def)

lemma align_up_id [align_simps]: "0 < a \<Longrightarrow> a dvd x \<Longrightarrow> align_up x a = x"
proof -
  assume a: "0 < a" and "a dvd x"
  then obtain k where x: "x = a * k" by auto
  have "a * k + a - 1 = a * k + (a - 1)"
    using a by simp
  moreover have "(a * k + (a - 1)) div a = k"
    using a by (subst div_mult_self4) simp_all
  ultimately show ?thesis
    using x unfolding align_up_def by (metis mult.commute)
qed

lemma align_up_zero [simp, align_simps]: "align_up 0 a = 0"
  by (cases a) (simp_all add: align_up_def)

lemma align_up_idem [simp, align_simps]: "0 < a \<Longrightarrow> align_up (align_up x a) a = align_up x a"
  by (simp add: align_up_id)

lemma align_up_mono: "x \<le> y \<Longrightarrow> align_up x a \<le> align_up y a"
  unfolding align_up_def by (intro mult_le_mono1 div_le_mono) simp

lemma align_up_less [align_simps]: "0 < a \<Longrightarrow> align_up x a < x + a"
proof -
  assume a: "0 < a"
  have "(x + a - 1) div a * a \<le> x + a - 1" by simp
  then show ?thesis using a unfolding align_up_def by linarith
qed

lemma align_up_least: "0 < a \<Longrightarrow> a dvd y \<Longrightarrow> x \<le> y \<Longrightarrow> align_up x a \<le> y"
  using align_up_mono [of x y a] by (simp add: align_up_id)

lemma and_not_mask_unat:
  fixes y :: "64 word"
  assumes "k < 64"
  shows "unat (y AND NOT (mask k)) = unat y div 2 ^ k * 2 ^ k"
proof -
  have "y AND NOT (mask k) = push_bit k (drop_bit k y)"
    by (rule bit_eqI) (auto simp: bit_simps)
  moreover have "unat (push_bit k (drop_bit k y)) = take_bit 64 (push_bit k (drop_bit k (unat y)))"
  proof -
    have "take_bit 64 (unat y) = unat y"
      using unsigned_less [of y, where ?'a = nat] by (simp add: take_bit_nat_eq_self)
    then show ?thesis
      by (simp add: unsigned_push_bit_eq unsigned_drop_bit_eq)
  qed
  moreover have "unat y div 2 ^ k * 2 ^ k < 2 ^ 64"
    using unsigned_less [of y] by (auto intro: le_less_trans [of _ "unat y"])
  ultimately show ?thesis
    by (simp add: push_bit_eq_mult drop_bit_eq_div take_bit_nat_eq_self)
qed

lemma alignUp_align_up:
  assumes "k < 64" and "unat x + 2 ^ k \<le> 2 ^ 64"
  shows "unat (alignUp x (2 ^ k)) = align_up (unat x) (2 ^ k)"
proof -
  have eq: "x + 2 ^ k - 1 = of_nat (unat x + (2 ^ k - 1))"
  proof -
    have "(of_nat (2 ^ k - 1) :: 64 word) = 2 ^ k - 1"
      by (subst of_nat_diff) simp_all
    then show ?thesis by (simp only: of_nat_add) simp
  qed
  have "unat x + (2 ^ k - 1) < 2 ^ 64"
    using assms(2) by (simp add: less_le_trans [OF _ assms(2)])
  then have "unat (x + 2 ^ k - 1) = unat x + (2 ^ k - 1)"
    unfolding eq by (simp add: unat_of_nat take_bit_nat_eq_self)
  moreover have "(2 ^ k :: 64 word) - 1 = mask k" by (simp add: mask_eq_decr_exp)
  ultimately show ?thesis
    using assms(1) by (simp add: alignUp_def align_up_def and_not_mask_unat)
qed

end
