(* ===== verification/GoTypes.thy ===== *)
theory GoTypes
  imports Prelude
begin

text \<open>
  The part of \<open>reflect.Type\<close> the proxy consults: the kind of a type, its components, and the
  size, alignment and field offsets the Go compiler gives it on a 64-bit target (amd64 and
  arm64 agree). Names of types and fields play no role in the register assignment; an interface
  type carries its name, which is what \<open>reflect.Type\<close> identity compares.
\<close>

section \<open>Types\<close>

datatype gotype =
    TBool
  | TInt | TInt8 | TInt16 | TInt32 | TInt64
  | TUint | TUint8 | TUint16 | TUint32 | TUint64 | TUintptr
  | TFloat32 | TFloat64 | TComplex64 | TComplex128
  | TString
  | TUnsafePointer
  | TPointer gotype
  | TChan gotype
  | TMap gotype gotype
  | TSlice gotype
  | TInterface string
  | TArray nat gotype
  | TStruct "gotype list"
  | TFunc "gotype list" "gotype list" bool

text \<open>\<open>unsafe.Sizeof(uintptr(0))\<close> on the two supported architectures.\<close>

definition ptrSize :: nat where
  "ptrSize = 8"

section \<open>Size, alignment, field offsets\<close>

fun align_of :: "gotype \<Rightarrow> nat" where
  "align_of TBool = 1"
| "align_of TInt8 = 1"
| "align_of TUint8 = 1"
| "align_of TInt16 = 2"
| "align_of TUint16 = 2"
| "align_of TInt32 = 4"
| "align_of TUint32 = 4"
| "align_of TFloat32 = 4"
| "align_of TComplex64 = 4"
| "align_of (TArray n t) = align_of t"
| "align_of (TStruct ts) = foldr max (map align_of ts) 1"
| "align_of _ = 8"

text \<open>
  Struct layout over (size, alignment) pairs: each field at the next multiple of its alignment.
  The compiler pads a non-empty struct that ends in a zero-sized field by one byte, so that the
  address of that field stays inside the object.
\<close>

fun field_offsets :: "nat \<Rightarrow> (nat \<times> nat) list \<Rightarrow> nat list" where
  "field_offsets off [] = []"
| "field_offsets off ((s, a) # fs) = align_up off a # field_offsets (align_up off a + s) fs"

fun fields_end :: "nat \<Rightarrow> (nat \<times> nat) list \<Rightarrow> nat" where
  "fields_end off [] = off"
| "fields_end off ((s, a) # fs) = fields_end (align_up off a + s) fs"

definition struct_size :: "(nat \<times> nat) list \<Rightarrow> nat" where
  "struct_size fs =
     (let e = fields_end 0 fs;
          e' = (if 0 < e \<and> fs \<noteq> [] \<and> fst (last fs) = 0 then e + 1 else e)
      in align_up e' (foldr max (map snd fs) 1))"

fun size_of :: "gotype \<Rightarrow> nat" where
  "size_of TBool = 1"
| "size_of TInt8 = 1"
| "size_of TUint8 = 1"
| "size_of TInt16 = 2"
| "size_of TUint16 = 2"
| "size_of TInt32 = 4"
| "size_of TUint32 = 4"
| "size_of TFloat32 = 4"
| "size_of TComplex64 = 8"
| "size_of TComplex128 = 16"
| "size_of TString = 16"
| "size_of (TInterface _) = 16"
| "size_of (TSlice _) = 24"
| "size_of (TArray n t) = n * size_of t"
| "size_of (TStruct ts) = struct_size (map (\<lambda>t. (size_of t, align_of t)) ts)"
| "size_of _ = 8"

text \<open>\<open>t.Field(i).Offset\<close> for every field of a struct type.\<close>

definition field_offs :: "gotype list \<Rightarrow> nat list" where
  "field_offs ts = field_offsets 0 (map (\<lambda>t. (size_of t, align_of t)) ts)"

section \<open>Facts about the layout\<close>

lemma foldr_max_ge: "x \<in> set xs \<Longrightarrow> (x::nat) \<le> foldr max xs b"
  by (induction xs) auto

lemma foldr_max_base: "(b::nat) \<le> foldr max xs b"
  by (induction xs) auto

lemma foldr_max_in: "foldr max xs b = (b::nat) \<or> foldr max xs b \<in> set xs"
  by (induction xs) (auto simp: max_def)

text \<open>Every alignment is one of 1, 2, 4, 8.\<close>

lemma align_of_cases: "align_of t \<in> {1, 2, 4, 8}"
proof (induction t rule: align_of.induct)
  case (11 ts)
  then have "\<forall>m \<in> set (map align_of ts). m \<in> {1, 2, 4, 8}" by auto
  then show ?case using foldr_max_in [of "map align_of ts" 1]
    by (metis align_of.simps(11) insertI1)
qed auto

lemma align_of_pos [simp]: "0 < align_of t"
  using align_of_cases [of t] by auto

lemma align_of_dvd_8 [simp]: "align_of t dvd 8"
  using align_of_cases [of t] by auto

lemma align_dvd_le:
  assumes "x \<in> {1, 2, 4, 8::nat}" and "y \<in> {1, 2, 4, 8}" and "x \<le> y"
  shows "x dvd y"
  using assms by auto

lemma align_of_struct_dvd: "t \<in> set ts \<Longrightarrow> align_of t dvd align_of (TStruct ts)"
  using align_of_cases [of t] align_of_cases [of "TStruct ts"]
    foldr_max_ge [of "align_of t" "map align_of ts" 1]
  by (intro align_dvd_le) auto

lemma length_field_offsets [simp]: "length (field_offsets off fs) = length fs"
  by (induction off fs rule: field_offsets.induct) auto

lemma length_field_offs [simp]: "length (field_offs ts) = length ts"
  by (simp add: field_offs_def)

lemma fields_end_ge: "\<forall>(s, a) \<in> set fs. 0 < a \<Longrightarrow> off \<le> fields_end off fs"
proof (induction off fs rule: fields_end.induct)
  case (2 off s a fs)
  then have "align_up off a + s \<le> fields_end (align_up off a + s) fs" by simp
  moreover have "off \<le> align_up off a" using 2 by (simp add: align_up_ge)
  ultimately show ?case by simp
qed simp

text \<open>The size of a type is a multiple of its alignment.\<close>

lemma align_dvd_size: "align_of t dvd size_of t"
proof (induction t rule: size_of.induct)
  case (15 ts)
  have "align_of (TStruct ts) = foldr max (map snd (map (\<lambda>t. (size_of t, align_of t)) ts)) 1"
    by (simp add: comp_def)
  then show ?case by (simp add: struct_size_def Let_def comp_def)
qed auto

text \<open>
  Fields lie in order, aligned, and without overlap: each field starts at or after the end of
  the one before, and the last one ends within the struct.
\<close>

lemma field_offsets_bounds:
  assumes "\<forall>(s, a) \<in> set fs. 0 < a" and "i < length fs"
  shows "off \<le> field_offsets off fs ! i \<and>
         snd (fs ! i) dvd field_offsets off fs ! i \<and>
         field_offsets off fs ! i + fst (fs ! i) \<le> fields_end off fs"
  using assms
proof (induction off fs arbitrary: i rule: field_offsets.induct)
  case (2 off s a fs)
  show ?case
  proof (cases i)
    case 0
    then show ?thesis using 2 fields_end_ge [of fs "align_up off a + s"]
      by (auto simp: align_up_ge)
  next
    case (Suc j)
    have "off \<le> align_up off a + s" using 2 by (simp add: align_up_ge trans_le_add1)
    then show ?thesis using 2 Suc by fastforce
  qed
qed simp

lemma field_offsets_ordered:
  assumes "\<forall>(s, a) \<in> set fs. 0 < a" and "i < j" and "j < length fs"
  shows "field_offsets off fs ! i + fst (fs ! i) \<le> field_offsets off fs ! j"
  using assms
proof (induction off fs arbitrary: i j rule: field_offsets.induct)
  case (2 off s a fs)
  from \<open>i < j\<close> obtain k where j: "j = Suc k" by (cases j) auto
  show ?case
  proof (cases i)
    case 0
    then show ?thesis
      using 2 j field_offsets_bounds [of fs k "align_up off a + s"] by auto
  next
    case (Suc m)
    then show ?thesis using 2 j by auto
  qed
qed simp

lemma fields_end_le_struct_size:
  "fields_end 0 fs \<le> struct_size fs"
proof -
  have pos: "0 < foldr max (map snd fs) (1::nat)"
    using foldr_max_base [of 1 "map snd fs"] by simp
  define e where "e = fields_end 0 fs"
  define e' where "e' = (if 0 < e \<and> fs \<noteq> [] \<and> fst (last fs) = 0 then e + 1 else e)"
  have "e \<le> e'" by (simp add: e'_def)
  also have "e' \<le> align_up e' (foldr max (map snd fs) 1)"
    using pos by (rule align_up_ge)
  finally show ?thesis
    by (simp only: struct_size_def Let_def e_def e'_def)
qed

lemma field_offs_bounds:
  assumes "i < length ts"
  shows "field_offs ts ! i + size_of (ts ! i) \<le> size_of (TStruct ts)"
    and "align_of (ts ! i) dvd field_offs ts ! i"
  using assms field_offsets_bounds [of "map (\<lambda>t. (size_of t, align_of t)) ts" i 0]
    fields_end_le_struct_size [of "map (\<lambda>t. (size_of t, align_of t)) ts"]
  by (auto simp: field_offs_def)

lemma field_offs_ordered:
  assumes "i < j" and "j < length ts"
  shows "field_offs ts ! i + size_of (ts ! i) \<le> field_offs ts ! j"
  using assms field_offsets_ordered [of "map (\<lambda>t. (size_of t, align_of t)) ts" i j 0]
  by (auto simp: field_offs_def)

end
