(* ===== verification/AbiSeq.thy ===== *)
theory AbiSeq
  imports Abi
begin

text \<open>
  What every sequence built by \<open>addRcvr\<close> and \<open>addArg\<close> satisfies: the values partition the steps
  (\<open>seq_vals\<close>), each register of each file is handed out exactly once and in order
  (\<open>regs_in_order\<close>), and the stack slots are aligned, in order and disjoint (\<open>slots_ok\<close>).
\<close>

section \<open>Values partition the steps\<close>

fun starts :: "nat \<Rightarrow> 'a list list \<Rightarrow> nat list" where
  "starts k [] = []"
| "starts k (v # vs) = k # starts (k + length v) vs"

definition seq_vals :: "seq \<Rightarrow> step list list \<Rightarrow> bool" where
  "seq_vals s vss \<longleftrightarrow> seq_steps s = concat vss \<and> valueStart s = starts 0 vss"

lemma length_starts [simp]: "length (starts k vs) = length vs"
  by (induction k vs rule: starts.induct) auto

lemma nth_starts: "i < length vs \<Longrightarrow> starts k vs ! i = k + length (concat (take i vs))"
  by (induction k vs arbitrary: i rule: starts.induct) (auto simp: nth_Cons split: nat.splits)

lemma starts_append: "starts k (vs @ ws) = starts k vs @ starts (k + length (concat vs)) ws"
  by (induction k vs rule: starts.induct) (auto simp: add.assoc)

lemma concat_take_Suc: "i < length vs \<Longrightarrow> concat (take (Suc i) vs) = concat (take i vs) @ vs ! i"
  by (simp add: take_Suc_conv_app_nth)

text \<open>\<open>stepsForValue\<close> finds exactly the steps of the value, and never slices out of range.\<close>

lemma stepsForValue_vals:
  assumes "seq_vals s vss" and "i < length vss"
  shows "stepsForValue s i = Inr (vss ! i)"
proof -
  have split: "concat vss = concat (take i vss) @ vss ! i @ concat (drop (Suc i) vss)"
    using assms(2) by (metis append_take_drop_id concat.simps(2) concat_append id_take_nth_drop
        append.assoc Cons_nth_drop_Suc)
  have start: "valueStart s ! i = length (concat (take i vss))"
    using assms by (simp add: seq_vals_def nth_starts)
  have "valueStart s ! (i + 1) = length (concat (take i vss)) + length (vss ! i)"
    if "i < length vss - 1"
    using assms that by (simp add: seq_vals_def nth_starts concat_take_Suc)
  moreover have "concat (drop (Suc i) vss) = []" if "\<not> i < length vss - 1"
    using that assms(2) by auto
  ultimately show ?thesis
    using assms start split
    by (auto simp: stepsForValue_def seq_vals_def Let_def)
qed

lemma stepsForValue_out_of_range:
  "length (valueStart s) \<le> i \<Longrightarrow> stepsForValue s i = Inl ''index out of range''"
  by (simp add: stepsForValue_def)

section \<open>What the steps of one value look like\<close>

definition is_stack :: "step \<Rightarrow> bool" where
  "is_stack st \<longleftrightarrow> step_kind st = StepStack"

definition is_int :: "step \<Rightarrow> bool" where
  "is_int st \<longleftrightarrow> step_kind st = StepIntReg \<or> step_kind st = StepPointer"

definition is_float :: "step \<Rightarrow> bool" where
  "is_float st \<longleftrightarrow> step_kind st = StepFloatReg"

lemmas step_class_defs = is_stack_def is_int_def is_float_def

fun class_of :: "stepKind \<Rightarrow> regclass" where
  "class_of StepPointer = CPtr"
| "class_of StepFloatReg = CFloat"
| "class_of _ = CInt"

definition piece_of :: "step \<Rightarrow> piece" where
  "piece_of st = (step_offset st, step_size st, class_of (step_kind st))"

text \<open>
  A value of type \<open>t\<close> is passed as nothing (it has no size), as one whole, aligned slot of the
  stack area, or entirely in registers, one per piece of its flattening.
\<close>

definition value_steps :: "gotype \<Rightarrow> step list \<Rightarrow> bool" where
  "value_steps t sts \<longleftrightarrow>
     (if size_of t = 0 then sts = []
      else (\<exists>st. sts = [st] \<and> is_stack st \<and> step_offset st = 0 \<and> step_size st = size_of t \<and>
                 align_of t dvd stkOff st) \<or>
           (flatten t 0 = Some (map piece_of sts) \<and> (\<forall>st \<in> set sts. \<not> is_stack st)))"

fun place_steps :: "piece list \<Rightarrow> nat \<Rightarrow> nat \<Rightarrow> step list" where
  "place_steps [] i f = []"
| "place_steps ((off, sz, c) # ps) i f =
     (if c = CFloat
      then \<lparr>step_kind = StepFloatReg, step_offset = off, step_size = sz, stkOff = 0, ireg = 0,
            freg = f\<rparr> # place_steps ps i (f + 1)
      else \<lparr>step_kind = (if c = CPtr then StepPointer else StepIntReg), step_offset = off,
            step_size = sz, stkOff = 0, ireg = i, freg = 0\<rparr> # place_steps ps (i + 1) f)"

lemma seq_steps_place: "seq_steps (place ps s) = seq_steps s @ place_steps ps (iregs s) (fregs s)"
proof (induction ps arbitrary: s)
  case (Cons p ps)
  obtain off sz c where "p = (off, sz, c)" by (cases p)
  then show ?case by (cases c) (simp_all add: Cons)
qed simp

lemma map_piece_of_place_steps [simp]: "map piece_of (place_steps ps i f) = ps"
proof (induction ps i f rule: place_steps.induct)
  case (2 off sz c ps i f)
  then show ?case by (cases c) (auto simp: piece_of_def)
qed simp

lemma place_steps_not_stack: "st \<in> set (place_steps ps i f) \<Longrightarrow> \<not> is_stack st"
  by (induction ps i f rule: place_steps.induct) (auto simp: is_stack_def split: if_splits)

section \<open>Registers are handed out once and in order\<close>

definition regs_in_order :: "seq \<Rightarrow> bool" where
  "regs_in_order s \<longleftrightarrow>
     map ireg (filter is_int (seq_steps s)) = [0..<iregs s] \<and>
     map freg (filter is_float (seq_steps s)) = [0..<fregs s]"

lemma place_steps_iregs:
  "map ireg (filter is_int (place_steps ps i f)) = [i..<i + int_pieces ps]"
proof (induction ps i f rule: place_steps.induct)
  case (2 off sz c ps i f)
  then show ?case by (cases c) (auto simp: step_class_defs upt_rec [of i])
qed simp

lemma place_steps_fregs:
  "map freg (filter is_float (place_steps ps i f)) = [f..<f + float_pieces ps]"
proof (induction ps i f rule: place_steps.induct)
  case (2 off sz c ps i f)
  then show ?case by (cases c) (auto simp: step_class_defs upt_rec [of f])
qed simp

lemma regs_in_order_place:
  assumes "regs_in_order s" shows "regs_in_order (place ps s)"
proof -
  have "[0..<i] @ [i..<i + n] = [0..<i + n]" for i n :: nat
    by (rule upt_add_eq_append [symmetric]) simp
  then show ?thesis
    using assms
    by (simp add: regs_in_order_def seq_steps_place place_steps_iregs place_steps_fregs)
qed

section \<open>Stack slots are aligned, in order and disjoint\<close>

fun slots_ok :: "nat \<Rightarrow> step list \<Rightarrow> nat \<Rightarrow> bool" where
  "slots_ok lo [] hi = (lo \<le> hi)"
| "slots_ok lo (st # sts) hi =
     (lo \<le> stkOff st \<and> slots_ok (stkOff st + step_size st) sts hi)"

definition stack_ok :: "nat \<Rightarrow> seq \<Rightarrow> bool" where
  "stack_ok base s \<longleftrightarrow> slots_ok base (filter is_stack (seq_steps s)) (seq_stackBytes s)"

lemma slots_ok_mono: "slots_ok lo sts hi \<Longrightarrow> hi \<le> hi' \<Longrightarrow> slots_ok lo sts hi'"
  by (induction lo sts hi rule: slots_ok.induct) auto

lemma slots_ok_append: "slots_ok lo (sts @ [st]) hi' \<longleftrightarrow>
    slots_ok lo sts (stkOff st) \<and> stkOff st + step_size st \<le> hi'"
  by (induction lo sts "stkOff st" rule: slots_ok.induct) auto

lemma slots_ok_bounds: "slots_ok lo sts hi \<Longrightarrow> lo \<le> hi \<and>
    (\<forall>st \<in> set sts. lo \<le> stkOff st \<and> stkOff st + step_size st \<le> hi)"
proof (induction lo sts hi rule: slots_ok.induct)
  case (2 lo st sts hi)
  then have IH: "stkOff st + step_size st \<le> hi"
    "\<forall>st' \<in> set sts. stkOff st + step_size st \<le> stkOff st' \<and> stkOff st' + step_size st' \<le> hi"
    and lo: "lo \<le> stkOff st" by auto
  then show ?case by fastforce
qed simp

lemma slots_ok_disjoint:
  "slots_ok lo sts hi \<Longrightarrow> i < j \<Longrightarrow> j < length sts \<Longrightarrow>
   stkOff (sts ! i) + step_size (sts ! i) \<le> stkOff (sts ! j)"
proof (induction lo sts hi arbitrary: i j rule: slots_ok.induct)
  case (2 lo st sts hi)
  then show ?case
    using slots_ok_bounds [of "stkOff st + step_size st" sts hi]
    by (cases i; cases j) (auto simp: nth_Cons)
qed simp

lemma stack_ok_place [simp]: "stack_ok base (place ps s) = stack_ok base s"
proof -
  have "filter is_stack (place_steps ps i f) = []" for i f
    by (auto simp: filter_empty_conv dest: place_steps_not_stack)
  then show ?thesis by (simp add: stack_ok_def seq_steps_place)
qed

lemma stack_ok_stackAssign:
  assumes "stack_ok base s" and "0 < al"
  shows "stack_ok base (stackAssign sz al s)"
proof -
  have "seq_stackBytes s \<le> align_up (seq_stackBytes s) al"
    using assms(2) by (rule align_up_ge)
  with assms show ?thesis
    by (auto simp: stack_ok_def stackAssign_def Let_def slots_ok_append is_stack_def
        elim: slots_ok_mono)
qed

section \<open>The invariant of a sequence under construction\<close>

definition seq_inv :: "arch \<Rightarrow> nat \<Rightarrow> seq \<Rightarrow> step list list \<Rightarrow> bool" where
  "seq_inv A base s vss \<longleftrightarrow>
     seq_vals s vss \<and> regs_ok A s \<and> regs_in_order s \<and> stack_ok base s"

lemma seq_inv_addArg:
  assumes "seq_inv A base s vss"
  shows "\<exists>sts. value_steps t sts \<and> seq_inv A base (addArg_spec A t s) (vss @ [sts])"
proof -
  define s1 where "s1 = s\<lparr>valueStart := valueStart s @ [length (seq_steps s)]\<rparr>"
  have s1: "regs_in_order s1" "stack_ok base s1" "regs_ok A s1" "seq_steps s1 = seq_steps s"
    "valueStart s1 = starts 0 (vss @ [sts])" for sts :: "step list"
    using assms by (auto simp: s1_def seq_inv_def regs_in_order_def stack_ok_def seq_vals_def
        starts_append)
  have steps: "seq_steps s = concat vss"
    using assms by (simp add: seq_inv_def seq_vals_def)
  consider (zero) "size_of t = 0"
    | (regs) ps where "size_of t \<noteq> 0" "flatten t 0 = Some ps" "fits A ps s"
        "addArg_spec A t s = place ps s1"
    | (stack) "size_of t \<noteq> 0" "addArg_spec A t s = stackAssign (size_of t) (align_of t) s1"
    by (cases "flatten t 0"; cases "fits A (the (flatten t 0)) s")
      (auto simp: addArg_spec_def s1_def Let_def)
  then show ?thesis
  proof cases
    case zero
    then have "addArg_spec A t s = s1\<lparr>seq_stackBytes := align_up (seq_stackBytes s) (align_of t)\<rparr>"
      by (simp add: addArg_spec_def s1_def Let_def)
    moreover have "seq_stackBytes s \<le> align_up (seq_stackBytes s) (align_of t)"
      by (rule align_up_ge) simp
    ultimately have "seq_inv A base (addArg_spec A t s) (vss @ [[]])"
      using s1 assms steps
      by (auto simp: seq_inv_def seq_vals_def regs_ok_def regs_in_order_def stack_ok_def
          intro: slots_ok_mono)
    with zero show ?thesis by (auto simp: value_steps_def)
  next
    case regs
    define sts where "sts = place_steps ps (iregs s1) (fregs s1)"
    have "value_steps t sts"
      using regs by (auto simp: value_steps_def sts_def dest: place_steps_not_stack)
    moreover have "seq_inv A base (place ps s1) (vss @ [sts])"
      using s1 regs steps
      by (auto simp: seq_inv_def seq_vals_def seq_steps_place sts_def regs_in_order_place
          regs_ok_place s1_def)
    ultimately show ?thesis using regs by auto
  next
    case stack
    define st where "st = \<lparr>step_kind = StepStack, step_offset = 0, step_size = size_of t,
      stkOff = align_up (seq_stackBytes s1) (align_of t), ireg = 0, freg = 0\<rparr>"
    have "value_steps t [st]"
      using stack by (auto simp: value_steps_def st_def is_stack_def)
    moreover have "seq_inv A base (stackAssign (size_of t) (align_of t) s1) (vss @ [[st]])"
      using s1 steps stack_ok_stackAssign [OF s1(2)]
      by (auto simp: seq_inv_def seq_vals_def stackAssign_def Let_def st_def regs_in_order_def
          regs_ok_def step_class_defs)
    ultimately show ?thesis using stack by auto
  qed
qed

lemma stackBytes_addArg: "seq_stackBytes s \<le> seq_stackBytes (addArg_spec A t s)"
  by (auto simp: addArg_spec_def Let_def stackAssign_def align_up_ge trans_le_add1
      split: option.splits)

text \<open>All the values of a list, one after the other.\<close>

lemma seq_inv_addArgs:
  assumes "seq_inv A base s vss"
  shows "\<exists>wss. list_all2 value_steps ts wss \<and>
               seq_inv A base (fold (addArg_spec A) ts s) (vss @ wss) \<and>
               seq_stackBytes s \<le> seq_stackBytes (fold (addArg_spec A) ts s)"
  using assms
proof (induction ts arbitrary: s vss)
  case Nil
  then show ?case by auto
next
  case (Cons t ts)
  obtain sts where t: "value_steps t sts" "seq_inv A base (addArg_spec A t s) (vss @ [sts])"
    using seq_inv_addArg [OF Cons.prems] by blast
  obtain wss where "list_all2 value_steps ts wss"
    "seq_inv A base (fold (addArg_spec A) ts (addArg_spec A t s)) ((vss @ [sts]) @ wss)"
    "seq_stackBytes (addArg_spec A t s) \<le> seq_stackBytes (fold (addArg_spec A) ts (addArg_spec A t s))"
    using Cons.IH [OF t(2)] by blast
  then show ?case
    using t stackBytes_addArg [of s A t] by (intro exI [of _ "sts # wss"]) auto
qed

lemma res_fold_addArg:
  "regs_ok A s \<Longrightarrow>
   res_fold (\<lambda>t s. res_bind (addArg A t s) (\<lambda>(_, s'). Inr s')) ts s = Inr (fold (addArg_spec A) ts s)"
proof (induction ts arbitrary: s)
  case (Cons t ts)
  obtain st where "addArg A t s = Inr (st, addArg_spec A t s)"
    using addArg_eq_spec [OF Cons.prems] by blast
  then show ?case using Cons regs_ok_addArg by simp
qed simp

end
