(* ===== verification/Layout.thy ===== *)
theory Layout
  imports AbiSeq
begin

text \<open>
  The second half of abi.go: the frame layout of a method (\<open>abiLayout\<close>, \<open>newABILayout\<close>), the
  pointer words of a value (\<open>ptrOffsets\<close>) and the shape of the trampoline a method needs
  (\<open>stackPointers\<close>, \<open>shape\<close>, with \<open>stubShape\<close> of precise.go).
\<close>

section \<open>Pointer words of a type\<close>

fun ptrOffsets :: "gotype \<Rightarrow> nat \<Rightarrow> nat list \<Rightarrow> nat list"
  and ptrOffsets_fields :: "gotype list \<Rightarrow> nat list \<Rightarrow> nat \<Rightarrow> nat list \<Rightarrow> nat list"
where
  "ptrOffsets (TPointer _) off out = out @ [off]"
| "ptrOffsets (TChan _) off out = out @ [off]"
| "ptrOffsets (TMap _ _) off out = out @ [off]"
| "ptrOffsets (TFunc _ _ _) off out = out @ [off]"
| "ptrOffsets TUnsafePointer off out = out @ [off]"
| "ptrOffsets TString off out = out @ [off]"
| "ptrOffsets (TInterface _) off out = out @ [off, off + ptrSize]"
| "ptrOffsets (TSlice _) off out = out @ [off]"
| "ptrOffsets (TArray n t) off out =
     (if n = 0 then out
      else fold (\<lambda>i out. ptrOffsets t (off + i * size_of t) out) [0..<n] out)"
| "ptrOffsets (TStruct ts) off out = ptrOffsets_fields ts (field_offs ts) off out"
| "ptrOffsets _ off out = out"
| "ptrOffsets_fields [] os off out = out"
| "ptrOffsets_fields (t # ts) os off out =
     ptrOffsets_fields ts (tl os) off (ptrOffsets t (off + hd os) out)"

section \<open>The layout of a method\<close>

record abiLayout =
  l_call :: seq
  l_ret :: seq
  stackCallArgsSize :: nat
  retOffset :: nat
  stackBytes :: nat
  argGather :: "nat option list"
  gatherBytes :: nat
  stackPtrOffs :: "nat list"
  retStackPtrOffs :: "nat list"
  ptrMask :: "32 word"

definition addArgs :: "arch \<Rightarrow> gotype list \<Rightarrow> seq \<Rightarrow> seq res" where
  "addArgs A ts s = res_fold (\<lambda>t s. res_bind (addArg A t s) (\<lambda>(_, s'). Inr s')) ts s"

definition pointer_mask :: "step list \<Rightarrow> 32 word" where
  "pointer_mask sts =
     fold (\<lambda>st m. if step_kind st = StepPointer then m OR push_bit (ireg st) 1 else m) sts 0"

text \<open>
  The loops over \<open>ft.In(i)\<close> and \<open>ft.Out(i)\<close> that collect the pointer words of the
  stack-assigned values; \<open>k\<close> is 1 for the arguments (it skips the receiver), 0 for the results.
\<close>

definition stack_ptrs :: "seq \<Rightarrow> nat \<Rightarrow> gotype list \<Rightarrow> nat list res" where
  "stack_ptrs s k ts =
     res_fold (\<lambda>i out. res_bind (stepsForValue s (i + k))
       (\<lambda>sts. if length sts = 1 \<and> step_kind (hd sts) = StepStack
              then Inr (ptrOffsets (ts ! i) (stkOff (hd sts)) out) else Inr out))
       [0..<length ts] []"

text \<open>
  Where each argument is assembled in the gather buffer; \<open>None\<close> stands for the source's sentinel
  \<open>^uintptr(0)\<close>, the argument needs no gathering.
\<close>

definition gather_layout :: "seq \<Rightarrow> gotype list \<Rightarrow> (nat option list \<times> nat) res" where
  "gather_layout s ts =
     res_fold (\<lambda>i (ag, off). res_bind (stepsForValue s (i + 1))
       (\<lambda>sts. if 1 < length sts \<and> 0 < size_of (ts ! i)
              then (let o' = align_up off ptrSize
                    in Inr (ag[i := Some o'], o' + size_of (ts ! i)))
              else Inr (ag[i := None], off)))
       [0..<length ts] (replicate (length ts) (Some 0), 0)"

definition newABILayout :: "arch \<Rightarrow> gotype \<Rightarrow> abiLayout res" where
  "newABILayout A ft =
     (case ft of
        TFunc ins outs variadic \<Rightarrow>
          res_bind (addRcvr A empty_seq) (\<lambda>c0.
          res_bind (addArgs A ins c0) (\<lambda>c.
          let scas = seq_stackBytes c; ro = align_up scas ptrSize in
          res_bind (addArgs A outs (empty_seq\<lparr>seq_stackBytes := ro\<rparr>)) (\<lambda>r.
          res_bind (stack_ptrs c 1 ins) (\<lambda>spo.
          res_bind (stack_ptrs r 0 outs) (\<lambda>rpo.
          res_bind (gather_layout c ins) (\<lambda>(ag, gb).
            Inr \<lparr>l_call = c, l_ret = r, stackCallArgsSize = scas, retOffset = ro,
                 stackBytes = align_up (seq_stackBytes r) ptrSize,
                 argGather = ag, gatherBytes = gb,
                 stackPtrOffs = spo, retStackPtrOffs = rpo,
                 ptrMask = pointer_mask (seq_steps c)\<rparr>))))))
      | _ \<Rightarrow> Inl ''weave: not a func type'')"

definition argStepCount :: "abiLayout \<Rightarrow> nat" where
  "argStepCount l = length (valueStart (l_call l))"

definition stackPointers :: "abiLayout \<Rightarrow> bool" where
  "stackPointers l \<longleftrightarrow> length (stackPtrOffs l) \<noteq> 0 \<or> length (retStackPtrOffs l) \<noteq> 0"

section \<open>Shapes (precise.go)\<close>

definition stubMaxWords :: nat where
  "stubMaxWords = 64"

record stubShape =
  sh_index :: nat
  argWords :: nat
  retWords :: nat
  argPtrs :: "64 word"
  retPtrs :: "64 word"

definition words :: "stubShape \<Rightarrow> nat" where
  "words sh = argWords sh + retWords sh"

text \<open>
  \<open>uintptr\<close> subtraction in \<open>shape\<close> never goes below zero: \<open>retOffset \<le> stackBytes\<close> and the
  result pointers lie at or after \<open>retOffset\<close> (\<open>stack_area_facts\<close>, \<open>ret_ptr_offs_range\<close> below).
\<close>

definition shape :: "abiLayout \<Rightarrow> nat \<Rightarrow> stubShape res" where
  "shape l idx =
     (let aw = retOffset l div ptrSize; rw = (stackBytes l - retOffset l) div ptrSize
      in if aw > stubMaxWords \<or> rw > stubMaxWords
         then Inl ''weave: stack argument area wider than a stub shape can describe''
         else Inr \<lparr>sh_index = idx, argWords = aw, retWords = rw,
                argPtrs = fold (\<lambda>off m. m OR push_bit (off div ptrSize) 1) (stackPtrOffs l) 0,
                retPtrs = fold (\<lambda>off m. m OR push_bit ((off - retOffset l) div ptrSize) 1)
                            (retStackPtrOffs l) 0\<rparr>)"

section \<open>Where the pointers of a type are\<close>

text \<open>The same words without the accumulator.\<close>

fun ptrs :: "gotype \<Rightarrow> nat \<Rightarrow> nat list"
  and ptrs_fields :: "gotype list \<Rightarrow> nat list \<Rightarrow> nat \<Rightarrow> nat list"
where
  "ptrs (TPointer _) off = [off]"
| "ptrs (TChan _) off = [off]"
| "ptrs (TMap _ _) off = [off]"
| "ptrs (TFunc _ _ _) off = [off]"
| "ptrs TUnsafePointer off = [off]"
| "ptrs TString off = [off]"
| "ptrs (TInterface _) off = [off, off + 8]"
| "ptrs (TSlice _) off = [off]"
| "ptrs (TArray n t) off = concat (map (\<lambda>i. ptrs t (off + i * size_of t)) [0..<n])"
| "ptrs (TStruct ts) off = ptrs_fields ts (field_offs ts) off"
| "ptrs _ off = []"
| "ptrs_fields [] os off = []"
| "ptrs_fields (t # ts) os off = ptrs t (off + hd os) @ ptrs_fields ts (tl os) off"

lemma fold_append: "(\<And>i out. i \<in> set xs \<Longrightarrow> f i out = out @ g i) \<Longrightarrow>
    fold f xs out = out @ concat (map g xs)"
  by (induction xs arbitrary: out) auto

lemma ptrOffsets_ptrs [simp]:
  "ptrOffsets t off out = out @ ptrs t off"
  "ptrOffsets_fields ts os off out = out @ ptrs_fields ts os off"
proof (induction t off out and ts os off out rule: ptrOffsets_ptrOffsets_fields.induct)
  case (9 n t off out)
  have "fold (\<lambda>i out. ptrOffsets t (off + i * size_of t) out) [0..<n] out =
        out @ concat (map (\<lambda>i. ptrs t (off + i * size_of t)) [0..<n])" if "n \<noteq> 0"
    by (rule fold_append) (use 9 that in simp)
  then show ?case by simp
qed (simp_all add: ptrSize_def)

text \<open>
  A type that holds a pointer is word aligned; its pointers are whole words inside the value, at
  word offsets.
\<close>

lemma field_offs_hd_tl:
  "list_all2 P (t # ts) os \<Longrightarrow> P t (hd os) \<and> list_all2 P ts (tl os)"
  by (cases os) auto

definition field_at :: "nat \<Rightarrow> nat \<Rightarrow> gotype \<Rightarrow> nat \<Rightarrow> bool" where
  "field_at sz al t fo \<longleftrightarrow> fo + size_of t \<le> sz \<and> align_of t dvd fo \<and> align_of t dvd al"

lemma field_offs_field_at:
  "list_all2 (field_at (size_of (TStruct ts)) (align_of (TStruct ts))) ts (field_offs ts)"
  by (auto simp: list_all2_conv_all_nth field_at_def field_offs_bounds align_of_struct_dvd
      simp del: size_of.simps align_of.simps)

lemma align_of_8_dvd: "align_of t = 8 \<Longrightarrow> align_of t dvd al \<Longrightarrow> al dvd 8 \<Longrightarrow> al = 8"
  by (metis dvd_antisym)

definition ptrs_ok :: "nat \<Rightarrow> nat \<Rightarrow> nat \<Rightarrow> nat list \<Rightarrow> bool" where
  "ptrs_ok off sz al os \<longleftrightarrow>
     (\<forall>p \<in> set os. al = 8 \<and> off \<le> p \<and> p + 8 \<le> off + sz \<and> 8 dvd (p - off))"

lemma ptrs_ok_ptrs:
  "ptrs_ok off (size_of t) (align_of t) (ptrs t off)"
  "list_all2 (field_at sz al) ts os \<Longrightarrow> al dvd 8 \<Longrightarrow> ptrs_ok off sz al (ptrs_fields ts os off)"
proof (induction t off and ts os off arbitrary: and sz al rule: ptrs_ptrs_fields.induct)
  case (9 n t off)
  show ?case
    unfolding ptrs_ok_def
  proof
    fix p assume "p \<in> set (ptrs (TArray n t) off)"
    then obtain i where i: "i < n" and p: "p \<in> set (ptrs t (off + i * size_of t))" by auto
    with 9 [of i] have b: "align_of t = 8" "off + i * size_of t \<le> p"
      "p + 8 \<le> off + i * size_of t + size_of t" "8 dvd (p - (off + i * size_of t))"
      by (auto simp: ptrs_ok_def)
    have "i * size_of t + size_of t \<le> n * size_of t"
      using i by (metis Suc_leI mult_Suc add.commute mult_le_mono1)
    moreover have "8 dvd i * size_of t"
      using align_dvd_size [of t] b(1) by simp
    then have "8 dvd (p - (off + i * size_of t)) + i * size_of t"
      using b(4) by (rule dvd_add [rotated])
    then have "8 dvd (p - off)" using b(2) by (simp add: algebra_simps)
    ultimately show "align_of (TArray n t) = 8 \<and> off \<le> p \<and>
        p + 8 \<le> off + size_of (TArray n t) \<and> 8 dvd (p - off)"
      using b by auto
  qed
next
  case (10 ts off)
  then show ?case
    using field_offs_field_at [of ts] align_of_dvd_8 [of "TStruct ts"]
    by (simp del: size_of.simps align_of.simps align_of_dvd_8)
next
  case (13 t ts os off)
  from field_offs_hd_tl [OF "13.prems"(1)] have f: "field_at sz al t (hd os)" "list_all2 (field_at sz al) ts (tl os)"
    by auto
  have "ptrs_ok off sz al (ptrs t (off + hd os))"
    unfolding ptrs_ok_def
  proof
    fix p assume "p \<in> set (ptrs t (off + hd os))"
    with "13.IH"(1) have b: "align_of t = 8" "off + hd os \<le> p" "p + 8 \<le> off + hd os + size_of t"
      "8 dvd (p - (off + hd os))" by (auto simp: ptrs_ok_def)
    have "8 dvd hd os" using f(1) b(1) by (simp add: field_at_def)
    with b(4) have "8 dvd (p - (off + hd os)) + hd os" by (rule dvd_add)
    then have "8 dvd (p - off)" using b(2) by (simp add: algebra_simps)
    moreover have "al = 8"
      using f(1) b(1) "13.prems"(2) by (auto simp: field_at_def intro: dvd_antisym)
    ultimately show "al = 8 \<and> off \<le> p \<and> p + 8 \<le> off + sz \<and> 8 dvd (p - off)"
      using b f(1) by (auto simp: field_at_def)
  qed
  with 13 f(2) show ?case by (auto simp: ptrs_ok_def)
qed (simp_all add: ptrs_ok_def)

end
