(* ===== verification/LayoutCorrect.thy ===== *)
theory LayoutCorrect
  imports Layout
begin

text \<open>
  The layout computed by \<open>newABILayout\<close> is right: it exists for every func type, assigns every
  value to registers or to one stack slot without overlap, and its pointer descriptions
  (\<open>ptrMask\<close>, \<open>stackPtrOffs\<close>, \<open>retStackPtrOffs\<close>, the shape's bitmaps) mark exactly the words the
  types say. \<open>layout_rel\<close> gathers what the construction establishes; the properties read it off.
\<close>

section \<open>Pieces lie in order inside the value\<close>

fun pieces_ok :: "nat \<Rightarrow> piece list \<Rightarrow> nat \<Rightarrow> bool" where
  "pieces_ok lo [] hi = (lo \<le> hi)"
| "pieces_ok lo ((off, sz, c) # ps) hi =
     (lo \<le> off \<and> 0 < sz \<and> sz \<le> 8 \<and> pieces_ok (off + sz) ps hi)"

fun fields_seq :: "nat \<Rightarrow> gotype list \<Rightarrow> nat list \<Rightarrow> nat \<Rightarrow> bool" where
  "fields_seq lo [] os hi = (lo \<le> hi)"
| "fields_seq lo (t # ts) os hi = (lo \<le> hd os \<and> fields_seq (hd os + size_of t) ts (tl os) hi)"

lemma fields_seq_mono: "fields_seq lo ts os hi \<Longrightarrow> hi \<le> hi' \<Longrightarrow> fields_seq lo ts os hi'"
  by (induction lo ts os hi rule: fields_seq.induct) auto

lemma fields_seq_field_offsets:
  "fields_seq off ts (field_offsets off (map (\<lambda>t. (size_of t, align_of t)) ts))
     (fields_end off (map (\<lambda>t. (size_of t, align_of t)) ts))"
  by (induction ts arbitrary: off) (auto simp: align_up_ge)

lemma fields_seq_field_offs: "fields_seq 0 ts (field_offs ts) (size_of (TStruct ts))"
  using fields_seq_mono [OF fields_seq_field_offsets fields_end_le_struct_size, of ts]
  by (simp add: field_offs_def)

lemma pieces_ok_le: "pieces_ok lo ps hi \<Longrightarrow> lo \<le> hi"
  by (induction lo ps hi rule: pieces_ok.induct) auto

lemma pieces_ok_append:
  "pieces_ok lo ps mid \<Longrightarrow> pieces_ok mid' qs hi \<Longrightarrow> mid \<le> mid' \<Longrightarrow> pieces_ok lo (ps @ qs) hi"
proof (induction lo ps mid rule: pieces_ok.induct)
  case (1 lo mid)
  then show ?case by (cases qs) auto
qed auto

lemma pieces_ok_mono: "pieces_ok lo ps hi \<Longrightarrow> lo' \<le> lo \<Longrightarrow> hi \<le> hi' \<Longrightarrow> pieces_ok lo' ps hi'"
  by (induction lo ps hi arbitrary: lo' rule: pieces_ok.induct) auto

lemma flatten_pieces_ok:
  "flatten t off = Some ps \<Longrightarrow> pieces_ok off ps (off + size_of t)"
  "flatten_fields ts os off = Some ps \<Longrightarrow> fields_seq lo ts os hi \<Longrightarrow>
     pieces_ok (off + lo) ps (off + hi)"
proof (induction t off and ts os off arbitrary: ps and ps lo hi rule: flatten_flatten_fields.induct)
  case (13 n t off)
  then show ?case by (auto split: if_splits)
next
  case (14 ts off)
  then show ?case using fields_seq_field_offs [of ts] by fastforce
next
  case (17 t ts os off)
  from "17.prems"(1) obtain qs rs where q: "flatten t (off + hd os) = Some qs"
    and r: "flatten_fields ts (tl os) off = Some rs" and ps: "ps = qs @ rs"
    by (auto split: option.splits)
  have "pieces_ok (off + lo) qs (off + hd os + size_of t)"
    using "17.IH"(1) [OF q] "17.prems"(2) by (auto elim: pieces_ok_mono)
  moreover have "pieces_ok (off + (hd os + size_of t)) rs (off + hi)"
    using "17.IH"(2) [OF q r] "17.prems"(2) by simp
  ultimately show ?case
    unfolding ps by (rule pieces_ok_append) simp
qed (auto simp: ptrSize_def)

lemma pieces_ok_sorted:
  "pieces_ok lo ps hi \<Longrightarrow> i < j \<Longrightarrow> j < length ps \<Longrightarrow>
   fst (ps ! i) + fst (snd (ps ! i)) \<le> fst (ps ! j)"
proof (induction lo ps hi arbitrary: i j rule: pieces_ok.induct)
  case (2 lo off sz c ps hi)
  have ge: "l \<le> fst (ps ! k)" if "pieces_ok l ps hi" "k < length ps" for k l ps hi
    using that
  proof (induction l ps hi arbitrary: k rule: pieces_ok.induct)
    case (2 l off sz c ps hi)
    then show ?case by (cases k) fastforce+
  qed simp
  show ?case
  proof (cases i)
    case 0
    with 2 show ?thesis by (cases j) (auto dest: ge)
  next
    case (Suc k)
    with 2 show ?thesis by (cases j) auto
  qed
qed simp

section \<open>Pointer pieces are the pointer words, itab words excepted\<close>

text \<open>
  The pointer words of a value without the first word of its interfaces (the itab, which the
  collector need not see): these are the words \<open>regAssign\<close> marks \<open>stepPointer\<close>.
\<close>

fun data_ptrs :: "gotype \<Rightarrow> nat \<Rightarrow> nat list"
  and data_ptrs_fields :: "gotype list \<Rightarrow> nat list \<Rightarrow> nat \<Rightarrow> nat list"
where
  "data_ptrs (TInterface _) off = [off + 8]"
| "data_ptrs (TArray n t) off = concat (map (\<lambda>i. data_ptrs t (off + i * size_of t)) [0..<n])"
| "data_ptrs (TStruct ts) off = data_ptrs_fields ts (field_offs ts) off"
| "data_ptrs t off = ptrs t off"
| "data_ptrs_fields [] os off = []"
| "data_ptrs_fields (t # ts) os off = data_ptrs t (off + hd os) @ data_ptrs_fields ts (tl os) off"

definition ptr_pieces :: "piece list \<Rightarrow> nat list" where
  "ptr_pieces ps = map fst (filter (\<lambda>(_, _, c). c = CPtr) ps)"

lemma ptr_pieces_simps [simp]:
  "ptr_pieces [] = []"
  "ptr_pieces ((off, sz, c) # ps) = (if c = CPtr then [off] else []) @ ptr_pieces ps"
  "ptr_pieces (ps @ qs) = ptr_pieces ps @ ptr_pieces qs"
  by (auto simp: ptr_pieces_def)

lemma flatten_ptr_pieces:
  "flatten t off = Some ps \<Longrightarrow> ptr_pieces ps = data_ptrs t off"
  "flatten_fields ts os off = Some ps \<Longrightarrow> ptr_pieces ps = data_ptrs_fields ts os off"
proof (induction t off and ts os off arbitrary: ps and ps rule: flatten_flatten_fields.induct)
  case (13 n t off)
  then show ?case by (auto split: if_splits)
next
  case (17 t ts os off)
  then show ?case by (auto split: option.splits)
qed auto

lemma data_ptrs_subset:
  "set (data_ptrs t off) \<subseteq> set (ptrs t off)"
  "set (data_ptrs_fields ts os off) \<subseteq> set (ptrs_fields ts os off)"
proof (induction t off and ts os off rule: data_ptrs_data_ptrs_fields.induct)
  case (2 n t off)
  then show ?case by fastforce
qed auto

section \<open>What the construction establishes\<close>

definition rcvr_steps :: "arch \<Rightarrow> step list" where
  "rcvr_steps A =
     [if 0 < intArgRegs A
      then \<lparr>step_kind = StepPointer, step_offset = 0, step_size = 8, stkOff = 0, ireg = 0, freg = 0\<rparr>
      else \<lparr>step_kind = StepStack, step_offset = 0, step_size = 8, stkOff = 0, ireg = 0, freg = 0\<rparr>]"

lemma addRcvr_inv: "\<exists>c0. addRcvr A empty_seq = Inr c0 \<and> seq_inv A 0 c0 [rcvr_steps A]"
  by (cases A)
    (simp_all add: addRcvr_def Let_def assignIntN_def int_step_def empty_seq_def ptrSize_def
      stackAssign_def seq_inv_def seq_vals_def rcvr_steps_def regs_ok_def regs_in_order_def
      stack_ok_def step_class_defs)

definition value_ptrs :: "gotype \<Rightarrow> step list \<Rightarrow> nat list" where
  "value_ptrs t sts =
     (if length sts = 1 \<and> is_stack (hd sts) then ptrs t (stkOff (hd sts)) else [])"

fun gathers :: "nat \<Rightarrow> (gotype \<times> step list) list \<Rightarrow> nat option list \<times> nat" where
  "gathers off [] = ([], off)"
| "gathers off ((t, sts) # r) =
     (if 1 < length sts \<and> 0 < size_of t
      then (let o' = align_up off 8; (g, e) = gathers (o' + size_of t) r in (Some o' # g, e))
      else (let (g, e) = gathers off r in (None # g, e)))"

lemma gathers_snoc:
  "gathers off (xs @ [(t, sts)]) =
     (let (g, e) = gathers off xs
      in if 1 < length sts \<and> 0 < size_of t
         then (g @ [Some (align_up e 8)], align_up e 8 + size_of t)
         else (g @ [None], e))"
  by (induction off xs rule: gathers.induct) (auto simp: Let_def split: prod.splits)

lemma length_gathers: "length (fst (gathers off xs)) = length xs"
  by (induction off xs rule: gathers.induct) (auto simp: Let_def split: prod.splits)

lemma res_fold_append:
  "res_fold f (xs @ ys) s = res_bind (res_fold f xs s) (res_fold f ys)"
  by (induction xs arbitrary: s) (auto simp: res_bind_def split: sum.splits)

lemma res_bind_fold_Nil [simp]: "res_bind m (res_fold f []) = m"
  by (cases m) simp_all

lemma stack_ptrs_eq:
  assumes "seq_vals s (pre @ vss)" and "length pre = k" and "length ts = length vss"
  shows "stack_ptrs s k ts = Inr (concat (map2 value_ptrs ts vss))"
proof -
  define step where "step = (\<lambda>i out. res_bind (stepsForValue s (i + k))
       (\<lambda>sts. if length sts = 1 \<and> step_kind (hd sts) = StepStack
              then Inr (ptrOffsets (ts ! i) (stkOff (hd sts)) out) else Inr out))"
  have "res_fold step [0..<n] [] = Inr (concat (map2 value_ptrs (take n ts) (take n vss)))"
    if "n \<le> length ts" for n
    using that
  proof (induction n)
    case (Suc n)
    then have n: "n < length ts" "n < length vss" using assms(3) by auto
    have "stepsForValue s (n + k) = Inr ((pre @ vss) ! (n + k))"
      using assms n by (intro stepsForValue_vals) auto
    then have "stepsForValue s (n + k) = Inr (vss ! n)"
      using assms(2) by (simp add: nth_append)
    with Suc n show ?case
      by (auto simp: res_fold_append step_def value_ptrs_def is_stack_def take_Suc_conv_app_nth)
  qed simp
  from this [of "length ts"] assms(3) show ?thesis
    by (simp add: stack_ptrs_def step_def)
qed

lemma gather_layout_eq:
  assumes "seq_vals s (v # vss)" and "length ts = length vss"
  shows "gather_layout s ts = Inr (gathers 0 (zip ts vss))"
proof -
  define step where "step = (\<lambda>i (ag, off). res_bind (stepsForValue s (i + 1))
       (\<lambda>sts. if 1 < length sts \<and> 0 < size_of (ts ! i)
              then (let o' = align_up off ptrSize in Inr (ag[i := Some o'], o' + size_of (ts ! i)))
              else Inr (ag[i := None], off)))"
  have "res_fold step [0..<n] (replicate (length ts) (Some 0), 0) =
        (let (g, e) = gathers 0 (take n (zip ts vss))
         in Inr (g @ replicate (length ts - n) (Some 0), e))"
    if "n \<le> length ts" for n
    using that
  proof (induction n)
    case (Suc n)
    then have n: "n < length ts" "n < length vss" using assms(2) by auto
    have "stepsForValue s (Suc n) = Inr ((v # vss) ! Suc n)"
      using assms n by (intro stepsForValue_vals) auto
    then have st: "stepsForValue s (Suc n) = Inr (vss ! n)" by simp
    obtain g e where ge: "gathers 0 (take n (zip ts vss)) = (g, e)" by fastforce
    have len: "length g = n"
      using length_gathers [of 0 "take n (zip ts vss)"] ge n by simp
    have rep: "replicate (length ts - n) (Some 0) = Some 0 # replicate (length ts - Suc n) (Some (0::nat))"
      using n by (metis Suc_diff_Suc replicate_Suc)
    have "take (Suc n) (zip ts vss) = take n (zip ts vss) @ [(ts ! n, vss ! n)]"
      using n by (simp add: take_Suc_conv_app_nth)
    then have "gathers 0 (take (Suc n) (zip ts vss)) =
        (if 1 < length (vss ! n) \<and> 0 < size_of (ts ! n)
         then (g @ [Some (align_up e 8)], align_up e 8 + size_of (ts ! n)) else (g @ [None], e))"
      by (simp add: gathers_snoc ge)
    moreover have "res_fold step [0..<Suc n] (replicate (length ts) (Some 0), 0) =
        step n (g @ replicate (length ts - n) (Some 0), e)"
      using Suc n by (simp add: res_fold_append ge)
    ultimately show ?case
      by (simp add: step_def st rep len Let_def ptrSize_def list_update_append)
  qed simp
  from this [of "length ts"] assms(2) show ?thesis
    by (simp add: gather_layout_def step_def split: prod.splits)
qed

definition layout_rel ::
  "arch \<Rightarrow> gotype list \<Rightarrow> gotype list \<Rightarrow> abiLayout \<Rightarrow> step list list \<Rightarrow> step list list \<Rightarrow> bool" where
  "layout_rel A ins outs l avs rvs \<longleftrightarrow>
     seq_inv A 0 (l_call l) (rcvr_steps A # avs) \<and> list_all2 value_steps ins avs \<and>
     seq_inv A (retOffset l) (l_ret l) rvs \<and> list_all2 value_steps outs rvs \<and>
     stackCallArgsSize l = seq_stackBytes (l_call l) \<and>
     retOffset l = align_up (stackCallArgsSize l) 8 \<and>
     stackBytes l = align_up (seq_stackBytes (l_ret l)) 8 \<and>
     retOffset l \<le> seq_stackBytes (l_ret l) \<and>
     stackPtrOffs l = concat (map2 value_ptrs ins avs) \<and>
     retStackPtrOffs l = concat (map2 value_ptrs outs rvs) \<and>
     (argGather l, gatherBytes l) = gathers 0 (zip ins avs) \<and>
     ptrMask l = pointer_mask (seq_steps (l_call l))"

lemma newABILayout_rel:
  "\<exists>l avs rvs. newABILayout A (TFunc ins outs v) = Inr l \<and> layout_rel A ins outs l avs rvs"
proof -
  obtain c0 where c0: "addRcvr A empty_seq = Inr c0" "seq_inv A 0 c0 [rcvr_steps A]"
    using addRcvr_inv by blast
  define c where "c = fold (addArg_spec A) ins c0"
  obtain avs where avs: "list_all2 value_steps ins avs" "seq_inv A 0 c ([rcvr_steps A] @ avs)"
    using seq_inv_addArgs [OF c0(2), of ins] unfolding c_def by blast
  have c: "addArgs A ins c0 = Inr c"
    using c0(2) by (simp add: addArgs_def c_def res_fold_addArg seq_inv_def)
  define ro where "ro = align_up (seq_stackBytes c) 8"
  define r0 where "r0 = empty_seq\<lparr>seq_stackBytes := ro\<rparr>"
  have r0: "seq_inv A ro r0 []"
    by (simp add: seq_inv_def seq_vals_def regs_ok_def regs_in_order_def stack_ok_def r0_def
        empty_seq_def)
  define r where "r = fold (addArg_spec A) outs r0"
  obtain rvs where rvs: "list_all2 value_steps outs rvs" "seq_inv A ro r ([] @ rvs)"
    and le: "seq_stackBytes r0 \<le> seq_stackBytes r"
    using seq_inv_addArgs [OF r0, of outs] unfolding r_def by blast
  have r: "addArgs A outs r0 = Inr r"
    using r0 by (simp add: addArgs_def r_def res_fold_addArg seq_inv_def)
  have "stack_ptrs c 1 ins = Inr (concat (map2 value_ptrs ins avs))"
    using avs by (intro stack_ptrs_eq [of _ "[rcvr_steps A]"]) (auto simp: seq_inv_def dest: list_all2_lengthD)
  moreover have "stack_ptrs r 0 outs = Inr (concat (map2 value_ptrs outs rvs))"
    using rvs by (intro stack_ptrs_eq [of _ "[]"]) (auto simp: seq_inv_def dest: list_all2_lengthD)
  moreover have "gather_layout c ins = Inr (gathers 0 (zip ins avs))"
    using avs by (intro gather_layout_eq) (auto simp: seq_inv_def dest: list_all2_lengthD)
  ultimately have "newABILayout A (TFunc ins outs v) = Inr
      \<lparr>l_call = c, l_ret = r, stackCallArgsSize = seq_stackBytes c, retOffset = ro,
       stackBytes = align_up (seq_stackBytes r) 8,
       argGather = fst (gathers 0 (zip ins avs)), gatherBytes = snd (gathers 0 (zip ins avs)),
       stackPtrOffs = concat (map2 value_ptrs ins avs),
       retStackPtrOffs = concat (map2 value_ptrs outs rvs),
       ptrMask = pointer_mask (seq_steps c)\<rparr>"
    using c0(1) c r
    by (simp add: newABILayout_def Let_def ro_def r0_def ptrSize_def split: prod.split)
  then show ?thesis
    using avs rvs le by (auto simp: layout_rel_def ro_def r0_def)
qed

lemma layout_relE:
  assumes "newABILayout A (TFunc ins outs v) = Inr l"
  obtains avs rvs where "layout_rel A ins outs l avs rvs"
  using newABILayout_rel [of A ins outs v] assms by auto

end
