(* ===== verification/Frame.thy ===== *)
theory Frame
  imports LayoutCorrect
begin

text \<open>
  materialize.go: the per-call state (\<open>callState\<close>, \<open>regBuf\<close>), reading arguments out of registers
  and stack (\<open>materializeArgs\<close>, \<open>materializeIface\<close>) and writing results back (\<open>storeResults\<close>,
  \<open>scatterValue\<close>, \<open>scatterIface\<close>, \<open>writeScalar\<close>, \<open>writeWord\<close>), at the level of bytes.
\<close>

section \<open>Memory\<close>

text \<open>
  Three areas of bytes: the integer and the float register file of a \<open>regBuf\<close>, each register eight
  little endian bytes, and the copy of the caller's stack argument area.
\<close>

type_synonym byte = "8 word"

datatype area = AInts | AFloats | AStack

type_synonym mem = "area \<Rightarrow> nat \<Rightarrow> byte"

definition rd :: "mem \<Rightarrow> area \<times> nat \<Rightarrow> nat \<Rightarrow> byte list" where
  "rd m ap n = map (\<lambda>k. m (fst ap) (snd ap + k)) [0..<n]"

text \<open>\<open>memcpy\<close>, and every store through a pointer.\<close>

definition wr :: "area \<times> nat \<Rightarrow> byte list \<Rightarrow> mem \<Rightarrow> mem" where
  "wr ap bs m = m(fst ap := (\<lambda>x. if snd ap \<le> x \<and> x < snd ap + length bs then bs ! (x - snd ap)
                                 else m (fst ap) x))"

definition word_of :: "byte list \<Rightarrow> 64 word" where
  "word_of bs = foldr (\<lambda>b w. push_bit 8 w OR ucast b) bs 0"

definition le_bytes :: "nat \<Rightarrow> 64 word \<Rightarrow> byte list" where
  "le_bytes n x = map (\<lambda>k. ucast (drop_bit (8 * k) x)) [0..<n]"

definition stepAddr :: "step \<Rightarrow> area \<times> nat" where
  "stepAddr st =
     (case step_kind st of
        StepStack \<Rightarrow> (AStack, stkOff st)
      | StepIntReg \<Rightarrow> (AInts, 8 * ireg st)
      | StepPointer \<Rightarrow> (AInts, 8 * ireg st)
      | StepFloatReg \<Rightarrow> (AFloats, 8 * freg st))"

section \<open>The Go runtime\<close>

text \<open>
  What the code relies on of the runtime and of \<open>reflect\<close>: whether an interface type has no methods,
  the second word behind a pointer (the \<open>Type\<close> field when it points at an itab, the \<open>PtrBytes\<close> field
  when it points at a type descriptor), whether an address is that of a type descriptor, the itab of
  an interface and a concrete type, a type's descriptor, the data word of a boxed value, the code
  pointer behind a func value, assignability, and the conversions between float32 and float64.
\<close>

record goruntime =
  rt_empty :: "string \<Rightarrow> bool"
  rt_word1 :: "64 word \<Rightarrow> 64 word"
  rt_is_type :: "64 word \<Rightarrow> bool"
  rt_itab :: "string \<Rightarrow> 64 word \<Rightarrow> 64 word"
  rt_type :: "gotype \<Rightarrow> 64 word"
  rt_data :: "gotype \<Rightarrow> byte list \<Rightarrow> 64 word"
  rt_code :: "64 word \<Rightarrow> 64 word"
  rt_assignable :: "gotype \<Rightarrow> gotype \<Rightarrow> bool"
  rt_widen :: "byte list \<Rightarrow> byte list"
  rt_narrow :: "byte list \<Rightarrow> byte list"

text \<open>
  The first word of an interface value of type \<open>n\<close> with dynamic type \<open>ty\<close> is the type itself when
  \<open>n\<close> has no methods and an itab otherwise.
\<close>

definition iface_word :: "goruntime \<Rightarrow> string \<Rightarrow> 64 word \<Rightarrow> 64 word" where
  "iface_word R n ty = (if rt_empty R n then ty else rt_itab R n ty)"

definition iface_dyn :: "goruntime \<Rightarrow> string \<Rightarrow> 64 word \<Rightarrow> 64 word" where
  "iface_dyn R n w = (if rt_empty R n then w else rt_word1 R w)"

section \<open>Values\<close>

text \<open>
  A \<open>reflect.Value\<close> is its type and its memory: its own bytes, or, for an argument described in
  place, the bytes of a register or stack slot of the call, in the live buffer or the snapshot.
\<close>

datatype buf = Live | Saved

datatype vmem = Own "byte list" | At buf "area \<times> nat"

record rval =
  rv_type :: gotype
  rv_mem :: vmem

record callState =
  live :: mem
  ptrs_mirror :: "nat \<Rightarrow> 64 word"
  stackPtrs_mirror :: "nat \<Rightarrow> 64 word"
  saved :: mem
  hasSnap :: bool
  direct :: bool
  args :: "rval list option"
  nexti :: nat

text \<open>The snapshot holds registers only; the stack copy is the same for both.\<close>

definition buf_mem :: "callState \<Rightarrow> buf \<Rightarrow> mem" where
  "buf_mem s b = (case b of Live \<Rightarrow> live s | Saved \<Rightarrow> (saved s)(AStack := live s AStack))"

definition val_bytes :: "callState \<Rightarrow> rval \<Rightarrow> byte list" where
  "val_bytes s v =
     (case rv_mem v of Own bs \<Rightarrow> bs | At b ap \<Rightarrow> rd (buf_mem s b) ap (size_of (rv_type v)))"

definition zero_val :: "gotype \<Rightarrow> rval" where
  "zero_val t = \<lparr>rv_type = t, rv_mem = Own (replicate (size_of t) 0)\<rparr>"

section \<open>Reading arguments\<close>

definition argRegs :: "callState \<Rightarrow> buf" where
  "argRegs s = (if hasSnap s then Saved else Live)"

text \<open>
  \<open>materializeIface\<close> takes the first word for an itab, whatever the interface, and the word behind it for
  the type. \<open>reflect.ValueOf\<close> of an \<open>any\<close> whose type word is nil is the zero \<open>Value\<close>, which \<open>Set\<close>
  refuses; with a type word that is no descriptor it reads the kind through a pointer that is none.
\<close>

definition materializeIface :: "goruntime \<Rightarrow> string \<Rightarrow> step list \<Rightarrow> mem \<Rightarrow> rval res" where
  "materializeIface R n steps m =
     (let a0 = stepAddr (steps ! 0); tab = word_of (rd m a0 8) in
      if tab = 0 then Inr (zero_val (TInterface n))
      else (let d = (if length steps = 1 then rd m (fst a0, snd a0 + ptrSize) 8
                     else rd m (stepAddr (steps ! 1)) 8);
                ty = rt_word1 R tab
            in if ty = 0 then Inl ''reflect: call of reflect.Value.Set on zero Value''
               else if \<not> rt_is_type R ty
                 then Inl ''runtime error: invalid memory address or nil pointer dereference''
               else Inr \<lparr>rv_type = TInterface n, rv_mem = Own (le_bytes 8 (iface_word R n ty) @ d)\<rparr>))"

text \<open>
  The gather buffer: \<open>put_at\<close> copies bytes into a list at an offset, as \<open>memcpy\<close> does into the
  argument's part of the buffer, which is zero when it is allocated.
\<close>

definition put_at :: "nat \<Rightarrow> byte list \<Rightarrow> byte list \<Rightarrow> byte list" where
  "put_at off bs xs = take off xs @ bs @ drop (off + length bs) xs"

definition gather :: "mem \<Rightarrow> step list \<Rightarrow> nat \<Rightarrow> byte list" where
  "gather m steps sz =
     fold (\<lambda>st xs. put_at (step_offset st) (rd m (stepAddr st) (step_size st)) xs) steps (replicate sz 0)"

definition materializeArg :: "goruntime \<Rightarrow> buf \<Rightarrow> mem \<Rightarrow> gotype \<Rightarrow> step list \<Rightarrow> rval res" where
  "materializeArg R b m t steps =
     (if size_of t = 0 then Inr (zero_val t)
      else case t of
        TInterface n \<Rightarrow> materializeIface R n steps m
      | _ \<Rightarrow>
          if length steps = 1 then Inr \<lparr>rv_type = t, rv_mem = At b (stepAddr (steps ! 0))\<rparr>
          else Inr \<lparr>rv_type = t, rv_mem = Own (gather m steps (size_of t))\<rparr>)"

definition materializeArgs :: "goruntime \<Rightarrow> abiLayout \<Rightarrow> gotype list \<Rightarrow> callState \<Rightarrow> rval list res" where
  "materializeArgs R l ins s =
     res_fold (\<lambda>i out. res_bind (stepsForValue (l_call l) (i + 1))
        (\<lambda>steps. res_bind (materializeArg R (argRegs s) (buf_mem s (argRegs s)) (ins ! i) steps)
           (\<lambda>v. Inr (out @ [v]))))
       [0..<length ins] []"

definition Args :: "goruntime \<Rightarrow> abiLayout \<Rightarrow> gotype list \<Rightarrow> callState \<Rightarrow> (rval list \<times> callState) res" where
  "Args R l ins s =
     (case args s of
        Some vs \<Rightarrow> Inr (vs, s)
      | None \<Rightarrow> res_bind (materializeArgs R l ins s) (\<lambda>vs. Inr (vs, s\<lparr>args := Some vs\<rparr>)))"

text \<open>The slice's bounds check panics for an index out of range.\<close>

definition Arg ::
  "goruntime \<Rightarrow> abiLayout \<Rightarrow> gotype list \<Rightarrow> nat \<Rightarrow> callState \<Rightarrow> (rval \<times> callState) res" where
  "Arg R l ins i s =
     res_bind (Args R l ins s) (\<lambda>(vs, s'). if i < length vs then Inr (vs ! i, s')
                                          else Inl ''index out of range'')"

definition SetArg ::
  "goruntime \<Rightarrow> abiLayout \<Rightarrow> gotype list \<Rightarrow> nat \<Rightarrow> rval \<Rightarrow> callState \<Rightarrow> callState res" where
  "SetArg R l ins i v s =
     res_bind (Args R l ins s) (\<lambda>(vs, s'). if i < length vs then Inr (s'\<lparr>args := Some (vs[i := v])\<rparr>)
                                          else Inl ''index out of range'')"

section \<open>Writing results\<close>

definition writeWord :: "area \<times> nat \<Rightarrow> 64 word \<Rightarrow> nat \<Rightarrow> mem \<Rightarrow> mem res" where
  "writeWord dst x sz m =
     (if sz \<in> {1, 2, 4, 8} then Inr (wr dst (le_bytes sz x) m)
      else Inl ''weave: unsupported word size'')"

text \<open>\<open>v.Int()\<close> extends the sign of the value's own bytes.\<close>

definition int_word :: "byte list \<Rightarrow> 64 word" where
  "int_word bs = signed_take_bit (8 * length bs - 1) (word_of bs)"

text \<open>
  \<open>scalar_word\<close> is the switch of \<open>writeScalar\<close>. \<open>reflect.Value.Pointer\<close> panics for the unsigned kinds,
  and returns the code pointer for a func.
\<close>

fun scalar_word :: "goruntime \<Rightarrow> gotype \<Rightarrow> byte list \<Rightarrow> 64 word res" where
  "scalar_word R TBool bs = Inr (if bs \<noteq> [0] then 1 else 0)"
| "scalar_word R TInt bs = Inr (int_word bs)"
| "scalar_word R TInt8 bs = Inr (int_word bs)"
| "scalar_word R TInt16 bs = Inr (int_word bs)"
| "scalar_word R TInt32 bs = Inr (int_word bs)"
| "scalar_word R TInt64 bs = Inr (int_word bs)"
| "scalar_word R (TPointer t) bs = Inr (word_of bs)"
| "scalar_word R TUnsafePointer bs = Inr (word_of bs)"
| "scalar_word R (TChan t) bs = Inr (word_of bs)"
| "scalar_word R (TMap k v) bs = Inr (word_of bs)"
| "scalar_word R (TFunc i r v) bs =
     Inr (if word_of bs = 0 then 0 else rt_code R (word_of bs))"
| "scalar_word R TUint bs = Inl ''reflect: call of reflect.Value.Pointer on uint Value''"
| "scalar_word R TUint8 bs = Inl ''reflect: call of reflect.Value.Pointer on uint8 Value''"
| "scalar_word R TUint16 bs = Inl ''reflect: call of reflect.Value.Pointer on uint16 Value''"
| "scalar_word R TUint32 bs = Inl ''reflect: call of reflect.Value.Pointer on uint32 Value''"
| "scalar_word R TUint64 bs = Inl ''reflect: call of reflect.Value.Pointer on uint64 Value''"
| "scalar_word R TUintptr bs = Inl ''reflect: call of reflect.Value.Pointer on uintptr Value''"
| "scalar_word R t bs = Inl ''weave: cannot scatter as a scalar''"

text \<open>\<open>v.Float()\<close> stored with the size of the step; it panics for a kind that is not a float.\<close>

fun float_bytes :: "goruntime \<Rightarrow> gotype \<Rightarrow> byte list \<Rightarrow> nat \<Rightarrow> byte list res" where
  "float_bytes R TFloat64 bs sz = Inr (if sz = 8 then bs else rt_narrow R bs)"
| "float_bytes R TFloat32 bs sz = Inr (if sz = 8 then rt_widen R bs else rt_narrow R (rt_widen R bs))"
| "float_bytes R t bs sz = Inl ''reflect: call of reflect.Value.Float''"

definition set_live :: "(mem \<Rightarrow> mem) \<Rightarrow> callState \<Rightarrow> callState" where
  "set_live f s = s\<lparr>live := f (live s)\<rparr>"

definition mirror_ptr :: "nat \<Rightarrow> 64 word \<Rightarrow> callState \<Rightarrow> callState" where
  "mirror_ptr i x s = s\<lparr>ptrs_mirror := (ptrs_mirror s)(i := x)\<rparr>"

definition mirror_stack :: "nat \<Rightarrow> 64 word \<Rightarrow> callState \<Rightarrow> callState" where
  "mirror_stack i x s = s\<lparr>stackPtrs_mirror := (stackPtrs_mirror s)(i := x)\<rparr>"

definition mirrorStepPtr :: "step \<Rightarrow> callState \<Rightarrow> callState" where
  "mirrorStepPtr st s =
     (let p = word_of (rd (live s) (stepAddr st) 8) in
      case step_kind st of
        StepPointer \<Rightarrow> mirror_ptr (ireg st) p s
      | StepStack \<Rightarrow> mirror_stack (stkOff st div ptrSize) p s
      | _ \<Rightarrow> s)"

definition mirrorStackPtrs :: "nat \<Rightarrow> gotype \<Rightarrow> callState \<Rightarrow> callState" where
  "mirrorStackPtrs off t s =
     fold (\<lambda>o' s. mirror_stack ((off + o') div ptrSize) (word_of (rd (live s) (AStack, off + o') 8)) s)
       (ptrOffsets t 0 []) s"

text \<open>
  \<open>slot.Set(v)\<close>: the two words of \<open>v\<close> boxed into the interface type \<open>n\<close>. A nil interface stays nil.
\<close>

definition box_words :: "goruntime \<Rightarrow> string \<Rightarrow> gotype \<Rightarrow> byte list \<Rightarrow> 64 word \<times> 64 word" where
  "box_words R n t bs =
     (case t of
        TInterface n' \<Rightarrow>
          (let w = word_of (take 8 bs) in
           if w = 0 then (0, 0) else (iface_word R n (iface_dyn R n' w), word_of (drop 8 bs)))
      | _ \<Rightarrow> (iface_word R n (rt_type R t), rt_data R t bs))"

definition scatterIface ::
  "goruntime \<Rightarrow> string \<Rightarrow> gotype \<Rightarrow> byte list \<Rightarrow> step list \<Rightarrow> callState \<Rightarrow> callState" where
  "scatterIface R n t bs steps s =
     (let (w, d) = box_words R n t bs; a0 = stepAddr (steps ! 0) in
      if length steps = 1
      then mirror_stack (stkOff (steps ! 0) div ptrSize + 1) d
             (set_live (wr (fst a0, snd a0 + ptrSize) (le_bytes 8 d))
               (set_live (wr a0 (le_bytes 8 w)) s))
      else mirror_ptr (ireg (steps ! 1)) d
             (set_live (wr (stepAddr (steps ! 1)) (le_bytes 8 d))
               (set_live (wr a0 (le_bytes 8 w)) s)))"

text \<open>One step of the contiguous copy at the end of \<open>scatterValue\<close>.\<close>

definition copy_step :: "byte list \<Rightarrow> step \<Rightarrow> callState \<Rightarrow> callState" where
  "copy_step bs st s =
     (let s' = set_live (wr (stepAddr st) (take (step_size st) (drop (step_offset st) bs))) s in
      if step_kind st = StepPointer
      then mirror_ptr (ireg st) (word_of (take 8 (drop (step_offset st) bs))) s' else s')"

definition write_at :: "step \<Rightarrow> 64 word \<Rightarrow> callState \<Rightarrow> callState res" where
  "write_at st x s =
     res_bind (writeWord (stepAddr st) x (step_size st) (live s)) (\<lambda>m. Inr (s\<lparr>live := m\<rparr>))"

text \<open>A string's two words, a slice's three: word \<open>k\<close> of the value's bytes goes to step \<open>k\<close>.\<close>

definition write_words :: "byte list \<Rightarrow> step list \<Rightarrow> callState \<Rightarrow> callState res" where
  "write_words bs steps s =
     res_fold (\<lambda>k s. write_at (steps ! k) (word_of (take 8 (drop (8 * k) bs))) s)
       [0..<length steps] s"

definition scatter_one ::
  "goruntime \<Rightarrow> gotype \<Rightarrow> gotype \<Rightarrow> byte list \<Rightarrow> step \<Rightarrow> callState \<Rightarrow> callState res" where
  "scatter_one R vt t bs st s =
     (case step_kind st of
        StepFloatReg \<Rightarrow>
          res_bind (float_bytes R vt bs (step_size st))
            (\<lambda>fb. Inr (set_live (wr (stepAddr st) fb) s))
      | StepStack \<Rightarrow>
          Inr (mirrorStackPtrs (stkOff st) t (set_live (wr (stepAddr st) (take (step_size st) bs)) s))
      | _ \<Rightarrow>
          res_bind (scalar_word R vt bs) (\<lambda>x. res_bind (write_at st x s)
            (\<lambda>s'. Inr (if step_kind st = StepPointer
                       then mirror_ptr (ireg st) (word_of (rd (live s') (stepAddr st) 8)) s' else s'))))"

fun is_words_kind :: "gotype \<Rightarrow> bool" where
  "is_words_kind TString = True"
| "is_words_kind (TSlice t) = True"
| "is_words_kind t = False"

definition scatterValue ::
  "goruntime \<Rightarrow> rval \<Rightarrow> gotype \<Rightarrow> step list \<Rightarrow> callState \<Rightarrow> callState res" where
  "scatterValue R v t steps s =
     (let bs = val_bytes s v; vt = rv_type v in
      case t of
        TInterface n \<Rightarrow> Inr (scatterIface R n vt bs steps s)
      | _ \<Rightarrow>
          if length steps = 1 then scatter_one R vt t bs (steps ! 0) s
          else if 2 \<le> length steps \<and> step_kind (steps ! 0) \<noteq> StepStack \<and>
                  is_words_kind t
            then res_bind (write_words bs steps s) (\<lambda>s'. Inr (mirrorStepPtr (steps ! 0) s'))
          else if 2 \<le> length steps \<and> step_kind (steps ! 0) \<noteq> StepStack \<and>
                  (t = TComplex64 \<or> t = TComplex128)
            then (let (re, im) = (if t = TComplex64 then (rt_widen R (take 4 bs), rt_widen R (drop 4 bs))
                                  else (take 8 bs, drop 8 bs))
                  in Inr (set_live (wr (stepAddr (steps ! 1)) im)
                           (set_live (wr (stepAddr (steps ! 0)) re) s)))
          else Inr (fold (copy_step bs) steps s))"

text \<open>
  \<open>storeResults\<close>. \<open>rets\<close> is \<open>None\<close> for Go's nil slice; an element that is the zero \<open>reflect.Value\<close> is
  \<open>None\<close>. \<open>zeros\<close> is the method's list of zero values.
\<close>

definition pick_result ::
  "goruntime \<Rightarrow> gotype list \<Rightarrow> rval option list \<Rightarrow> nat \<Rightarrow> rval" where
  "pick_result R outs rets i =
     (let t = outs ! i in
      if i < length rets
      then (case rets ! i of
              Some v \<Rightarrow> if rt_assignable R (rv_type v) t then v else zero_val t
            | None \<Rightarrow> zero_val t)
      else zero_val t)"

definition storeResults ::
  "goruntime \<Rightarrow> abiLayout \<Rightarrow> gotype list \<Rightarrow> rval option list option \<Rightarrow> callState \<Rightarrow> callState res" where
  "storeResults R l outs rets s =
     (if direct s \<and> rets = None then Inr s
      else res_fold (\<lambda>i s. res_bind (stepsForValue (l_ret l) i)
             (\<lambda>steps. scatterValue R (pick_result R outs (case rets of None \<Rightarrow> [] | Some vs \<Rightarrow> vs) i)
                        (outs ! i) steps s))
           [0..<length outs] s)"

end
