(* ===== verification/FrameCorrect.thy ===== *)
theory FrameCorrect
  imports Frame
begin

text \<open>
  The memory of a call as an instance of the interface \<open>byte_store\<close>, the round trips between words
  and bytes, and what scattering a value leaves in the registers and slots assigned to it.
\<close>

section \<open>Stores of bytes\<close>

locale byte_store =
  fixes get :: "'m \<Rightarrow> 'a \<Rightarrow> nat \<Rightarrow> 'b list" and put :: "'a \<Rightarrow> 'b list \<Rightarrow> 'm \<Rightarrow> 'm"
    and apart :: "'a \<times> nat \<Rightarrow> 'a \<times> nat \<Rightarrow> bool"
  assumes get_put: "get (put p bs m) p (length bs) = bs"
    and get_put_apart: "apart (p, length bs) (q, n) \<Longrightarrow> get (put p bs m) q n = get m q n"
begin

definition puts :: "('a \<times> 'b list) list \<Rightarrow> 'm \<Rightarrow> 'm" where
  "puts cs m = fold (\<lambda>(p, bs). put p bs) cs m"

definition chunk_apart :: "'a \<times> 'b list \<Rightarrow> 'a \<times> 'b list \<Rightarrow> bool" where
  "chunk_apart c d \<longleftrightarrow> apart (fst c, length (snd c)) (fst d, length (snd d))"

lemma puts_simps [simp]: "puts [] m = m" "puts ((p, bs) # cs) m = puts cs (put p bs m)"
  by (simp_all add: puts_def)

lemma puts_append: "puts (cs @ ds) m = puts ds (puts cs m)"
  by (simp add: puts_def)

lemma get_puts_apart:
  "(\<And>p bs. (p, bs) \<in> set cs \<Longrightarrow> apart (p, length bs) (q, n)) \<Longrightarrow> get (puts cs m) q n = get m q n"
proof (induction cs arbitrary: m)
  case (Cons c cs)
  obtain p bs where c: "c = (p, bs)" by (cases c)
  have "get (puts cs (put p bs m)) q n = get (put p bs m) q n"
    by (rule Cons.IH) (auto intro: Cons.prems)
  also have "\<dots> = get m q n" by (rule get_put_apart) (auto intro: Cons.prems simp: c)
  finally show ?case by (simp add: c)
qed simp

lemma get_puts:
  assumes "(p, bs) \<in> set cs"
    and "sorted_wrt (\<lambda>c d. chunk_apart c d \<and> chunk_apart d c) cs"
  shows "get (puts cs m) p (length bs) = bs"
  using assms
proof (induction cs arbitrary: m)
  case (Cons c cs)
  show ?case
  proof (cases "c = (p, bs)")
    case True
    then have "get (puts cs (put p bs m)) p (length bs) = get (put p bs m) p (length bs)"
      using Cons.prems(2) by (intro get_puts_apart) (auto simp: chunk_apart_def)
    with True show ?thesis by (simp add: get_put)
  next
    case False
    with Cons show ?thesis by (cases c) auto
  qed
qed simp

end

definition apart :: "(area \<times> nat) \<times> nat \<Rightarrow> (area \<times> nat) \<times> nat \<Rightarrow> bool" where
  "apart x y \<longleftrightarrow> fst (fst x) \<noteq> fst (fst y) \<or> snd (fst x) + snd x \<le> snd (fst y) \<or>
                snd (fst y) + snd y \<le> snd (fst x)"

lemma length_rd [simp]: "length (rd m ap n) = n"
  by (simp add: rd_def)

lemma rd_wr: "rd (wr ap bs m) ap (length bs) = bs"
  by (auto simp: rd_def wr_def intro: nth_equalityI)

lemma rd_wr_apart: "apart (p, length bs) (q, n) \<Longrightarrow> rd (wr p bs m) q n = rd m q n"
  by (auto simp: rd_def wr_def apart_def)

interpretation frame_mem: byte_store rd wr apart
  by unfold_locales (simp_all add: rd_wr rd_wr_apart)

lemma apart_sym: "apart x y \<Longrightarrow> apart y x"
  by (auto simp: apart_def)

lemma rd_wr_other_area: "fst p \<noteq> a \<Longrightarrow> wr p bs m a = m a"
  by (simp add: wr_def)

section \<open>Words and bytes\<close>

lemma length_le_bytes [simp]: "length (le_bytes n x) = n"
  by (simp add: le_bytes_def)

lemma bit_word_of:
  "bit (word_of bs) i \<longleftrightarrow> i < 64 \<and> i < 8 * length bs \<and> bit (bs ! (i div 8)) (i mod 8)"
proof (induction bs arbitrary: i)
  case Nil
  show ?case by (simp add: word_of_def)
next
  case (Cons b bs)
  have w: "word_of (b # bs) = push_bit 8 (word_of bs) OR ucast b" by (simp add: word_of_def)
  show ?case
  proof (cases "i < 8")
    case True
    then show ?thesis
      by (auto simp: w bit_simps)
  next
    case False
    then have i: "i div 8 = Suc ((i - 8) div 8)" "(i - 8) mod 8 = i mod 8"
      by (simp_all add: le_div_geq le_mod_geq)
    have "\<not> bit b i" using False by (auto dest: bit_imp_le_length)
    with False i show ?thesis
      by (auto simp: w bit_simps Cons.IH)
  qed
qed

lemma nth_le_bytes: "k < n \<Longrightarrow> le_bytes n x ! k = ucast (drop_bit (8 * k) x)"
  by (simp add: le_bytes_def)

lemma le_bytes_cong:
  assumes "\<And>i. i < 8 * n \<Longrightarrow> i < 64 \<Longrightarrow> bit x i = bit y i"
  shows "le_bytes n x = le_bytes n y"
proof (rule nth_equalityI)
  fix k assume "k < length (le_bytes n x)"
  then have k: "k < n" by simp
  show "le_bytes n x ! k = le_bytes n y ! k"
  proof (rule bit_word_eqI)
    fix j assume "j < LENGTH(8)"
    then have "8 * k + j < 8 * n" using k by simp
    with assms [of "8 * k + j"] show "bit (le_bytes n x ! k) j = bit (le_bytes n y ! k) j"
      using k bit_imp_le_length [of x "8 * k + j"] bit_imp_le_length [of y "8 * k + j"]
      by (auto simp: nth_le_bytes bit_simps)
  qed
qed simp

lemma le_bytes_word_of:
  assumes "length bs = n" "n \<le> 8"
  shows "le_bytes n (word_of bs) = bs"
proof (rule nth_equalityI)
  fix k assume "k < length (le_bytes n (word_of bs))"
  then have k: "k < n" by simp
  show "le_bytes n (word_of bs) ! k = bs ! k"
  proof (rule bit_word_eqI)
    fix j assume j: "j < LENGTH(8)"
    with k assms have "8 * k + j < 64" "(8 * k + j) div 8 = k" "(8 * k + j) mod 8 = j" by auto
    with j k assms show "bit (le_bytes n (word_of bs) ! k) j = bit (bs ! k) j"
      by (auto simp: nth_le_bytes bit_simps bit_word_of)
  qed
qed (use assms in simp)

lemma word_of_le_bytes: "word_of (le_bytes 8 x) = x"
proof (rule bit_word_eqI)
  fix i assume i: "i < LENGTH(64)"
  then have "i div 8 < 8" "8 * (i div 8) + i mod 8 = i" by auto
  with i show "bit (word_of (le_bytes 8 x)) i = bit x i"
    by (auto simp: bit_word_of nth_le_bytes bit_simps)
qed

lemma le_bytes_int_word:
  assumes "length bs = n" "0 < n" "n \<le> 8"
  shows "le_bytes n (int_word bs) = bs"
proof -
  have "le_bytes n (int_word bs) = le_bytes n (word_of bs)"
    using assms by (intro le_bytes_cong) (auto simp: int_word_def bit_simps)
  with assms show ?thesis by (simp add: le_bytes_word_of)
qed

section \<open>What a scattered value leaves\<close>

definition step_part :: "byte list \<Rightarrow> step \<Rightarrow> byte list" where
  "step_part bs st = take (step_size st) (drop (step_offset st) bs)"

definition chunks :: "byte list \<Rightarrow> step list \<Rightarrow> ((area \<times> nat) \<times> byte list) list" where
  "chunks bs steps = map (\<lambda>st. (stepAddr st, step_part bs st)) steps"

text \<open>The bytes the caller should see for a value of type \<open>vt\<close> returned as a \<open>t\<close>.\<close>

definition wire_image :: "goruntime \<Rightarrow> gotype \<Rightarrow> gotype \<Rightarrow> byte list \<Rightarrow> byte list" where
  "wire_image R t vt bs =
     (case t of
        TInterface n \<Rightarrow> le_bytes 8 (fst (box_words R n vt bs)) @ le_bytes 8 (snd (box_words R n vt bs))
      | _ \<Rightarrow> bs)"

text \<open>
  A specification, not code: the results \<open>scatterValue\<close> delivers unchanged. In one register these are a
  bool, a signed integer, a float, a pointer-like value or a nil func; on the stack anything; in
  several registers anything but a complex64. \<open>refused\<close> are the ones it panics on, in one register: the
  unsigned kinds, and structs and arrays of one word.
\<close>

fun plain_scalar :: "gotype \<Rightarrow> byte list \<Rightarrow> bool" where
  "plain_scalar TBool bs = (bs = [0] \<or> bs = [1])"
| "plain_scalar TInt bs = True"
| "plain_scalar TInt8 bs = True"
| "plain_scalar TInt16 bs = True"
| "plain_scalar TInt32 bs = True"
| "plain_scalar TInt64 bs = True"
| "plain_scalar (TPointer t) bs = True"
| "plain_scalar TUnsafePointer bs = True"
| "plain_scalar (TChan t) bs = True"
| "plain_scalar (TMap k v) bs = True"
| "plain_scalar (TFunc i r v) bs = (word_of bs = 0)"
| "plain_scalar TFloat64 bs = True"
| "plain_scalar t bs = False"

fun refused_kind :: "gotype \<Rightarrow> bool" where
  "refused_kind TUint = True"
| "refused_kind TUint8 = True"
| "refused_kind TUint16 = True"
| "refused_kind TUint32 = True"
| "refused_kind TUint64 = True"
| "refused_kind TUintptr = True"
| "refused_kind (TStruct ts) = True"
| "refused_kind (TArray n t) = True"
| "refused_kind t = False"

definition refused :: "gotype \<Rightarrow> step list \<Rightarrow> bool" where
  "refused t steps \<longleftrightarrow> refused_kind t \<and> length steps = 1 \<and> \<not> is_stack (steps ! 0)"

lemma refused_scatter:
  assumes "refused t steps" "rv_type v = t"
  shows "\<exists>e. scatterValue R v t steps s = Inl e"
proof -
  have "refused_kind t" "length steps = 1" "step_kind (steps ! 0) \<noteq> StepStack"
    using assms(1) by (simp_all add: refused_def is_stack_def)
  then show ?thesis
    using assms(2) by (cases t) (auto simp: scatterValue_def scatter_one_def Let_def split: stepKind.split)
qed

definition scatterable :: "goruntime \<Rightarrow> gotype \<Rightarrow> gotype \<Rightarrow> byte list \<Rightarrow> step list \<Rightarrow> bool" where
  "scatterable R t vt bs steps \<longleftrightarrow>
     (case t of
        TInterface n \<Rightarrow> True
      | _ \<Rightarrow> vt = t \<and> length bs = size_of t \<and>
          (length steps = 1 \<and> \<not> is_stack (steps ! 0) \<longrightarrow>
             plain_scalar t bs \<or> (t = TFloat32 \<and> rt_narrow R (rt_widen R bs) = bs)) \<and>
          t \<noteq> TComplex64)"

lemma set_live_live [simp]: "live (set_live f s) = f (live s)"
  by (simp add: set_live_def)

lemma mirror_live [simp]: "live (mirror_ptr i x s) = live s" "live (mirror_stack i x s) = live s"
  by (simp_all add: mirror_ptr_def mirror_stack_def)

lemma mirrorStackPtrs_live [simp]: "live (mirrorStackPtrs off t s) = live s"
proof -
  have "live (fold (\<lambda>o' s. mirror_stack ((off + o') div ptrSize) (word_of (rd (live s) (AStack, off + o') 8)) s)
      os s) = live s" for os
    by (induction os arbitrary: s) simp_all
  then show ?thesis by (simp add: mirrorStackPtrs_def)
qed

lemma mirrorStepPtr_live [simp]: "live (mirrorStepPtr st s) = live s"
  by (simp add: mirrorStepPtr_def Let_def split: stepKind.split)

lemma live_copy_steps: "live (fold (copy_step bs) steps s) = frame_mem.puts (chunks bs steps) (live s)"
  by (induction steps arbitrary: s) (simp_all add: copy_step_def chunks_def step_part_def Let_def)

lemma scalar_word_plain:
  assumes "plain_scalar t bs" "length bs = size_of t" "t \<noteq> TFloat64"
  shows "\<exists>x. scalar_word R t bs = Inr x \<and> le_bytes (size_of t) x = bs \<and> size_of t \<in> {1, 2, 4, 8}"
proof (cases t)
  case TBool
  with assms(1) have "bs = [0] \<or> bs = [1]" by simp
  moreover have "le_bytes 1 0 = [0]" "le_bytes 1 1 = [1]" by (simp_all add: le_bytes_def)
  ultimately show ?thesis using TBool by auto
next
  case (TFunc i r v)
  with assms(1,2) have w: "word_of bs = 0" and l: "length bs = 8" by simp_all
  from le_bytes_word_of [OF l] w have "le_bytes 8 0 = bs" by simp
  with TFunc w show ?thesis by simp
qed (use assms in \<open>auto simp: le_bytes_word_of le_bytes_int_word\<close>)

lemma wr_append: "wr (a, p) (xs @ ys) m = wr (a, p + length xs) ys (wr (a, p) xs m)"
  by (auto simp: wr_def fun_eq_iff nth_append)

lemma stack_chunk:
  assumes "is_stack st" "step_offset st = 0" "step_size st = length bs"
  shows "frame_mem.puts (chunks bs [st]) m = wr (AStack, stkOff st) bs m"
  using assms by (simp add: chunks_def step_part_def stepAddr_def is_stack_def)

lemma scatterIface_live:
  assumes steps: "value_steps (TInterface n) steps"
  shows "live (scatterIface R n vt bs steps s) =
         frame_mem.puts (chunks (wire_image R (TInterface n) vt bs) steps) (live s)"
proof -
  obtain w d where b: "box_words R n vt bs = (w, d)" by fastforce
  from steps consider (stk) st where "steps = [st]" "is_stack st" "step_offset st = 0" "step_size st = 16"
    | (regs) "map piece_of steps = [(0, 8, CInt), (8, 8, CPtr)]" "\<forall>st\<in>set steps. \<not> is_stack st"
    by (auto simp: value_steps_def)
  then show ?thesis
  proof cases
    case stk
    then show ?thesis
      by (simp add: stack_chunk scatterIface_def b wire_image_def wr_append ptrSize_def stepAddr_def
          is_stack_def)
  next
    case regs
    then obtain x y where "steps = [x, y]" "piece_of x = (0, 8, CInt)" "piece_of y = (8, 8, CPtr)"
      by (auto simp: map_eq_Cons_conv)
    then show ?thesis
      by (simp add: scatterIface_def b wire_image_def chunks_def step_part_def piece_of_def)
  qed
qed

lemma write_at_ok:
  "step_size st \<in> {1, 2, 4, 8} \<Longrightarrow>
   write_at st x s = Inr (set_live (wr (stepAddr st) (le_bytes (step_size st) x)) s)"
  by (auto simp: write_at_def writeWord_def set_live_def)

lemma write_words_live:
  assumes "map piece_of steps = map (\<lambda>k. (8 * k, 8, c k)) [0..<n]" "length bs = 8 * n"
  shows "\<exists>s'. write_words bs steps s = Inr s' \<and> live s' = frame_mem.puts (chunks bs steps) (live s)"
proof -
  have len: "length steps = n" using assms(1) by (metis length_map length_upt diff_zero)
  have st: "step_offset (steps ! k) = 8 * k \<and> step_size (steps ! k) = 8" if "k < n" for k
  proof -
    have "map piece_of steps ! k = (8 * k, 8, c k)" using assms(1) that by simp
    with that len show ?thesis by (simp add: piece_of_def)
  qed
  have "\<exists>s'. res_fold (\<lambda>k s. write_at (steps ! k) (word_of (take 8 (drop (8 * k) bs))) s) [0..<m] s = Inr s' \<and>
      live s' = frame_mem.puts (chunks bs (take m steps)) (live s)" if "m \<le> n" for m
    using that
  proof (induction m)
    case 0
    show ?case by (simp add: chunks_def)
  next
    case (Suc m)
    then obtain s' where s': "res_fold (\<lambda>k s. write_at (steps ! k) (word_of (take 8 (drop (8 * k) bs))) s) [0..<m] s = Inr s'"
      "live s' = frame_mem.puts (chunks bs (take m steps)) (live s)" by auto
    have "length (take 8 (drop (8 * m) bs)) = 8" using Suc.prems assms(2) by simp
    then have "le_bytes 8 (word_of (take 8 (drop (8 * m) bs))) = step_part bs (steps ! m)"
      using st [of m] Suc.prems by (simp add: le_bytes_word_of step_part_def)
    moreover have "take (Suc m) steps = take m steps @ [steps ! m]"
      using Suc.prems len by (simp add: take_Suc_conv_app_nth)
    ultimately show ?case
      using Suc.prems st [of m] s'
      by (simp add: res_fold_append write_at_ok chunks_def frame_mem.puts_append)
  qed
  from this [of n] len show ?thesis by (simp add: write_words_def)
qed

lemma class_of_float [simp]:
  "class_of k = CFloat \<longleftrightarrow> k = StepFloatReg" "CFloat = class_of k \<longleftrightarrow> k = StepFloatReg"
  by (cases k; simp)+

lemma class_of_int: "class_of k = CInt \<or> class_of k = CPtr \<longleftrightarrow> k \<noteq> StepFloatReg"
  by (cases k) simp_all

lemma flatten_plain:
  "plain_scalar t bs \<Longrightarrow> t \<noteq> TFloat64 \<Longrightarrow>
   flatten t 0 = Some [(0, size_of t, CInt)] \<or> flatten t 0 = Some [(0, size_of t, CPtr)]"
  by (cases t) simp_all

lemma scatter_one_live:
  assumes st: "value_steps t [st]" and ok: "scatterable R t t bs [st]" and t: "\<forall>n. t \<noteq> TInterface n"
    and sz: "size_of t \<noteq> 0"
  shows "\<exists>s'. scatter_one R t t bs st s = Inr s' \<and> live s' = frame_mem.puts (chunks bs [st]) (live s)"
proof (cases "is_stack st")
  case True
  with st sz have "step_offset st = 0" "step_size st = size_of t"
    by (auto simp: value_steps_def)
  moreover have "length bs = size_of t"
    using ok t by (cases t) (auto simp: scatterable_def)
  ultimately show ?thesis
    using True by (simp add: stack_chunk scatter_one_def is_stack_def stepAddr_def)
next
  case st_stack: False
  with st sz have fl: "flatten t 0 = Some [piece_of st]" by (auto simp: value_steps_def)
  have ok': "length bs = size_of t"
    "plain_scalar t bs \<or> (t = TFloat32 \<and> rt_narrow R (rt_widen R bs) = bs)"
    using ok t st_stack by (cases t; simp add: scatterable_def)+
  show ?thesis
  proof (cases "t = TFloat64 \<or> t = TFloat32")
    case True
    with fl have p: "step_kind st = StepFloatReg" "step_offset st = 0" "step_size st = size_of t"
      by (auto simp: piece_of_def)
    have "float_bytes R t bs (step_size st) = Inr bs"
      using True ok' p by auto
    with p ok' show ?thesis
      by (simp add: scatter_one_def chunks_def step_part_def)
  next
    case False
    with ok' obtain x where x: "scalar_word R t bs = Inr x" "le_bytes (size_of t) x = bs"
      "size_of t \<in> {1, 2, 4, 8}" using scalar_word_plain [of t bs R] by auto
    have "piece_of st = (0, size_of t, CInt) \<or> piece_of st = (0, size_of t, CPtr)"
      using fl ok' False flatten_plain [of t bs] by auto
    then have "step_offset st = 0" "step_size st = size_of t" "step_kind st \<noteq> StepFloatReg"
      using class_of_int [of "step_kind st"] by (auto simp: piece_of_def)
    moreover from this False st_stack have "step_kind st = StepIntReg \<or> step_kind st = StepPointer"
      by (cases "step_kind st") (auto simp: is_stack_def)
    ultimately show ?thesis
      using x ok'(1) by (auto simp: scatter_one_def write_at_ok chunks_def step_part_def)
  qed
qed

lemma scatterValue_live:
  assumes st: "value_steps t steps" and sz: "size_of t \<noteq> 0"
    and ok: "scatterable R t (rv_type v) (val_bytes s v) steps"
  shows "\<exists>s'. scatterValue R v t steps s = Inr s' \<and>
           live s' = frame_mem.puts (chunks (wire_image R t (rv_type v) (val_bytes s v)) steps) (live s)"
proof (cases "\<exists>n. t = TInterface n")
  case True
  then obtain n where t: "t = TInterface n" by auto
  from scatterIface_live st show ?thesis unfolding t by (simp add: scatterValue_def Let_def)
next
  case False
  let ?bs = "val_bytes s v"
  have im: "wire_image R t (rv_type v) ?bs = ?bs" using False by (cases t) (auto simp: wire_image_def)
  have vt: "rv_type v = t" and len: "length ?bs = size_of t" and nc: "t \<noteq> TComplex64"
    using ok False by (cases t; simp add: scatterable_def)+
  show ?thesis
  proof (cases "length steps = 1")
    case True
    then obtain st where s: "steps = [st]" by (cases steps) auto
    have "scatterValue R v t steps s = scatter_one R t t ?bs st s"
      using False s vt by (cases t) (simp_all add: scatterValue_def Let_def)
    with scatter_one_live [of t st R ?bs s] assms False s vt im show ?thesis by simp
  next
    case multi: False
    then have regs: "flatten t 0 = Some (map piece_of steps)" "\<forall>st\<in>set steps. \<not> is_stack st"
      using st sz by (auto simp: value_steps_def)
    have n0: "step_kind (steps ! 0) \<noteq> StepStack" if "2 \<le> length steps"
      using regs(2) that by (cases steps) (auto simp: is_stack_def)
    consider (words) "is_words_kind t" | (complex) "t = TComplex128" | (other) "\<not> is_words_kind t" "t \<noteq> TComplex128"
      by blast
    then show ?thesis
    proof cases
      case words
      then obtain n c where n: "map piece_of steps = map (\<lambda>k. (8 * k, 8, c k)) [0..<n]" "length ?bs = 8 * n" "2 \<le> n"
      proof (cases t)
        case TString
        with regs(1) len show ?thesis
          by (intro that [of "\<lambda>k. if k = 0 then CPtr else CInt" 2]) (simp_all add: numeral_2_eq_2)
      next
        case (TSlice e)
        with regs(1) len show ?thesis
          by (intro that [of "\<lambda>k. if k = 0 then CPtr else CInt" 3]) (simp_all add: numeral_3_eq_3)
      qed simp_all
      from write_words_live [OF n(1,2), of s] obtain s' where
        s': "write_words ?bs steps s = Inr s'" "live s' = frame_mem.puts (chunks ?bs steps) (live s)" by auto
      have "length steps = n" using n(1) by (metis length_map length_upt diff_zero)
      then have "scatterValue R v t steps s = Inr (mirrorStepPtr (steps ! 0) s')"
        using words n(3) n0 s' by (cases t) (auto simp: scatterValue_def Let_def)
      with s' im show ?thesis by simp
    next
      case complex
      with regs(1) obtain x y where xy: "steps = [x, y]" "piece_of x = (0, 8, CFloat)" "piece_of y = (8, 8, CFloat)"
        by (auto simp: map_eq_Cons_conv)
      with complex n0 len im show ?thesis
        by (simp add: scatterValue_def Let_def chunks_def step_part_def piece_of_def)
    next
      case other
      then have "scatterValue R v t steps s = Inr (fold (copy_step ?bs) steps s)"
        using False multi nc by (cases t) (auto simp: scatterValue_def Let_def)
      with im show ?thesis by (simp add: live_copy_steps)
    qed
  qed
qed

end
