(* ===== verification/Machine.thy ===== *)
theory Machine
  imports FrameCorrect
begin

text \<open>
  What the two machines that run generated trampolines share: a byte memory with 64-bit loads and
  stores, and the execution of machine code from its bytes, with the lemma that code whose bytes
  decode to a list of instructions executes them in order.
\<close>

section \<open>Memory\<close>

type_synonym ram = "64 word \<Rightarrow> byte"

definition load64 :: "ram \<Rightarrow> 64 word \<Rightarrow> 64 word" where
  "load64 m a = word_of (map (\<lambda>k. m (a + of_nat k)) [0..<8])"

definition store64 :: "64 word \<Rightarrow> 64 word \<Rightarrow> ram \<Rightarrow> ram" where
  "store64 a v m = (\<lambda>x. if unat (x - a) < 8 then le_bytes 8 v ! unat (x - a) else m x)"

lemma unat_of_nat_64 [simp]: "k < 2 ^ 64 \<Longrightarrow> unat (of_nat k :: 64 word) = k"
  unfolding unat_of_nat by simp

lemma load64_store64: "load64 (store64 a v m) a = v"
proof -
  have "map (\<lambda>k. store64 a v m (a + of_nat k)) [0..<8] = le_bytes 8 v"
    by (rule nth_equalityI) (auto simp: store64_def)
  then show ?thesis by (simp add: load64_def word_of_le_bytes)
qed

text \<open>\<open>away a n b\<close>: the eight bytes at \<open>b\<close> and the \<open>n\<close> bytes at \<open>a\<close> have none in common.\<close>

definition away :: "64 word \<Rightarrow> nat \<Rightarrow> 64 word \<Rightarrow> bool" where
  "away a n b \<longleftrightarrow> (\<forall>k<8. n \<le> unat (b + of_nat k - a))"

lemma load64_cong: "(\<And>k. k < 8 \<Longrightarrow> m (b + of_nat k) = m' (b + of_nat k)) \<Longrightarrow> load64 m b = load64 m' b"
  unfolding load64_def by (rule arg_cong [where f = word_of]) auto

lemma load64_store64_away: "away a 8 b \<Longrightarrow> load64 (store64 a v m) b = load64 m b"
  by (rule load64_cong) (auto simp: store64_def away_def not_less)

lemma store64_other: "8 \<le> unat (x - a) \<Longrightarrow> store64 a v m x = m x"
  by (simp add: store64_def)

text \<open>Zeroing the words \<open>ws\<close> of the area at \<open>a\<close>.\<close>

definition zero_words :: "64 word \<Rightarrow> nat list \<Rightarrow> ram \<Rightarrow> ram" where
  "zero_words a ws m = fold (\<lambda>w. store64 (a + of_nat (8 * w)) 0) ws m"

lemma le_bytes_0: "k < 8 \<Longrightarrow> le_bytes 8 0 ! k = 0"
  by (simp add: nth_le_bytes)

lemma unat_offset:
  assumes "j < 2 ^ 63" "k < 2 ^ 63"
  shows "unat (a + of_nat k - (a + of_nat j) :: 64 word) = (if j \<le> k then k - j else k + 2 ^ 64 - j)"
proof -
  have d: "a + of_nat k - (a + of_nat j) = (of_nat k - of_nat j :: 64 word)" by simp
  have u: "unat (of_nat j :: 64 word) = j" "unat (of_nat k :: 64 word) = k"
    using assms by simp_all
  show ?thesis unfolding d unat_sub_if_size u by (simp add: word_size)
qed

lemma store64_zero_at:
  assumes "w < 2 ^ 32" "k < 2 ^ 40"
  shows "store64 (a + of_nat (8 * w)) 0 m (a + of_nat k) = (if k div 8 = w then 0 else m (a + of_nat k))"
proof -
  have "unat (a + of_nat k - (a + of_nat (8 * w)) :: 64 word) = (if 8 * w \<le> k then k - 8 * w else k + 2 ^ 64 - 8 * w)"
    by (rule unat_offset) (use assms in auto)
  moreover have "(8 * w \<le> k \<and> k - 8 * w < 8) \<longleftrightarrow> k div 8 = w" by auto
  ultimately show ?thesis using assms by (auto simp: store64_def le_bytes_0)
qed

text \<open>The bytes of the zeroed words read zero, all others as before.\<close>

lemma zero_words_at:
  assumes "\<forall>w\<in>set ws. w < 2 ^ 32" "k < 2 ^ 40"
  shows "zero_words a ws m (a + of_nat k) = (if k div 8 \<in> set ws then 0 else m (a + of_nat k))"
  using assms unfolding zero_words_def
proof (induction ws arbitrary: m)
  case (Cons w ws)
  have st: "store64 (a + of_nat (8 * w)) 0 m (a + of_nat k) = (if k div 8 = w then 0 else m (a + of_nat k))"
    using Cons.prems by (intro store64_zero_at) auto
  have "fold (\<lambda>w. store64 (a + of_nat (8 * w)) 0) (w # ws) m (a + of_nat k) =
      fold (\<lambda>w. store64 (a + of_nat (8 * w)) 0) ws (store64 (a + of_nat (8 * w)) 0 m) (a + of_nat k)" by (simp only: fold_simps comp_def)
  also have "\<dots> = (if k div 8 \<in> set ws then 0 else store64 (a + of_nat (8 * w)) 0 m (a + of_nat k))"
    by (rule Cons.IH) (use Cons.prems in auto)
  finally show ?case unfolding st by auto
qed simp

lemma zero_words_other:
  assumes "\<forall>w\<in>set ws. w < n" "8 * n \<le> unat (x - a)"
  shows "zero_words a ws m x = m x"
  using assms unfolding zero_words_def
proof (induction ws arbitrary: m)
  case (Cons w ws)
  have le: "8 * w + 8 \<le> unat (x - a)" using Cons.prems by auto
  then have "8 * w < 2 ^ 64" using unsigned_less [of "x - a", where ?'a = nat] by simp
  then have u: "unat (of_nat (8 * w) :: 64 word) = 8 * w" by (rule unat_of_nat_64)
  have d: "x - (a + of_nat (8 * w)) = x - a - of_nat (8 * w)" by (simp only: diff_diff_eq)
  have "(of_nat (8 * w) :: 64 word) \<le> x - a" unfolding word_le_nat_alt u using le by simp
  then have "unat (x - (a + of_nat (8 * w))) = unat (x - a) - 8 * w"
    unfolding d by (simp only: unat_sub u)
  then have "store64 (a + of_nat (8 * w)) 0 m x = m x" using le by (intro store64_other) simp
  with Cons show ?case by simp
qed simp

text \<open>The same over offsets from a common base.\<close>

lemma away_offsets:
  assumes "j < 2 ^ 62" "k < 2 ^ 62" "j + n \<le> k \<or> k + 8 \<le> j" "n < 2 ^ 62"
  shows "away (p + of_nat j) n (p + of_nat k)"
  unfolding away_def
proof (intro allI impI)
  fix i :: nat assume i: "i < 8"
  have e: "p + of_nat k + of_nat i = p + of_nat (k + i)" by simp
  have "unat (p + of_nat (k + i) - (p + of_nat j)) = (if j \<le> k + i then k + i - j else k + i + 2 ^ 64 - j)"
    by (rule unat_offset) (use assms i in auto)
  then show "n \<le> unat (p + of_nat k + of_nat i - (p + of_nat j))"
    unfolding e using assms i by auto
qed

lemma store64_at_offset:
  assumes "j < 2 ^ 62" "k < 2 ^ 62" "j + 8 \<le> k \<or> k < j"
  shows "store64 (p + of_nat j) v m (p + of_nat k) = m (p + of_nat k)"
proof -
  have "unat (p + of_nat k - (p + of_nat j)) = (if j \<le> k then k - j else k + 2 ^ 64 - j)"
    by (rule unat_offset) (use assms in auto)
  then show ?thesis using assms by (intro store64_other) auto
qed

lemma load64_zero_words:
  assumes "\<forall>w\<in>set ws. w < n" "n < 2 ^ 40" "j < 2 ^ 40" "k + 8 \<le> j"
  shows "load64 (zero_words (p + of_nat j) ws m) (p + of_nat k) = load64 m (p + of_nat k)"
proof (rule load64_cong)
  fix i :: nat assume i: "i < 8"
  have e: "p + of_nat k + of_nat i = p + of_nat (k + i)" by simp
  have "unat (p + of_nat (k + i) - (p + of_nat j)) = (if j \<le> k + i then k + i - j else k + i + 2 ^ 64 - j)"
    by (rule unat_offset) (use assms i in auto)
  then have "8 * n \<le> unat (p + of_nat (k + i) - (p + of_nat j))" using assms i by simp
  with assms(1) show "zero_words (p + of_nat j) ws m (p + of_nat k + of_nat i) = m (p + of_nat k + of_nat i)"
    unfolding e by (rule zero_words_other)
qed

section \<open>Running machine code\<close>

text \<open>
  \<open>dec\<close> reads one instruction and its length off the bytes at the program counter, \<open>ex\<close> executes it.
  The run is of straight-line code: a call runs the callee and comes back, a return is the last step.
\<close>

fun run_code ::
  "(byte list \<Rightarrow> ('i \<times> nat) option) \<Rightarrow> ('i \<Rightarrow> 's \<Rightarrow> 's) \<Rightarrow> nat \<Rightarrow> byte list \<Rightarrow> nat \<times> 's \<Rightarrow> (nat \<times> 's) option"
where
  "run_code dec ex 0 code c = Some c"
| "run_code dec ex (Suc n) code c =
     (case dec (drop (fst c) code) of
        None \<Rightarrow> None
      | Some (i, k) \<Rightarrow> run_code dec ex n code (fst c + k, ex i (snd c)))"

text \<open>An instruction set reads instructions off a prefix of the bytes.\<close>

locale instruction_set =
  fixes dec :: "byte list \<Rightarrow> ('i \<times> nat) option" and ex :: "'i \<Rightarrow> 's \<Rightarrow> 's"
  assumes dec_append: "dec bs = Some (i, k) \<Longrightarrow> dec (bs @ rest) = Some (i, k)"
begin

text \<open>\<open>bs\<close> is one instruction.\<close>

definition encodes :: "byte list \<Rightarrow> 'i \<Rightarrow> bool" where
  "encodes bs i \<longleftrightarrow> dec bs = Some (i, length bs)"

lemma run_encoded:
  "list_all2 encodes bss is \<Longrightarrow>
   run_code dec ex (length is) (pre @ concat bss @ post) (length pre, s) =
     Some (length pre + length (concat bss), fold ex is s)"
proof (induction bss "is" arbitrary: pre s rule: list_all2_induct)
  case (Cons bs bss i "is")
  then have "dec (bs @ concat bss @ post) = Some (i, length bs)"
    by (intro dec_append) (simp add: encodes_def)
  with Cons.IH [of "pre @ bs" "ex i s"] show ?case by simp
qed simp

text \<open>The state after every prefix of the instructions.\<close>

lemma run_prefix:
  assumes "list_all2 encodes bss is" and "n \<le> length is"
  shows "run_code dec ex n (concat bss) (0, s) =
    Some (length (concat (take n bss)), fold ex (take n is) s)"
proof -
  have len: "length bss = length is" using assms(1) by (rule list_all2_lengthD)
  have "list_all2 encodes (take n bss) (take n is)" using assms(1) by (rule list_all2_takeI)
  from run_encoded [OF this, of "[]" "concat (drop n bss)" s]
  have "run_code dec ex (length (take n is)) (concat (take n bss @ drop n bss)) (0, s) =
    Some (length (concat (take n bss)), fold ex (take n is) s)" by (simp only: concat_append) simp
  moreover have "length (take n is) = n" using assms(2) by simp
  ultimately show ?thesis by (simp only: append_take_drop_id)
qed

end

end
