(* ===== verification/StubFrame.thy ===== *)
theory StubFrame
  imports Machine Layout
begin

text \<open>
  What the trampolines of the two machines share: the words of the stack area they clear, and memory at
  the call of \<open>Dispatch\<close>: some words of the new frame stored, the cleared words zero, all else as it was.
\<close>

section \<open>Four bytes of a word\<close>

fun rd32 :: "byte list \<Rightarrow> 32 word option" where
  "rd32 (a # b # c # d # r) = Some (ucast a OR push_bit 8 (ucast b) OR push_bit 16 (ucast c) OR push_bit 24 (ucast d))"
| "rd32 bs = None"

lemma rd32_bytes:
  "rd32 ([ucast v, ucast (drop_bit 8 v), ucast (drop_bit 16 v), ucast (drop_bit 24 v)] @ r) = Some v"
proof -
  have "(ucast (ucast v :: byte) :: 32 word) OR push_bit 8 (ucast (ucast (drop_bit 8 v) :: byte)) OR
      push_bit 16 (ucast (ucast (drop_bit 16 v) :: byte)) OR push_bit 24 (ucast (ucast (drop_bit 24 v) :: byte)) = v"
  proof (rule bit_word_eqI)
    fix i assume i: "i < LENGTH(32)"
    then consider "i < 8" | "8 \<le> i" "i < 16" | "16 \<le> i" "i < 24" | "24 \<le> i" "i < 32" by (auto simp: not_less) linarith
    then show "bit ((ucast (ucast v :: byte) :: 32 word) OR push_bit 8 (ucast (ucast (drop_bit 8 v) :: byte)) OR
        push_bit 16 (ucast (ucast (drop_bit 16 v) :: byte)) OR push_bit 24 (ucast (ucast (drop_bit 24 v) :: byte))) i = bit v i"
      by cases (auto simp: bit_simps)
  qed
  then show ?thesis by simp
qed

section \<open>The words a trampoline clears\<close>

lemma bit_iff_and_push: "x AND push_bit i 1 \<noteq> 0 \<longleftrightarrow> bit (x :: 64 word) i"
proof
  assume "bit x i"
  then have "bit (x AND push_bit i 1) i" using bit_imp_le_length [of x i] by (simp add: bit_simps)
  then show "x AND push_bit i 1 \<noteq> 0" by (metis bit_0_eq bot_apply bot_bool_def)
next
  assume nz: "x AND push_bit i 1 \<noteq> 0"
  show "bit x i"
  proof (rule ccontr)
    assume "\<not> bit x i"
    then have "x AND push_bit i 1 = 0" by (intro bit_word_eqI) (auto simp: bit_simps)
    with nz show False by simp
  qed
qed

definition zeroed :: "stubShape \<Rightarrow> nat list" where
  "zeroed sh = map (\<lambda>i. argWords sh + i) (filter (\<lambda>i. bit (retPtrs sh) i) [0..<retWords sh])"

lemma zeroed_less: "w \<in> set (zeroed sh) \<Longrightarrow> w < words sh"
  by (auto simp: zeroed_def words_def)

lemma set_zeroed: "w \<in> set (zeroed sh) \<longleftrightarrow> argWords sh \<le> w \<and> w < words sh \<and> bit (retPtrs sh) (w - argWords sh)"
proof
  assume w: "argWords sh \<le> w \<and> w < words sh \<and> bit (retPtrs sh) (w - argWords sh)"
  then have "w - argWords sh \<in> set (filter (\<lambda>i. bit (retPtrs sh) i) [0..<retWords sh])" by (auto simp: words_def)
  then have "argWords sh + (w - argWords sh) \<in> set (zeroed sh)" unfolding zeroed_def by (simp only: set_map) blast
  with w show "w \<in> set (zeroed sh)" by simp
qed (auto simp: zeroed_def words_def)

lemma concat_if_filter: "concat (map (\<lambda>i. if P i then g i else []) is) = concat (map g (filter P is))"
  by (induction "is") auto

text \<open>At most one word per bit of the bitmap.\<close>

lemma length_zeroed: "length (zeroed sh) \<le> retWords sh" "length (zeroed sh) \<le> 64"
proof -
  show "length (zeroed sh) \<le> retWords sh"
    unfolding zeroed_def length_map by (metis length_filter_le length_upt diff_zero)
  have "set (filter (\<lambda>i. bit (retPtrs sh) i) [0..<retWords sh]) \<subseteq> {..<64}"
    using bit_imp_le_length [of "retPtrs sh"] by auto
  then have "card (set (filter (\<lambda>i. bit (retPtrs sh) i) [0..<retWords sh])) \<le> 64"
    by (metis card_lessThan card_mono finite_lessThan)
  moreover have "card (set (filter (\<lambda>i. bit (retPtrs sh) i) [0..<retWords sh])) = length (zeroed sh)"
    unfolding zeroed_def length_map by (rule distinct_card) simp
  ultimately show "length (zeroed sh) \<le> 64" by simp
qed

section \<open>Memory at the call\<close>

text \<open>Over the base \<open>p\<close>: the slots \<open>(offset, value)\<close> stored, then the words \<open>ws\<close> of the area cleared.\<close>

definition put_slots :: "64 word \<Rightarrow> (nat \<times> 64 word) list \<Rightarrow> ram \<Rightarrow> ram" where
  "put_slots p slots m = fold (\<lambda>(j, v). store64 (p + of_nat j) v) slots m"

definition frame_mem :: "64 word \<Rightarrow> nat \<Rightarrow> (nat \<times> 64 word) list \<Rightarrow> nat list \<Rightarrow> ram \<Rightarrow> ram" where
  "frame_mem p area slots ws m = zero_words (p + of_nat area) ws (put_slots p slots m)"

definition clear_of :: "nat \<Rightarrow> nat \<Rightarrow> bool" where
  "clear_of j k \<longleftrightarrow> j + 8 \<le> k \<or> k + 8 \<le> j"

lemma load64_put_slots_other:
  "\<forall>s\<in>set slots. fst s < 2 ^ 40 \<and> clear_of (fst s) k \<Longrightarrow> k < 2 ^ 40 \<Longrightarrow>
   load64 (put_slots p slots m) (p + of_nat k) = load64 m (p + of_nat k)"
proof (induction slots arbitrary: m)
  case (Cons s slots)
  obtain j v where s: "s = (j, v)" by (cases s)
  with Cons have "load64 (store64 (p + of_nat j) v m) (p + of_nat k) = load64 m (p + of_nat k)"
    by (intro load64_store64_away away_offsets) (auto simp: clear_of_def)
  with Cons s show ?case by (simp add: put_slots_def)
qed (simp add: put_slots_def)

lemma load64_put_slots:
  "(k, v) \<in> set slots \<Longrightarrow> sorted_wrt clear_of (map fst slots) \<Longrightarrow> \<forall>s\<in>set slots. fst s < 2 ^ 40 \<Longrightarrow>
   load64 (put_slots p slots m) (p + of_nat k) = v"
proof (induction slots arbitrary: m)
  case (Cons s slots)
  show ?case
  proof (cases "s = (k, v)")
    case True
    with Cons.prems have "\<forall>s\<in>set slots. fst s < 2 ^ 40 \<and> clear_of (fst s) k" "k < 2 ^ 40"
      by (auto simp: clear_of_def)
    from load64_put_slots_other [OF this, of p "store64 (p + of_nat k) v m"] True
    show ?thesis by (simp add: put_slots_def load64_store64)
  next
    case False
    with Cons.prems Cons.IH [of "store64 (p + of_nat (fst s)) (snd s) m"]
    show ?thesis by (simp add: put_slots_def split_beta)
  qed
qed simp

lemma put_slots_at:
  "\<forall>s\<in>set slots. fst s + 8 \<le> k \<Longrightarrow> k < 2 ^ 60 \<Longrightarrow> put_slots p slots m (p + of_nat k) = m (p + of_nat k)"
proof (induction slots arbitrary: m)
  case (Cons s slots)
  then have "store64 (p + of_nat (fst s)) (snd s) m (p + of_nat k) = m (p + of_nat k)"
    by (intro store64_at_offset) auto
  with Cons show ?case by (simp add: put_slots_def split_beta)
qed (simp add: put_slots_def)

lemma unat_from_base:
  assumes "j \<le> unat (x - p :: 64 word)"
  shows "unat (x - (p + of_nat j)) = unat (x - p) - j"
proof -
  have u: "unat (of_nat j :: 64 word) = j"
    using assms unsigned_less [of "x - p", where ?'a = nat] by simp
  have "(of_nat j :: 64 word) \<le> x - p" unfolding word_le_nat_alt u by (rule assms)
  then have "unat (x - p - of_nat j) = unat (x - p) - j" by (simp only: unat_sub u)
  then show ?thesis by (simp only: diff_diff_eq)
qed

lemma put_slots_other:
  "\<forall>s\<in>set slots. fst s + 8 \<le> unat (x - p) \<Longrightarrow> put_slots p slots m x = m x"
proof (induction slots arbitrary: m)
  case (Cons s slots)
  then have "8 \<le> unat (x - (p + of_nat (fst s)))" using unat_from_base [of "fst s" x p] by auto
  then have "store64 (p + of_nat (fst s)) (snd s) m x = m x" by (rule store64_other)
  with Cons show ?case by (simp add: put_slots_def split_beta)
qed (simp add: put_slots_def)

text \<open>The slots are below the area, apart from each other; the area has \<open>n\<close> words.\<close>

definition frame_ok :: "nat \<Rightarrow> (nat \<times> 64 word) list \<Rightarrow> nat list \<Rightarrow> nat \<Rightarrow> bool" where
  "frame_ok area slots ws n \<longleftrightarrow>
     sorted_wrt clear_of (map fst slots) \<and> (\<forall>s\<in>set slots. fst s + 8 \<le> area) \<and> (\<forall>w\<in>set ws. w < n) \<and>
     n \<le> 2 ^ 20 \<and> area \<le> 2 ^ 20"

lemma frame_mem_slot:
  assumes "frame_ok area slots ws n" "(k, v) \<in> set slots"
  shows "load64 (frame_mem p area slots ws m) (p + of_nat k) = v"
proof -
  have k: "k + 8 \<le> area" "\<forall>s\<in>set slots. fst s < 2 ^ 40" "sorted_wrt clear_of (map fst slots)"
    using assms by (force simp: frame_ok_def)+
  have "load64 (frame_mem p area slots ws m) (p + of_nat k) = load64 (put_slots p slots m) (p + of_nat k)"
    unfolding frame_mem_def by (rule load64_zero_words [where n = n]) (use assms(1) k in \<open>auto simp: frame_ok_def\<close>)
  with load64_put_slots [OF assms(2) k(3,2)] show ?thesis by simp
qed

lemma frame_mem_below:
  assumes "frame_ok area slots ws n" "k + 8 \<le> area" "\<forall>s\<in>set slots. clear_of (fst s) k"
  shows "load64 (frame_mem p area slots ws m) (p + of_nat k) = load64 m (p + of_nat k)"
proof -
  have s: "\<forall>s\<in>set slots. fst s < 2 ^ 40 \<and> clear_of (fst s) k" and k: "k < 2 ^ 40"
    using assms by (fastforce simp: frame_ok_def)+
  have "load64 (frame_mem p area slots ws m) (p + of_nat k) = load64 (put_slots p slots m) (p + of_nat k)"
    unfolding frame_mem_def by (rule load64_zero_words [where n = n]) (use assms in \<open>auto simp: frame_ok_def\<close>)
  with load64_put_slots_other [OF s k] show ?thesis by simp
qed

text \<open>The stack area: the cleared words are zero, the rest is as it was.\<close>

lemma frame_mem_area:
  assumes "frame_ok area slots ws n" "k < 8 * n"
  shows "frame_mem p area slots ws m (p + of_nat area + of_nat k) =
    (if k div 8 \<in> set ws then 0 else m (p + of_nat area + of_nat k))"
proof -
  have e: "p + of_nat area + of_nat k = p + of_nat (area + k)" by simp
  have w: "\<forall>w\<in>set ws. w < 2 ^ 32" using assms(1) by (force simp: frame_ok_def)
  have "frame_mem p area slots ws m (p + of_nat area + of_nat k) =
      (if k div 8 \<in> set ws then 0 else put_slots p slots m (p + of_nat area + of_nat k))"
    unfolding frame_mem_def by (rule zero_words_at [OF w]) (use assms in \<open>auto simp: frame_ok_def\<close>)
  moreover have "put_slots p slots m (p + of_nat (area + k)) = m (p + of_nat (area + k))"
    by (rule put_slots_at) (use assms in \<open>auto simp: frame_ok_def\<close>)
  ultimately show ?thesis unfolding e by simp
qed

text \<open>Memory above the area and below the frame is untouched.\<close>

lemma frame_mem_other:
  assumes "frame_ok area slots ws n" "area + 8 * n \<le> unat (x - p)"
  shows "frame_mem p area slots ws m x = m x"
proof -
  have "8 * n \<le> unat (x - (p + of_nat area))" using unat_from_base [of area x p] assms(2) by auto
  then have "frame_mem p area slots ws m x = put_slots p slots m x"
    unfolding frame_mem_def by (intro zero_words_other [where n = n]) (use assms(1) in \<open>auto simp: frame_ok_def\<close>)
  moreover have "\<dots> = m x"
    by (rule put_slots_other) (use assms in \<open>fastforce simp: frame_ok_def\<close>)
  ultimately show ?thesis by simp
qed

end
