(* ===== verification/PcTable.thy ===== *)
theory PcTable
  imports Frame
begin

text \<open>
  The stack pointer table of a generated trampoline: \<open>encodePCSP\<close> of jit.go against the reader the Go
  runtime uses (\<open>readvarint\<close>, \<open>step\<close>, \<open>pcvalue\<close>; docs/en/04-pclntab.md describes the format).
\<close>

section \<open>Writing the table (encodePCSP)\<close>

record pcspEntry =
  pe_pc :: int
  spdelta :: "32 word"

function varint :: "32 word \<Rightarrow> byte list" where
  "varint v = (if 0x80 \<le> v then (ucast v OR 0x80) # varint (drop_bit 7 v) else [ucast v])"
  by auto

lemma unat_drop_bit_7: "unat (drop_bit 7 v) = unat (v :: 32 word) div 128"
proof -
  have "take_bit 32 (unat v) = unat v" using unsigned_less [of v, where ?'a = nat] by (simp add: take_bit_nat_eq_self)
  then show ?thesis by (subst unsigned_drop_bit_eq) (simp add: drop_bit_eq_div)
qed

lemma drop_bit_7_less: "0x80 \<le> (v :: 32 word) \<Longrightarrow> unat (drop_bit 7 v) < unat v"
proof -
  assume "0x80 \<le> v"
  then have "0x80 \<le> unat v" by (simp add: word_le_nat_alt)
  then show ?thesis unfolding unat_drop_bit_7 by simp
qed

termination varint
  by (relation "measure unat") (use drop_bit_7_less in auto)

declare varint.simps [simp del]

definition zigzag :: "32 word \<Rightarrow> 32 word" where
  "zigzag n = push_bit 1 n XOR signed_drop_bit 31 n"

fun encode_entries :: "pcspEntry list \<Rightarrow> 32 word \<Rightarrow> int \<Rightarrow> byte list" where
  "encode_entries [] val pc = []"
| "encode_entries (e # es) val pc =
     varint (zigzag (spdelta e - val)) @ varint (word_of_int (pe_pc e - pc)) @
     encode_entries es (spdelta e) (pe_pc e)"

definition encodePCSP :: "pcspEntry list \<Rightarrow> byte list" where
  "encodePCSP es = encode_entries es (- 1) 0 @ [0]"

section \<open>Reading it (the runtime)\<close>

fun readvarint :: "byte list \<Rightarrow> nat \<Rightarrow> 32 word \<Rightarrow> (32 word \<times> byte list) option" where
  "readvarint [] sh v = None"
| "readvarint (b # bs) sh v =
     (let v' = v OR push_bit (sh mod 32) (ucast (b AND 0x7F))
      in if b AND 0x80 = 0 then Some (v', bs) else readvarint bs (sh + 7) v')"

lemma readvarint_shorter: "readvarint p sh v = Some (w, p') \<Longrightarrow> length p' < length p"
  by (induction p sh v rule: readvarint.induct) (auto simp: Let_def split: if_splits)

definition unzigzag :: "32 word \<Rightarrow> 32 word" where
  "unzigzag u = (- (u AND 1)) XOR drop_bit 1 u"

text \<open>
  Program counters are relative to the function's entry; \<open>q\<close> is \<open>PCQuantum\<close>. A zero byte ends the
  table except in the first pair, where \<open>pc\<close> is still the entry. \<open>None\<close> is no value.
\<close>

function pcvalue_from :: "nat \<Rightarrow> byte list \<Rightarrow> nat \<Rightarrow> 32 word \<Rightarrow> nat \<Rightarrow> 32 word option" where
  "pcvalue_from q p pc val target =
     (if p = [] \<or> (hd p = 0 \<and> pc \<noteq> 0) then None
      else case readvarint p 0 0 of
        None \<Rightarrow> None
      | Some (uv, p1) \<Rightarrow>
          (case readvarint p1 0 0 of
             None \<Rightarrow> None
           | Some (pd, p2) \<Rightarrow>
               (let val' = val + unzigzag uv; pc' = pc + unat (pd * of_nat q)
                in if target < pc' then Some val' else pcvalue_from q p2 pc' val' target)))"
  by auto

termination pcvalue_from
  by (relation "measure (\<lambda>(q, p, pc, val, target). length p)")
     (auto dest!: readvarint_shorter)

declare pcvalue_from.simps [simp del]

definition pcvalue :: "nat \<Rightarrow> byte list \<Rightarrow> nat \<Rightarrow> 32 word option" where
  "pcvalue q tab target = pcvalue_from q tab 0 (- 1) target"

section \<open>Round trip\<close>

lemma bit_mask7: "bit (0x7F :: byte) i \<longleftrightarrow> i < 7"
proof -
  have m: "(0x7F :: byte) = mask 7" by (simp add: mask_eq_exp_minus_1)
  show ?thesis unfolding m bit_mask_iff by auto
qed

lemma bit_80: "bit (0x80 :: byte) i \<longleftrightarrow> i = 7"
proof -
  have m: "(0x80 :: byte) = 2 ^ 7" by simp
  show ?thesis unfolding m bit_exp_iff by auto
qed

lemma and_80: "(b :: byte) AND 0x80 = 0 \<longleftrightarrow> \<not> bit b 7"
proof
  assume "b AND 0x80 = 0"
  then have "\<not> bit (b AND 0x80) 7" by simp
  then show "\<not> bit b 7" by (simp add: bit_and_iff bit_80)
next
  assume "\<not> bit b 7"
  then show "b AND 0x80 = 0" by (intro bit_word_eqI) (metis bit_80 bit_and_iff bit_0_eq bot_apply bot_bool_def)
qed

lemma bit_group:
  fixes v :: "32 word"
  shows "bit (ucast ((ucast v OR 0x80 :: byte) AND 0x7F) :: 32 word) j \<longleftrightarrow> j < 7 \<and> bit v j"
    and "bit (ucast ((ucast v :: byte) AND 0x7F) :: 32 word) j \<longleftrightarrow> j < 7 \<and> bit v j"
  by (simp only: bit_ucast_iff bit_and_iff bit_or_iff bit_mask7 bit_80; auto)+

lemma readvarint_varint:
  "sh < 32 \<Longrightarrow> unat v < 2 ^ (32 - sh) \<Longrightarrow>
   readvarint (varint v @ rest) sh acc = Some (acc OR push_bit sh v, rest)"
proof (induction v arbitrary: sh acc rule: varint.induct)
  case (1 v)
  show ?case
  proof (cases "0x80 \<le> v")
    case True
    let ?b = "ucast v OR 0x80 :: byte"
    have ge: "128 \<le> unat v" using True by (simp add: word_le_nat_alt)
    have sh: "sh + 7 < 32"
    proof (rule ccontr)
      assume "\<not> sh + 7 < 32"
      then have "(2::nat) ^ (32 - sh) \<le> 2 ^ 7" by (intro power_increasing) auto
      with ge 1(3) show False by simp
    qed
    have "unat (drop_bit 7 v) < 2 ^ (32 - (sh + 7))"
    proof -
      have "(2::nat) ^ (32 - sh) = 2 ^ (32 - (sh + 7)) * 128"
      proof -
        have "32 - sh = (32 - (sh + 7)) + 7" using sh by simp
        then show ?thesis by (simp only: power_add) simp
      qed
      with 1(3) show ?thesis
        unfolding unat_drop_bit_7 by (simp add: less_mult_imp_div_less)
    qed
    then have "readvarint (varint (drop_bit 7 v) @ rest) (sh + 7) acc' =
        Some (acc' OR push_bit (sh + 7) (drop_bit 7 v), rest)" for acc'
      using 1(1) [OF True sh] by blast
    moreover have "?b AND 0x80 \<noteq> 0" by (simp add: and_80 bit_or_iff bit_80)
    moreover have "(acc OR push_bit sh (ucast (?b AND 0x7F))) OR push_bit (sh + 7) (drop_bit 7 v) =
        acc OR push_bit sh v"
    proof (rule bit_word_eqI)
      fix i assume "i < LENGTH(32)"
      then show "bit ((acc OR push_bit sh (ucast (?b AND 0x7F))) OR push_bit (sh + 7) (drop_bit 7 v)) i =
          bit (acc OR push_bit sh v) i"
        by (simp only: bit_or_iff bit_push_bit_iff bit_group bit_drop_bit_eq)
           (cases "sh \<le> i"; cases "i - sh < 7"; auto simp: not_less le_diff_conv2)
    qed
    ultimately show ?thesis using True sh by (simp add: varint.simps [of v] Let_def)
  next
    case False
    then have lt: "unat v < 2 ^ 7" by (simp add: word_le_nat_alt)
    have hi: "\<not> bit v i" if "7 \<le> i" for i
    proof
      assume "bit v i"
      then have "bit (unat v) i" by (simp add: bit_unsigned_iff)
      moreover have "take_bit 7 (unat v) = unat v" using lt by (rule take_bit_nat_eq_self)
      ultimately have "i < 7" by (metis bit_take_bit_iff)
      with that show False by simp
    qed
    have "(ucast v :: byte) AND 0x80 = 0" by (simp add: and_80 bit_ucast_iff hi)
    moreover have "acc OR push_bit (sh mod 32) (ucast ((ucast v :: byte) AND 0x7F)) = acc OR push_bit sh v"
    proof (rule bit_word_eqI)
      fix i assume "i < LENGTH(32)"
      then show "bit (acc OR push_bit (sh mod 32) (ucast ((ucast v :: byte) AND 0x7F))) i = bit (acc OR push_bit sh v) i"
        using 1(2) hi [of "i - sh"]
        by (simp only: bit_or_iff bit_push_bit_iff bit_group) (cases "i - sh < 7"; auto)
    qed
    ultimately show ?thesis using False by (simp add: varint.simps [of v] Let_def)
  qed
qed

lemma bit_zigzag: "bit (zigzag n) i \<longleftrightarrow> i < 32 \<and> ((0 < i \<and> bit n (i - 1)) \<noteq> bit n 31)"
  unfolding zigzag_def bit_xor_iff bit_push_bit_iff bit_signed_drop_bit_iff
  using bit_imp_le_length [of n "31 + i"] by (auto simp: Suc_le_eq)

lemma unzigzag_zigzag: "unzigzag (zigzag n) = n"
proof -
  have "zigzag n AND 1 = (if bit n 31 then 1 else 0)"
    by (rule bit_word_eqI) (auto simp: bit_and_iff bit_1_iff bit_zigzag)
  then have m: "- (zigzag n AND 1) = (if bit n 31 then - 1 else 0)" by simp
  show ?thesis
  proof (rule bit_word_eqI)
    fix i assume "i < LENGTH(32)"
    then have "i = 31 \<or> i < 31" by auto
    then show "bit (unzigzag (zigzag n)) i = bit n i"
      unfolding unzigzag_def m bit_xor_iff bit_drop_bit_eq by (auto simp: bit_zigzag)
  qed
qed

lemma zigzag_0: "zigzag n = 0 \<longleftrightarrow> n = 0"
proof
  assume "zigzag n = 0"
  then have "n = unzigzag 0" using unzigzag_zigzag [of n] by simp
  then show "n = 0" by (simp add: unzigzag_def)
qed (simp add: zigzag_def)

lemma hd_varint: "v \<noteq> 0 \<Longrightarrow> varint v \<noteq> [] \<and> hd (varint v) \<noteq> 0"
proof -
  assume "v \<noteq> 0"
  have "ucast v OR (0x80 :: byte) \<noteq> 0"
  proof
    assume "ucast v OR (0x80 :: byte) = 0"
    then have "\<not> bit (ucast v OR (0x80 :: byte)) 7" by simp
    then show False by (simp add: bit_or_iff bit_80)
  qed
  moreover have "(ucast v :: byte) \<noteq> 0" if "\<not> 0x80 \<le> v"
  proof
    assume "(ucast v :: byte) = 0"
    then have "unat (ucast v :: byte) = 0" by simp
    then have "unat v mod 256 = 0" by (simp add: unsigned_ucast_eq take_bit_eq_mod)
    with that have "unat v = 0" by (simp add: word_le_nat_alt)
    with \<open>v \<noteq> 0\<close> show False by (simp add: unat_eq_0)
  qed
  ultimately show ?thesis by (simp add: varint.simps [of v])
qed

text \<open>The value at a program counter, read off the change points.\<close>

fun sp_at :: "nat \<Rightarrow> pcspEntry list \<Rightarrow> nat \<Rightarrow> 32 word option" where
  "sp_at q [] t = None"
| "sp_at q (e # es) t = (if t < q * nat (pe_pc e) then Some (spdelta e) else sp_at q es t)"

text \<open>Change points in order, inside 32 bits, with no two equal deltas in a row.\<close>

fun pcsp_ok :: "nat \<Rightarrow> int \<Rightarrow> 32 word option \<Rightarrow> pcspEntry list \<Rightarrow> bool" where
  "pcsp_ok q pc prev [] \<longleftrightarrow> True"
| "pcsp_ok q pc prev (e # es) \<longleftrightarrow>
     pc < pe_pc e \<and> q * nat (pe_pc e) < 2 ^ 32 \<and> prev \<noteq> Some (spdelta e) \<and>
     pcsp_ok q (pe_pc e) (Some (spdelta e)) es"

lemma readvarint_0: "readvarint (varint v @ rest) 0 0 = Some (v, rest)"
  using readvarint_varint [of 0 v rest 0] unsigned_less [of v, where ?'a = nat] by simp

lemma pc_delta:
  assumes "0 \<le> pc" "pc < pc'" "q * nat pc' < 2 ^ 32"
  shows "q * nat pc + unat (word_of_int (pc' - pc) * of_nat q :: 32 word) = q * nat pc'"
proof -
  define k where "k = nat (pc' - pc)"
  have d: "pc' - pc = int k" using assms(2) by (simp add: k_def)
  have k: "nat pc' = nat pc + k" using assms(1,2) by (simp add: k_def)
  then have "k * q \<le> q * nat pc'" by (simp add: distrib_left mult.commute)
  from le_less_trans [OF this assms(3)] have "k * q < 2 ^ LENGTH(32)" by simp
  then have "unat (of_nat (k * q) :: 32 word) = k * q"
    unfolding unat_of_nat by (rule mod_less)
  then show ?thesis unfolding d k by (simp add: distrib_left mult.commute)
qed

lemma pcvalue_entry:
  assumes "0 < q" "0 \<le> pc" "pc < pe_pc e" "q * nat (pe_pc e) < 2 ^ 32" "pc = 0 \<or> spdelta e \<noteq> val"
  shows "pcvalue_from q (encode_entries (e # es) val pc @ rest) (q * nat pc) val t =
    (if t < q * nat (pe_pc e) then Some (spdelta e)
     else pcvalue_from q (encode_entries es (spdelta e) (pe_pc e) @ rest) (q * nat (pe_pc e)) (spdelta e) t)"
proof -
  let ?z = "zigzag (spdelta e - val)"
  define pd where "pd = (word_of_int (pe_pc e - pc) :: 32 word)"
  have pdq: "q * nat pc + unat (pd * of_nat q) = q * nat (pe_pc e)"
    unfolding pd_def using assms(2-4) by (rule pc_delta)
  have enc: "encode_entries (e # es) val pc @ rest =
      varint ?z @ varint pd @ encode_entries es (spdelta e) (pe_pc e) @ rest"
    by (simp only: encode_entries.simps pd_def append_assoc)
  have "varint ?z \<noteq> []" by (simp add: varint.simps [of ?z])
  moreover have "\<not> (hd (varint ?z) = 0 \<and> pc \<noteq> 0)"
    using assms(5) hd_varint [of ?z] by (auto simp: zigzag_0)
  moreover have "q * nat pc = 0 \<longleftrightarrow> pc = 0" using assms(1,2) by simp
  ultimately show ?thesis
    unfolding enc by (subst pcvalue_from.simps) (auto simp: readvarint_0 pdq unzigzag_zigzag Let_def)
qed

lemma pcvalue_entries:
  "0 < q \<Longrightarrow> 0 < pc \<Longrightarrow> pcsp_ok q pc (Some val) es \<Longrightarrow>
   pcvalue_from q (encode_entries es val pc @ [0]) (q * nat pc) val t = sp_at q es t"
proof (induction es arbitrary: pc val)
  case Nil
  then show ?case by (simp add: pcvalue_from.simps)
next
  case (Cons e es)
  then have "pc < pe_pc e" "q * nat (pe_pc e) < 2 ^ 32" "spdelta e \<noteq> val"
    "pcsp_ok q (pe_pc e) (Some (spdelta e)) es" by auto
  with Cons.IH [of "pe_pc e" "spdelta e"] Cons.prems(1,2) show ?case
    by (simp add: pcvalue_entry del: encode_entries.simps)
qed

text \<open>The runtime reads back the value of the first change point after a program counter.\<close>

lemma pcvalue_encodePCSP:
  assumes "0 < q" "pcsp_ok q 0 None es"
  shows "pcvalue q (encodePCSP es) t = sp_at q es t"
proof (cases es)
  case Nil
  then show ?thesis by (simp add: pcvalue_def encodePCSP_def pcvalue_from.simps)
next
  case (Cons e es')
  with assms have "0 < pe_pc e" "q * nat (pe_pc e) < 2 ^ 32" "pcsp_ok q (pe_pc e) (Some (spdelta e)) es'"
    by auto
  with pcvalue_entry [of q 0 e "- 1" es' "[0]" t] pcvalue_entries [of q "pe_pc e" "spdelta e" es' t] assms(1) Cons
  show ?thesis by (simp add: pcvalue_def encodePCSP_def del: encode_entries.simps)
qed

end
