(* ===== verification/Module.thy ===== *)
theory Module
  imports StubFrame PcTable
begin

text \<open>
  The \<open>moduledata\<close> jit.go forges for a generated trampoline (\<open>buildJITModule\<close>), byte by byte where
  the Go runtime reads bytes, and the runtime's reader: from a program counter to the function
  (\<open>findfunc\<close>), its stack pointer table and the pointer maps of its stack area
  (docs/en/04-pclntab.md describes the formats and the reader).
\<close>

section \<open>Versions and mirrored structures\<close>

text \<open>The build segments of the mirrors rfunc_go1*.go and moduledata_go1*.go.\<close>

datatype goversion = Go118 | Go120 | Go121 | Go123 | Go126 | Go127

text \<open>\<open>rfunc\<close>: the fields in order; \<open>startLine\<close> is there from Go 1.20 on.\<close>

definition rfunc_types :: "goversion \<Rightarrow> gotype list" where
  "rfunc_types v =
     [TUint32, TInt32, TInt32, TUint32, TUint32, TUint32, TUint32, TUint32, TUint32] @
     (if v = Go118 then [] else [TInt32]) @ [TUint8, TUint8, TArray 1 TUint8, TUint8]"

record rfunc =
  rf_entryOff :: "32 word"
  rf_nameOff :: "32 word"
  rf_args :: "32 word"
  rf_pcsp :: "32 word"
  rf_npcdata :: "32 word"
  rf_funcID :: byte
  rf_flag :: byte
  rf_nfuncdata :: byte

text \<open>\<open>stackmap\<close> and its offsets.\<close>

definition stackmap_types :: "gotype list" where
  "stackmap_types = [TInt32, TInt32, TArray 1 TUint8]"

definition rfunc_size :: "goversion \<Rightarrow> nat" where
  "rfunc_size v = size_of (TStruct (rfunc_types v))"

definition stackmap_size :: nat where
  "stackmap_size = size_of (TStruct stackmap_types)"

definition bytedata_off :: nat where
  "bytedata_off = field_offs stackmap_types ! 2"

record functab =
  entryoff :: "32 word"
  funcoff :: "32 word"

record findfuncbucket =
  fb_idx :: "32 word"
  subbuckets :: "byte list"

record pcHeader =
  magic :: "32 word"
  minLC :: byte
  hdr_ptrSize :: byte
  nfunc :: int
  nfiles :: nat
  textStart :: "64 word"

text \<open>The fields of \<open>jitModuledata\<close> jit.go writes; pointers to bytes stand for the bytes.\<close>

record moduledata =
  md_hdr :: pcHeader
  md_funcnametab :: "byte list"
  md_pctab :: "byte list"
  md_pclntable :: "byte list"
  md_ftab :: "functab list"
  md_findfunctab :: "findfuncbucket list"
  md_minpc :: "64 word"
  md_maxpc :: "64 word"
  md_text :: "64 word"
  md_etext :: "64 word"
  md_gofunc :: "byte list"

section \<open>Building a module (buildJITModule)\<close>

definition le32 :: "32 word \<Rightarrow> byte list" where
  "le32 w = [ucast w, ucast (drop_bit 8 w), ucast (drop_bit 16 w), ucast (drop_bit 24 w)]"

text \<open>\<open>*(*rfunc)(unsafe.Pointer(&fnBytes[0])) = fn\<close>: every field at its offset.\<close>

definition rfunc_fields :: "goversion \<Rightarrow> rfunc \<Rightarrow> byte list list" where
  "rfunc_fields v fn =
     [le32 (rf_entryOff fn), le32 (rf_nameOff fn), le32 (rf_args fn), le32 0, le32 (rf_pcsp fn), le32 0, le32 0,
      le32 (rf_npcdata fn), le32 0] @ (if v = Go118 then [] else [le32 0]) @
     [[rf_funcID fn], [rf_flag fn], [0], [rf_nfuncdata fn]]"

definition write_rfunc :: "goversion \<Rightarrow> rfunc \<Rightarrow> byte list \<Rightarrow> byte list" where
  "write_rfunc v fn bs = fold (\<lambda>(off, f). put_at off f) (zip (field_offs (rfunc_types v)) (rfunc_fields v fn)) bs"

definition jit_rfunc :: "nat \<Rightarrow> rfunc" where
  "jit_rfunc totalWords =
     \<lparr>rf_entryOff = 0, rf_nameOff = 1, rf_args = word_of_int (int totalWords * 8), rf_pcsp = 1, rf_npcdata = 4,
      rf_funcID = 0, rf_flag = 0, rf_nfuncdata = 2\<rparr>"

text \<open>\<open>_func\<close>, then \<open>pcdata[npcdata]\<close>, then \<open>funcdata[nfuncdata]\<close>.\<close>

definition fn_bytes :: "goversion \<Rightarrow> nat \<Rightarrow> nat \<Rightarrow> byte list" where
  "fn_bytes v totalWords localsOff =
     (let sz = rfunc_size v;
          b0 = write_rfunc v (jit_rfunc totalWords) (replicate (sz + 4 * 4 + 2 * 4) 0);
          b1 = fold (\<lambda>k. put_at (sz + k * 4) (le32 0)) [0..<4] b0;
          b2 = put_at (sz + 4 * 4) (le32 0) b1
      in put_at (sz + 4 * 4 + 4) (le32 (of_nat localsOff)) b2)"

definition is_ptr :: "stubShape \<Rightarrow> nat \<Rightarrow> bool" where
  "is_ptr sh i =
     (if i < argWords sh then argPtrs sh AND push_bit i 1 \<noteq> 0
      else retPtrs sh AND push_bit (i - argWords sh) 1 \<noteq> 0)"

definition mark_word :: "stubShape \<Rightarrow> nat \<Rightarrow> byte list \<Rightarrow> byte list" where
  "mark_word sh i bs =
     (if is_ptr sh i
      then bs[bytedata_off + i div 8 := (bs ! (bytedata_off + i div 8)) OR push_bit (i mod 8) 1] else bs)"

definition locals_off :: "nat \<Rightarrow> nat" where
  "locals_off totalWords = align_up (bytedata_off + (totalWords + 7) div 8) 4"

definition gofunc_bytes :: "stubShape \<Rightarrow> byte list" where
  "gofunc_bytes sh =
     (let n = words sh; lo = locals_off n;
          g0 = replicate (lo + stackmap_size) 0;
          g1 = put_at 4 (le32 (of_nat n)) (put_at 0 (le32 1) g0);
          g2 = fold (mark_word sh) [0..<n] g1
      in put_at (lo + 4) (le32 0) (put_at lo (le32 1) g2))"

definition buildJITModule :: "goversion \<Rightarrow> nat \<Rightarrow> 64 word \<Rightarrow> byte list \<Rightarrow> byte list \<Rightarrow> stubShape \<Rightarrow> moduledata" where
  "buildJITModule v q base code pcsp sh =
     (let etext = base + of_nat (length code); fnBytes = fn_bytes v (words sh) (locals_off (words sh))
      in \<lparr>md_hdr = \<lparr>magic = 0xfffffff1, minLC = of_nat q, hdr_ptrSize = 8, nfunc = 1, nfiles = 0, textStart = base\<rparr>,
          md_funcnametab = [0] @ map (\<lambda>c. of_nat (of_char c)) ''weave.jitstub'' @ [0],
          md_pctab = [0] @ pcsp, md_pclntable = fnBytes,
          md_ftab = [\<lparr>entryoff = 0, funcoff = 0\<rparr>,
                     \<lparr>entryoff = of_nat (length code), funcoff = of_nat (length fnBytes)\<rparr>],
          md_findfunctab = [\<lparr>fb_idx = 0, subbuckets = replicate 16 0\<rparr>],
          md_minpc = base, md_maxpc = etext, md_text = base, md_etext = etext, md_gofunc = gofunc_bytes sh\<rparr>)"

section \<open>Reading a module (the runtime)\<close>

definition findmoduledatap :: "moduledata list \<Rightarrow> 64 word \<Rightarrow> moduledata option" where
  "findmoduledatap mods pc = find (\<lambda>m. md_minpc m \<le> pc \<and> pc < md_maxpc m) mods"

text \<open>The linear step of \<open>findfunc\<close> along the function table.\<close>

fun converge :: "functab list \<Rightarrow> nat \<Rightarrow> functab option" where
  "converge (f # g # fs) off = (if unat (entryoff g) \<le> off then converge (g # fs) off else Some f)"
| "converge _ off = None"

text \<open>The module and the offset of the \<open>_func\<close> in its table.\<close>

definition findfunc :: "moduledata list \<Rightarrow> 64 word \<Rightarrow> (moduledata \<times> nat) option" where
  "findfunc mods pc =
     (case findmoduledatap mods pc of
        None \<Rightarrow> None
      | Some m \<Rightarrow>
          (let off = unat (pc - md_text m); b = off div 4096; i = off mod 4096 div 256
           in if length (md_findfunctab m) \<le> b then None
              else (let ffb = md_findfunctab m ! b; idx = unat (fb_idx ffb) + unat (subbuckets ffb ! i)
                    in case converge (drop idx (md_ftab m)) off of
                         None \<Rightarrow> None
                       | Some f \<Rightarrow> Some (m, unat (funcoff f)))))"

definition func_u32 :: "goversion \<Rightarrow> moduledata \<Rightarrow> nat \<Rightarrow> nat \<Rightarrow> nat option" where
  "func_u32 v m f field = map_option unat (rd32 (drop (f + field_offs (rfunc_types v) ! field) (md_pclntable m)))"

text \<open>\<open>funcargs\<close>, \<open>funcspdelta\<close>: fields 2 and 4 of \<open>_func\<close>; a table offset of zero is no table.\<close>

definition funcargs :: "goversion \<Rightarrow> moduledata \<Rightarrow> nat \<Rightarrow> nat option" where
  "funcargs v m f = func_u32 v m f 2"

definition funcspdelta :: "goversion \<Rightarrow> nat \<Rightarrow> moduledata \<Rightarrow> nat \<Rightarrow> 64 word \<Rightarrow> 32 word option" where
  "funcspdelta v q m f pc =
     (case func_u32 v m f 4 of
        None \<Rightarrow> None
      | Some off \<Rightarrow> if off = 0 then None else pcvalue q (drop off (md_pctab m)) (unat (pc - md_text m)))"

text \<open>\<open>funcdata(i)\<close>: the bytes of the data block from the offset on; no data past \<open>nfuncdata\<close>.\<close>

definition funcdata :: "goversion \<Rightarrow> moduledata \<Rightarrow> nat \<Rightarrow> nat \<Rightarrow> byte list option" where
  "funcdata v m f i =
     (let last_field = length (rfunc_types v) - 1; ns = f + field_offs (rfunc_types v) ! last_field
      in if length (md_pclntable m) \<le> ns \<or> unat (md_pclntable m ! ns) \<le> i then None
         else (case func_u32 v m f 7 of
                 None \<Rightarrow> None
               | Some np \<Rightarrow>
                   map_option (\<lambda>off. drop (unat off) (md_gofunc m))
                     (rd32 (drop (f + rfunc_size v + 4 * np + 4 * i) (md_pclntable m)))))"

text \<open>
  \<open>pcdatavalue(StackMapIndex)\<close>: the second entry of the table behind \<open>_func\<close>; without a table the
  value is -1 and the runtime takes stack map 0.
\<close>

definition stackmap_index :: "goversion \<Rightarrow> nat \<Rightarrow> moduledata \<Rightarrow> nat \<Rightarrow> 64 word \<Rightarrow> nat option" where
  "stackmap_index v q m f pc =
     (case rd32 (drop (f + rfunc_size v + 4) (md_pclntable m)) of
        None \<Rightarrow> None
      | Some off \<Rightarrow>
          if off = 0 then Some 0
          else map_option (\<lambda>x. if x = - 1 then 0 else unat x)
                 (pcvalue q (drop (unat off) (md_pctab m)) (unat (pc - md_text m))))"

text \<open>\<open>stackmapdata\<close>: bitmap \<open>k\<close> of a stack map, as its bits; \<open>None\<close> is the runtime's throw.\<close>

definition stackmapdata :: "byte list \<Rightarrow> nat \<Rightarrow> bool list option" where
  "stackmapdata bs k =
     (case (rd32 bs, rd32 (drop 4 bs)) of
        (Some n, Some nbit) \<Rightarrow>
          if unat n \<le> k then None
          else (let w = unat nbit; start = bytedata_off + k * ((w + 7) div 8)
                in if length bs < start + (w + 7) div 8 then None
                   else Some (map (\<lambda>i. bit (bs ! (start + i div 8)) (i mod 8)) [0..<w]))
      | _ \<Rightarrow> None)"

text \<open>\<open>getStackMap\<close>: the pointer map of the arguments (0) or the locals (1) at a program counter.\<close>

definition getStackMap :: "goversion \<Rightarrow> nat \<Rightarrow> moduledata \<Rightarrow> nat \<Rightarrow> 64 word \<Rightarrow> nat \<Rightarrow> bool list option" where
  "getStackMap v q m f pc which =
     (case (stackmap_index v q m f pc, funcdata v m f which) of
        (Some k, Some bs) \<Rightarrow> stackmapdata bs k
      | _ \<Rightarrow> None)"

end
