(* ===== verification/ModuleCorrect.thy ===== *)
theory ModuleCorrect
  imports Module
begin

text \<open>
  What the runtime reads back from a forged module: the function, its argument size, its stack pointer
  table and its pointer maps.
\<close>

section \<open>Writing and reading at an offset\<close>

lemma length_le32 [simp]: "length (le32 w) = 4"
  by (simp add: le32_def)

lemma rd32_le32: "rd32 (le32 w @ r) = Some w"
  unfolding le32_def by (rule rd32_bytes)

lemma length_put_at_in [simp]: "off + length xs \<le> length bs \<Longrightarrow> length (put_at off xs bs) = length bs"
  by (simp add: put_at_def)

lemma nth_put_at:
  "off + length xs \<le> length bs \<Longrightarrow> k < length bs \<Longrightarrow>
   put_at off xs bs ! k = (if off \<le> k \<and> k < off + length xs then xs ! (k - off) else bs ! k)"
  by (auto simp: put_at_def nth_append min_def)

lemma rd32_nth:
  assumes "k + 4 \<le> length bs" and "\<And>i. i < 4 \<Longrightarrow> bs ! (k + i) = le32 w ! i"
  shows "rd32 (drop k bs) = Some w"
proof -
  have "take 4 (drop k bs) = le32 w" using assms by (intro nth_equalityI) auto
  then have "drop k bs = le32 w @ drop 4 (drop k bs)" by (metis append_take_drop_id)
  then show ?thesis by (metis rd32_le32)
qed

lemma put_at_append: "length a = off \<Longrightarrow> length xs = length b \<Longrightarrow> put_at off xs (a @ b @ c) = a @ xs @ c"
  by (simp add: put_at_def)

section \<open>The function entry\<close>

lemma rfunc_layout:
  "rfunc_size Go118 = 40" "v \<noteq> Go118 \<Longrightarrow> rfunc_size v = 44"
  "field_offs (rfunc_types Go118) = [0, 4, 8, 12, 16, 20, 24, 28, 32, 36, 37, 38, 39]"
  "v \<noteq> Go118 \<Longrightarrow> field_offs (rfunc_types v) = [0, 4, 8, 12, 16, 20, 24, 28, 32, 36, 40, 41, 42, 43]"
  "stackmap_size = 12" "bytedata_off = 8"
proof -
  show "rfunc_size Go118 = 40" "field_offs (rfunc_types Go118) = [0, 4, 8, 12, 16, 20, 24, 28, 32, 36, 37, 38, 39]"
    "stackmap_size = 12" "bytedata_off = 8" by code_simp+
  assume "v \<noteq> Go118"
  then have e: "rfunc_types v = rfunc_types Go120" by (simp add: rfunc_types_def)
  show "rfunc_size v = 44" "field_offs (rfunc_types v) = [0, 4, 8, 12, 16, 20, 24, 28, 32, 36, 40, 41, 42, 43]"
    unfolding rfunc_size_def e by code_simp+
qed

text \<open>Fields written one behind the other fill their space.\<close>

fun contiguous :: "nat \<Rightarrow> nat list \<Rightarrow> byte list list \<Rightarrow> bool" where
  "contiguous off [] [] = True"
| "contiguous off (k # ks) (f # fs) \<longleftrightarrow> k = off \<and> contiguous (off + length f) ks fs"
| "contiguous off _ _ = False"

lemma put_contiguous:
  "contiguous (length a) ks fs \<Longrightarrow> length b = length (concat fs) \<Longrightarrow>
   fold (\<lambda>(off, f). put_at off f) (zip ks fs) (a @ b @ c) = a @ concat fs @ c"
proof (induction "length a" ks fs arbitrary: a b rule: contiguous.induct)
  case (2 k ks f fs)
  have b: "b = take (length f) b @ drop (length f) b" by simp
  have "put_at k f (a @ b @ c) = a @ f @ drop (length f) b @ c"
  proof -
    have "put_at k f (a @ take (length f) b @ (drop (length f) b @ c)) = a @ f @ (drop (length f) b @ c)"
      by (rule put_at_append) (use 2 in auto)
    then show ?thesis by (metis append.assoc b)
  qed
  with 2(1) [of "a @ f" "drop (length f) b"] 2(2,3) show ?case by simp
qed auto

lemma fn_bytes_eq:
  "fn_bytes v n lo = concat (rfunc_fields v (jit_rfunc n)) @ concat [le32 0, le32 0, le32 0, le32 0] @ le32 0 @ le32 (of_nat lo)"
proof -
  let ?sz = "rfunc_size v" and ?F = "concat (rfunc_fields v (jit_rfunc n))"
  have len: "length ?F = ?sz" by (cases "v = Go118") (simp_all add: rfunc_fields_def rfunc_layout)
  have "contiguous 0 (field_offs (rfunc_types v)) (rfunc_fields v (jit_rfunc n))"
    by (cases "v = Go118") (simp_all add: rfunc_fields_def rfunc_layout)
  then have 0: "write_rfunc v (jit_rfunc n) ([] @ replicate ?sz 0 @ replicate 24 0) = ?F @ replicate 24 0"
    unfolding write_rfunc_def using put_contiguous [of "[]" "field_offs (rfunc_types v)" "rfunc_fields v (jit_rfunc n)" "replicate ?sz 0" "replicate 24 0"] len
    by simp
  have z: "replicate 24 (0 :: byte) = replicate 4 0 @ replicate 20 0" "replicate 20 (0 :: byte) = replicate 4 0 @ replicate 16 0"
    "replicate 16 (0 :: byte) = replicate 4 0 @ replicate 12 0" "replicate 12 (0 :: byte) = replicate 4 0 @ replicate 8 0"
    "replicate 8 (0 :: byte) = replicate 4 0 @ replicate 4 0"
    by (simp_all flip: replicate_add)
  have p: "put_at k (le32 w) (a @ replicate 4 0 @ r) = a @ le32 w @ r" if "length a = k" for a k w r
    by (rule put_at_append) (use that in simp_all)
  have 1: "fold (\<lambda>k. put_at (?sz + k * 4) (le32 0)) [0..<4] (?F @ replicate 24 0) =
      ?F @ concat [le32 0, le32 0, le32 0, le32 0] @ replicate 8 0"
  proof -
    have u: "[0..<4] = [0, 1, 2, 3 :: nat]" by (simp add: upt_rec)
    have q: "put_at (?sz + 0 * 4) (le32 0) (?F @ replicate 24 0) = ?F @ le32 0 @ replicate 20 0"
      "put_at (?sz + 1 * 4) (le32 0) (?F @ le32 0 @ replicate 20 0) = ?F @ le32 0 @ le32 0 @ replicate 16 0"
      "put_at (?sz + 2 * 4) (le32 0) (?F @ le32 0 @ le32 0 @ replicate 16 0) = ?F @ le32 0 @ le32 0 @ le32 0 @ replicate 12 0"
      "put_at (?sz + 3 * 4) (le32 0) (?F @ le32 0 @ le32 0 @ le32 0 @ replicate 12 0) =
         ?F @ le32 0 @ le32 0 @ le32 0 @ le32 0 @ replicate 8 0"
      using p [of ?F] p [of "?F @ le32 0"] p [of "?F @ le32 0 @ le32 0"] p [of "?F @ le32 0 @ le32 0 @ le32 0"] len
      unfolding z(1) z(2) z(3) z(4) by simp_all
    show ?thesis unfolding u by (simp only: fold_simps q) simp
  qed
  let ?X = "?F @ concat [le32 0, le32 0, le32 0, le32 0]"
  have lX: "length ?X = ?sz + 4 * 4" using len by simp
  have 2: "put_at (?sz + 4 * 4) (le32 0) (?X @ replicate 8 0) = ?X @ le32 0 @ replicate 4 0"
    unfolding z(5) by (rule p [OF lX])
  have 3: "put_at (?sz + 4 * 4 + 4) (le32 (of_nat lo)) ((?X @ le32 0) @ replicate 4 0 @ []) = (?X @ le32 0) @ le32 (of_nat lo) @ []"
    by (rule p) (use lX in simp)
  have e: "replicate (?sz + 4 * 4 + 2 * 4) (0 :: byte) = [] @ replicate ?sz 0 @ replicate 24 0"
    by (simp flip: replicate_add)
  have x: "?F @ concat [le32 0, le32 0, le32 0, le32 0] @ replicate 8 0 = ?X @ replicate 8 0" by simp
  show ?thesis
    unfolding fn_bytes_def Let_def e 0 1 x 2 using 3 by simp
qed

text \<open>The fields the runtime reads, at their offsets.\<close>

lemma fn_bytes_nth:
  assumes "v = Go118 \<and> sz = 40 \<or> v \<noteq> Go118 \<and> sz = 44"
  shows "length (fn_bytes v n lo) = sz + 24"
    and "rd32 (drop 8 (fn_bytes v n lo)) = Some (word_of_int (int n * 8))"
    and "rd32 (drop 16 (fn_bytes v n lo)) = Some 1" and "rd32 (drop 28 (fn_bytes v n lo)) = Some 4"
    and "fn_bytes v n lo ! (sz - 1) = 2"
    and "rd32 (drop (sz + 4) (fn_bytes v n lo)) = Some 0"
    and "rd32 (drop (sz + 16) (fn_bytes v n lo)) = Some 0"
    and "rd32 (drop (sz + 20) (fn_bytes v n lo)) = Some (of_nat lo)"
proof -
  note defs = fn_bytes_eq rfunc_fields_def jit_rfunc_def nth_append rd32_le32
  have e: "rd32 (le32 (of_nat lo)) = Some (of_nat lo)" using rd32_le32 [of "of_nat lo" "[]"] by simp
  from assms show "length (fn_bytes v n lo) = sz + 24" by (auto simp: defs)
  from assms show "rd32 (drop 8 (fn_bytes v n lo)) = Some (word_of_int (int n * 8))" by (auto simp: defs)
  from assms show "rd32 (drop 16 (fn_bytes v n lo)) = Some 1" by (auto simp: defs)
  from assms show "rd32 (drop 28 (fn_bytes v n lo)) = Some 4" by (auto simp: defs)
  from assms show "fn_bytes v n lo ! (sz - 1) = 2" by (auto simp: defs)
  from assms show "rd32 (drop (sz + 4) (fn_bytes v n lo)) = Some 0" by (auto simp: defs)
  from assms show "rd32 (drop (sz + 16) (fn_bytes v n lo)) = Some 0" by (auto simp: defs)
  from assms e show "rd32 (drop (sz + 20) (fn_bytes v n lo)) = Some (of_nat lo)" by (auto simp: defs)
qed

section \<open>The pointer maps\<close>

lemma length_mark_word [simp]: "length (mark_word sh i bs) = length bs"
  by (simp add: mark_word_def)

lemma length_fold_mark [simp]: "length (fold (mark_word sh) is bs) = length bs"
  by (induction "is" arbitrary: bs) auto

lemma bit_pow2_byte: "k < 8 \<Longrightarrow> bit (2 ^ k :: byte) j \<longleftrightarrow> j = k"
  by (auto simp: bit_exp_iff)

text \<open>Bit \<open>j\<close> of byte \<open>b\<close> of the bitmap stands for word \<open>8 * b + j\<close>.\<close>

lemma fold_mark_bits:
  assumes "bytedata_off + (n + 7) div 8 \<le> length bs" "j < 8"
  shows "bit (fold (mark_word sh) [0..<n] bs ! (bytedata_off + b)) j \<longleftrightarrow>
    bit (bs ! (bytedata_off + b)) j \<or> (8 * b + j < n \<and> is_ptr sh (8 * b + j))"
  using assms(1)
proof (induction n)
  case (Suc n)
  let ?g = "fold (mark_word sh) [0..<n] bs"
  have n: "bytedata_off + n div 8 < length ?g"
    using Suc.prems by simp
  have IH: "bit (?g ! (bytedata_off + b)) j \<longleftrightarrow>
    bit (bs ! (bytedata_off + b)) j \<or> (8 * b + j < n \<and> is_ptr sh (8 * b + j))"
    using Suc by simp
  have step: "bit (mark_word sh n ?g ! (bytedata_off + b)) j \<longleftrightarrow>
      bit (?g ! (bytedata_off + b)) j \<or> (is_ptr sh n \<and> n div 8 = b \<and> n mod 8 = j)"
    using n assms(2) by (auto simp: mark_word_def nth_list_update bit_or_iff bit_pow2_byte)
  have "(n div 8 = b \<and> n mod 8 = j) \<longleftrightarrow> 8 * b + j = n" using assms(2) by auto
  then show ?case using IH step by (auto simp: less_Suc_eq)
qed simp

lemma fold_mark_other:
  "k < bytedata_off \<or> bytedata_off + (n + 7) div 8 \<le> k \<Longrightarrow> fold (mark_word sh) [0..<n] bs ! k = bs ! k"
proof (induction n)
  case (Suc n)
  then have "bytedata_off + n div 8 \<noteq> k" "k < bytedata_off \<or> bytedata_off + (n + 7) div 8 \<le> k" by auto
  with Suc.IH show ?case by (simp add: mark_word_def)
qed simp

lemma is_ptr_bits: "is_ptr sh i \<longleftrightarrow> (if i < argWords sh then bit (argPtrs sh) i else bit (retPtrs sh) (i - argWords sh))"
  unfolding is_ptr_def bit_iff_and_push ..

definition area_map :: "stubShape \<Rightarrow> bool list" where
  "area_map sh = map (is_ptr sh) [0..<words sh]"

lemma locals_off_ge: "8 + (n + 7) div 8 \<le> locals_off n"
  by (simp add: locals_off_def rfunc_layout(6) align_up_ge)

lemma gofunc_maps:
  assumes n: "words sh \<le> 2 ^ 20"
  shows "stackmapdata (gofunc_bytes sh) 0 = Some (area_map sh)"
    and "stackmapdata (drop (locals_off (words sh)) (gofunc_bytes sh)) 0 = Some []"
proof -
  let ?n = "words sh" and ?lo = "locals_off (words sh)"
  define g1 where "g1 = put_at 4 (le32 (of_nat ?n)) (put_at 0 (le32 1) (replicate (?lo + stackmap_size) 0))"
  define g2 where "g2 = fold (mark_word sh) [0..<?n] g1"
  have lo: "8 + (?n + 7) div 8 \<le> ?lo" by (rule locals_off_ge)
  have l1: "length g1 = ?lo + 12" by (simp add: g1_def rfunc_layout(5))
  have l2: "length g2 = ?lo + 12" by (simp add: g2_def l1)
  have g: "gofunc_bytes sh = put_at (?lo + 4) (le32 0) (put_at ?lo (le32 1) g2)"
    by (simp only: gofunc_bytes_def g2_def g1_def Let_def)
  have lg: "length (gofunc_bytes sh) = ?lo + 12" using l2 by (simp add: g)
  have low: "gofunc_bytes sh ! k = g2 ! k" if "k < ?lo" for k
    using that l2 by (simp add: g nth_put_at)
  have hdr: "g2 ! k = g1 ! k" if "k < 8" for k
    unfolding g2_def by (rule fold_mark_other) (use that in \<open>simp add: rfunc_layout(6)\<close>)
  have r0: "rd32 (gofunc_bytes sh) = Some 1"
    using rd32_nth [of 0 "gofunc_bytes sh" 1] lg lo
    by (simp add: low hdr g1_def nth_put_at rfunc_layout(5))
  have r4: "rd32 (drop 4 (gofunc_bytes sh)) = Some (of_nat ?n)"
    by (rule rd32_nth) (use lg lo in \<open>simp_all add: low hdr g1_def nth_put_at rfunc_layout(5)\<close>)
  have un: "unat (of_nat ?n :: 32 word) = ?n"
    unfolding unat_of_nat by (rule mod_less) (use n in simp)
  have bits: "bit (gofunc_bytes sh ! (8 + i div 8)) (i mod 8) \<longleftrightarrow> is_ptr sh i" if "i < ?n" for i
  proof -
    have k: "i div 8 < (?n + 7) div 8" using that by linarith
    then have "8 + i div 8 < ?lo" using lo by simp
    then have "gofunc_bytes sh ! (8 + i div 8) = g2 ! (8 + i div 8)" by (rule low)
    moreover have "g1 ! (8 + i div 8) = 0" using k lo by (simp add: g1_def nth_put_at rfunc_layout(5))
    ultimately show ?thesis
      using fold_mark_bits [of ?n g1 "i mod 8" sh "i div 8"] that l1 lo
      by (simp add: g2_def rfunc_layout(6))
  qed
  have len: "8 + (?n + 7) div 8 \<le> length (gofunc_bytes sh)" using lg lo by simp
  show "stackmapdata (gofunc_bytes sh) 0 = Some (area_map sh)"
    using r0 r4 len bits by (simp add: stackmapdata_def un rfunc_layout(6) area_map_def)
  have "rd32 (drop ?lo (gofunc_bytes sh)) = Some 1"
    by (rule rd32_nth) (use lg l2 in \<open>simp_all add: g nth_put_at\<close>)
  moreover have "rd32 (drop (?lo + 4) (gofunc_bytes sh)) = Some 0"
    by (rule rd32_nth) (use lg l2 in \<open>simp_all add: g nth_put_at\<close>)
  moreover have "8 \<le> length (drop ?lo (gofunc_bytes sh))" using lg by simp
  ultimately show "stackmapdata (drop ?lo (gofunc_bytes sh)) 0 = Some []"
    by (simp add: stackmapdata_def rfunc_layout(6) add.commute)
qed

section \<open>The whole lookup\<close>

lemma rfunc_cases: "v = Go118 \<and> rfunc_size v = 40 \<or> v \<noteq> Go118 \<and> rfunc_size v = 44"
  using rfunc_layout(1) rfunc_layout(2) [of v] by auto

lemma rfunc_field_offs:
  "field_offs (rfunc_types v) ! 2 = 8" "field_offs (rfunc_types v) ! 4 = 16" "field_offs (rfunc_types v) ! 7 = 28"
  "field_offs (rfunc_types v) ! (length (rfunc_types v) - 1) = rfunc_size v - 1"
proof -
  have l: "length (rfunc_types v) - 1 = (if v = Go118 then 12 else 13)" by (simp add: rfunc_types_def)
  show "field_offs (rfunc_types v) ! 2 = 8" "field_offs (rfunc_types v) ! 4 = 16" "field_offs (rfunc_types v) ! 7 = 28"
    "field_offs (rfunc_types v) ! (length (rfunc_types v) - 1) = rfunc_size v - 1"
    unfolding l using rfunc_layout(1,3) rfunc_layout(2) [of v] rfunc_layout(4) [of v] by (cases "v = Go118"; simp)+
qed

lemma unat_word_of_nat_32: "n < 2 ^ 32 \<Longrightarrow> unat (of_nat n :: 32 word) = n"
  unfolding unat_of_nat by simp

lemma in_range:
  fixes base pc :: "64 word"
  assumes "base \<le> pc" "unat base + n < 2 ^ 64" "pc < base + of_nat n"
  shows "unat (pc - base) < n"
proof -
  have n: "unat (of_nat n :: 64 word) = n" using assms(2) by simp
  have "unat (base + of_nat n) = unat base + n"
    using assms(2) by (simp add: unat_word_ariths n)
  then show ?thesis
    using assms(1,3) by (simp add: word_less_nat_alt word_le_nat_alt unat_sub)
qed

text \<open>
  A program counter in the code of a registered module, in no module before it: the runtime finds the
  function and reads the size of the stack area, the stack pointer table and the two pointer maps.
\<close>

lemma module_lookup:
  assumes md: "md = buildJITModule v q base code pcsp sh"
    and sizes: "words sh \<le> 2 ^ 20" "length code \<le> 4096" "unat base + length code < 2 ^ 64"
    and pc: "base \<le> pc" "pc < base + of_nat (length code)"
    and first: "\<forall>m\<in>set pre. \<not> (md_minpc m \<le> pc \<and> pc < md_maxpc m)"
  shows "findfunc (pre @ md # post) pc = Some (md, 0)"
    and "funcargs v md 0 = Some (8 * words sh)"
    and "funcspdelta v q md 0 pc = pcvalue q pcsp (unat (pc - base))"
    and "getStackMap v q md 0 pc 0 = Some (area_map sh)"
    and "getStackMap v q md 0 pc 1 = Some []"
proof -
  let ?n = "words sh" and ?fb = "fn_bytes v (words sh) (locals_off (words sh))"
  note fb = fn_bytes_nth [OF rfunc_cases [of v], of "words sh" "locals_off (words sh)"]
  have off: "unat (pc - base) < length code" using pc(1) sizes(3) pc(2) by (rule in_range)
  have lc: "unat (of_nat (length code) :: 32 word) = length code"
    by (rule unat_word_of_nat_32) (use sizes(2) in simp)
  have "find (\<lambda>m. md_minpc m \<le> pc \<and> pc < md_maxpc m) (pre @ md # post) = Some md"
    using first pc by (induction pre) (auto simp: md buildJITModule_def Let_def)
  moreover have "unat (pc - base) div 4096 = 0" using off sizes(2) by simp
  moreover have "unat (pc - base) mod 4096 div 256 < 16" by (simp add: div_less_iff_less_mult)
  ultimately show "findfunc (pre @ md # post) pc = Some (md, 0)"
    using off lc by (simp add: findfunc_def findmoduledatap_def md buildJITModule_def Let_def)
  have pcln: "md_pclntable md = ?fb" "md_pctab md = 0 # pcsp" "md_gofunc md = gofunc_bytes sh" "md_text md = base"
    by (simp_all add: md buildJITModule_def Let_def)
  have "unat (word_of_int (int ?n * 8) :: 32 word) = 8 * ?n"
  proof -
    have e: "(word_of_int (int ?n * 8) :: 32 word) = of_nat (8 * ?n)" by simp
    show ?thesis unfolding e by (rule unat_word_of_nat_32) (use sizes(1) in simp)
  qed
  then show "funcargs v md 0 = Some (8 * ?n)"
    unfolding funcargs_def func_u32_def rfunc_field_offs pcln using fb(2) by simp
  have one: "func_u32 v md 0 4 = Some 1"
    unfolding func_u32_def rfunc_field_offs pcln using fb(3) by simp
  then show "funcspdelta v q md 0 pc = pcvalue q pcsp (unat (pc - base))"
    unfolding funcspdelta_def pcln by simp
  have idx: "stackmap_index v q md 0 pc = Some 0"
    unfolding stackmap_index_def pcln using fb(6) by simp
  have np: "func_u32 v md 0 7 = Some 4"
    unfolding func_u32_def rfunc_field_offs pcln using fb(4) by simp
  have nf: "rfunc_size v - 1 < length ?fb" "unat (?fb ! (rfunc_size v - 1)) = 2"
    using fb(1,5) by simp_all
  have maps: "funcdata v md 0 0 = Some (gofunc_bytes sh)"
    "funcdata v md 0 1 = Some (drop (locals_off ?n) (gofunc_bytes sh))"
  proof -
    have "locals_off ?n < 2 ^ 32"
    proof -
      have "locals_off ?n < 8 + (?n + 7) div 8 + 4"
        unfolding locals_off_def rfunc_layout(6) by (rule align_up_less) simp
      then show ?thesis using sizes(1) by simp
    qed
    then have "unat (of_nat (locals_off ?n) :: 32 word) = locals_off ?n" by (rule unat_word_of_nat_32)
    then show "funcdata v md 0 0 = Some (gofunc_bytes sh)"
      "funcdata v md 0 1 = Some (drop (locals_off ?n) (gofunc_bytes sh))"
      using nf np fb(7,8) unfolding funcdata_def rfunc_field_offs Let_def pcln by (simp_all add: add.commute)
  qed
  show "getStackMap v q md 0 pc 0 = Some (area_map sh)" "getStackMap v q md 0 pc 1 = Some []"
    using gofunc_maps [OF sizes(1)] by (simp_all add: getStackMap_def idx maps del: One_nat_def)
qed

end
