(* ===== verification/Jit.thy ===== *)
theory Jit
  imports ModuleCorrect Abi
begin

text \<open>
  jit.go and tramp.go: generating, registering and caching trampolines (\<open>jitTrampoline\<close>), the
  prefetched generic trampolines (\<open>init\<close>, \<open>slotCode\<close>) and the choice between the two
  (\<open>newTrampoline\<close>). The machine code generator of the architecture is the argument \<open>gen\<close>, its
  contract the locale \<open>code_generator\<close>; the operating system's \<open>mmap\<close> is the argument \<open>mm\<close>.
\<close>

section \<open>State\<close>

text \<open>What \<open>jitRoots\<close> keeps alive: a code page, a module, the tables a module refers to.\<close>

datatype root = RootPage "64 word" | RootModule moduledata | RootTables moduledata

text \<open>
  \<open>jmods\<close> is the runtime's module list from its head to \<open>lastmoduledatap\<close>, \<open>pages\<close> the code behind the
  addresses of mapped pages. \<open>jitMu\<close> makes every operation atomic.
\<close>

record jit =
  jitBySh :: "stubShape \<Rightarrow> 64 word option"
  jmods :: "moduledata list"
  jitRoots :: "root list"
  pages :: "64 word \<Rightarrow> byte list option"

type_synonym mmap = "moduledata list \<Rightarrow> nat \<Rightarrow> 64 word option"
type_synonym codegen = "stubShape \<Rightarrow> (byte list \<times> byte list) res"

definition slotCount :: nat where
  "slotCount = 128"

section \<open>Operations\<close>

text \<open>\<open>jitExecAlloc\<close>: a mapping of the size of the code with the code copied in; \<open>None\<close> is an error.\<close>

definition jitExecAlloc :: "mmap \<Rightarrow> byte list \<Rightarrow> jit \<Rightarrow> (64 word \<times> jit) option" where
  "jitExecAlloc mm code s =
     (case mm (jmods s) (length code) of
        None \<Rightarrow> None
      | Some base \<Rightarrow> Some (base, s\<lparr>pages := (pages s)(base \<mapsto> code)\<rparr>))"

definition registerModule :: "moduledata \<Rightarrow> jit \<Rightarrow> jit" where
  "registerModule md s = s\<lparr>jmods := jmods s @ [md]\<rparr>"

definition jitTrampoline :: "codegen \<Rightarrow> goversion \<Rightarrow> nat \<Rightarrow> mmap \<Rightarrow> stubShape \<Rightarrow> jit \<Rightarrow> (64 word option \<times> jit) res" where
  "jitTrampoline gen v q mm sh s =
     (case jitBySh s sh of
        Some code \<Rightarrow> Inr (Some code, s)
      | None \<Rightarrow>
          res_bind (gen sh) (\<lambda>(code, pcsp).
            case jitExecAlloc mm code s of
              None \<Rightarrow> Inr (None, s)
            | Some (base, s1) \<Rightarrow>
                (let md = buildJITModule v q base code pcsp sh;
                     s2 = registerModule md (s1\<lparr>jitRoots := jitRoots s1 @ [RootTables md]\<rparr>);
                     s3 = s2\<lparr>jitRoots := jitRoots s2 @ [RootPage base, RootModule md]\<rparr>
                 in Inr (Some base, s3\<lparr>jitBySh := (jitBySh s3)(sh \<mapsto> base)\<rparr>))))"

definition generic_shape :: "arch \<Rightarrow> nat \<Rightarrow> stubShape" where
  "generic_shape A i = \<lparr>sh_index = i, argWords = stackWindow A div ptrSize, retWords = 0, argPtrs = 0, retPtrs = 0\<rparr>"

text \<open>\<open>init\<close>: the generic trampolines, in the order of their slots.\<close>

definition jit_init :: "arch \<Rightarrow> codegen \<Rightarrow> goversion \<Rightarrow> nat \<Rightarrow> mmap \<Rightarrow> jit \<Rightarrow> (64 word list \<times> jit) res" where
  "jit_init A gen v q mm s =
     res_fold (\<lambda>i (stubs, s).
       res_bind (jitTrampoline gen v q mm (generic_shape A i) s) (\<lambda>(c, s').
         case c of
           None \<Rightarrow> Inl ''weave: runtime JIT failed to generate a generic trampoline''
         | Some p \<Rightarrow> Inr (stubs @ [p], s'))) [0..<slotCount] ([], s)"

definition hasTrampoline :: "arch \<Rightarrow> bool" where
  "hasTrampoline A \<longleftrightarrow> A \<noteq> OtherArch"

definition slotCode :: "arch \<Rightarrow> 64 word list \<Rightarrow> nat \<Rightarrow> 64 word res" where
  "slotCode A jitStubs i =
     (if \<not> hasTrampoline A then Inl ''weave: no trampoline on this architecture''
      else if slotCount \<le> i then Inl ''weave: interface has more methods than trampoline slots''
      else Inr (jitStubs ! i))"

text \<open>\<open>newTrampoline\<close> of tramp.go, for method \<open>idx\<close> with layout \<open>l\<close>.\<close>

definition newTrampoline ::
  "arch \<Rightarrow> codegen \<Rightarrow> goversion \<Rightarrow> nat \<Rightarrow> mmap \<Rightarrow> 64 word list \<Rightarrow> abiLayout \<Rightarrow> nat \<Rightarrow> jit \<Rightarrow> (64 word \<times> jit) res"
where
  "newTrampoline A gen v q mm jitStubs l idx s =
     (if \<not> hasTrampoline A then Inl ''weave: dynamic proxies are only supported on amd64 and arm64''
      else if stackBytes l > stackWindow A then Inl ''weave: stack argument area larger than the trampoline window''
      else if \<not> stackPointers l then res_bind (slotCode A jitStubs idx) (\<lambda>c. Inr (c, s))
      else res_bind (shape l idx) (\<lambda>sh.
        res_bind (jitTrampoline gen v q mm sh s) (\<lambda>(c, s').
          case c of Some p \<Rightarrow> Inr (p, s') | None \<Rightarrow> Inl ''weave: no trampoline could be generated'')))"

text \<open>The methods there is a trampoline for.\<close>

definition layout_fits :: "arch \<Rightarrow> abiLayout \<Rightarrow> nat \<Rightarrow> bool" where
  "layout_fits A l idx \<longleftrightarrow>
     hasTrampoline A \<and> stackBytes l \<le> stackWindow A \<and> (stackPointers l \<or> idx < slotCount)"

section \<open>The contract of the operating system\<close>

definition in_text :: "moduledata \<Rightarrow> 64 word \<Rightarrow> bool" where
  "in_text m pc \<longleftrightarrow> md_minpc m \<le> pc \<and> pc < md_maxpc m"

text \<open>A new mapping does not wrap around and shares no address with the text of a loaded module.\<close>

definition mmap_fresh :: "mmap \<Rightarrow> bool" where
  "mmap_fresh mm \<longleftrightarrow>
     (\<forall>mods n b. mm mods n = Some b \<and> 0 < n \<longrightarrow>
        unat b + n < 2 ^ 64 \<and> (\<forall>m\<in>set mods. \<forall>pc. b \<le> pc \<and> pc < b + of_nat n \<longrightarrow> \<not> in_text m pc))"

lemma mmap_freshD:
  assumes "mmap_fresh mm" "mm mods n = Some b" "0 < n"
  shows "unat b + n < 2 ^ 64"
    and "m \<in> set mods \<Longrightarrow> b \<le> pc \<Longrightarrow> pc < b + of_nat n \<Longrightarrow> \<not> in_text m pc"
  using assms unfolding mmap_fresh_def by blast+

text \<open>The next \<open>k\<close> mappings of at most a page succeed.\<close>

primrec mmap_serves :: "mmap \<Rightarrow> nat \<Rightarrow> moduledata list \<Rightarrow> bool" where
  "mmap_serves mm 0 mods = True"
| "mmap_serves mm (Suc k) mods =
     (\<forall>n. 0 < n \<and> n \<le> 4096 \<longrightarrow>
        (\<exists>b. mm mods n = Some b \<and>
           (\<forall>m. md_minpc m = b \<and> md_maxpc m = b + of_nat n \<longrightarrow> mmap_serves mm k (mods @ [m]))))"

lemma mmap_serves_less: "mmap_serves mm k mods \<Longrightarrow> j \<le> k \<Longrightarrow> mmap_serves mm j mods"
proof (induction k arbitrary: j mods)
  case (Suc k)
  show ?case
  proof (cases j)
    case j: (Suc i)
    with Suc.prems have "i \<le> k" by simp
    show ?thesis
      unfolding j mmap_serves.simps
    proof (intro allI impI)
      fix n :: nat assume "0 < n \<and> n \<le> 4096"
      with Suc.prems(1) obtain b where b: "mm mods n = Some b"
        "\<And>m. md_minpc m = b \<Longrightarrow> md_maxpc m = b + of_nat n \<Longrightarrow> mmap_serves mm k (mods @ [m])" by auto
      have "\<forall>m. md_minpc m = b \<and> md_maxpc m = b + of_nat n \<longrightarrow> mmap_serves mm i (mods @ [m])"
        using Suc.IH [OF b(2) \<open>i \<le> k\<close>] by blast
      with b(1) show "\<exists>b. mm mods n = Some b \<and>
          (\<forall>m. md_minpc m = b \<and> md_maxpc m = b + of_nat n \<longrightarrow> mmap_serves mm i (mods @ [m]))" by blast
    qed
  qed simp
qed simp

section \<open>Invariant\<close>

definition disjoint_text :: "moduledata \<Rightarrow> moduledata \<Rightarrow> bool" where
  "disjoint_text a b \<longleftrightarrow> (\<forall>pc. \<not> (in_text a pc \<and> in_text b pc))"

text \<open>
  A cached trampoline: its page holds the code generated for its shape, a module that describes it is
  registered, and everything the collector must not free is rooted.
\<close>

definition cached_ok :: "codegen \<Rightarrow> goversion \<Rightarrow> nat \<Rightarrow> jit \<Rightarrow> stubShape \<Rightarrow> 64 word \<Rightarrow> bool" where
  "cached_ok gen v q s sh p \<longleftrightarrow>
     (\<exists>code pcsp md. gen sh = Inr (code, pcsp) \<and> 0 < length code \<and> length code \<le> 4096 \<and>
        unat p + length code < 2 ^ 64 \<and> words sh \<le> 2 ^ 20 \<and> pages s p = Some code \<and>
        md = buildJITModule v q p code pcsp sh \<and> md \<in> set (jmods s) \<and>
        {RootPage p, RootModule md, RootTables md} \<subseteq> set (jitRoots s))"

definition jit_ok :: "codegen \<Rightarrow> goversion \<Rightarrow> nat \<Rightarrow> jit \<Rightarrow> bool" where
  "jit_ok gen v q s \<longleftrightarrow>
     (\<forall>sh p. jitBySh s sh = Some p \<longrightarrow> cached_ok gen v q s sh p) \<and>
     inj_on (jitBySh s) (dom (jitBySh s)) \<and> dom (pages s) \<subseteq> ran (jitBySh s) \<and> sorted_wrt disjoint_text (jmods s)"

lemma jit_ok_inj:
  assumes "jit_ok gen v q s" "jitBySh s a = Some p" "jitBySh s b = Some p"
  shows "a = b"
proof (rule inj_onD)
  show "inj_on (jitBySh s) (dom (jitBySh s))" using assms(1) by (simp add: jit_ok_def)
qed (use assms in auto)

text \<open>What never goes away: cached trampolines, registered modules, their code and their roots.\<close>

definition jit_extends :: "jit \<Rightarrow> jit \<Rightarrow> bool" where
  "jit_extends s s' \<longleftrightarrow>
     jitBySh s \<subseteq>\<^sub>m jitBySh s' \<and> pages s \<subseteq>\<^sub>m pages s' \<and> (\<exists>ms. jmods s' = jmods s @ ms) \<and>
     set (jitRoots s) \<subseteq> set (jitRoots s')"

lemma jit_extends_refl [simp]: "jit_extends s s"
  by (simp add: jit_extends_def)

lemma jit_extends_trans: "jit_extends s s' \<Longrightarrow> jit_extends s' s'' \<Longrightarrow> jit_extends s s''"
  by (auto simp: jit_extends_def intro: map_le_trans)

lemma jit_extends_cached: "jit_extends s s' \<Longrightarrow> jitBySh s sh = Some p \<Longrightarrow> jitBySh s' sh = Some p"
  by (auto simp: jit_extends_def map_le_def dom_def)

lemma module_text: "in_text (buildJITModule v q base code pcsp sh) pc \<longleftrightarrow> base \<le> pc \<and> pc < base + of_nat (length code)"
  by (simp add: in_text_def buildJITModule_def Let_def)

lemma base_in_text:
  assumes "unat base + n < 2 ^ 64" "0 < n"
  shows "base < base + (of_nat n :: 64 word)"
proof -
  have n: "unat (of_nat n :: 64 word) = n" using assms by simp
  have "unat (base + of_nat n) = unat base + n"
    using assms by (simp add: unat_word_ariths n)
  then show ?thesis using assms by (simp add: word_less_nat_alt)
qed

text \<open>The first \<open>n\<close> generic trampolines are \<open>stubs\<close>.\<close>

definition stubs_ok :: "arch \<Rightarrow> 64 word list \<Rightarrow> nat \<Rightarrow> jit \<Rightarrow> bool" where
  "stubs_ok A stubs n s \<longleftrightarrow> length stubs = n \<and> (\<forall>i<n. jitBySh s (generic_shape A i) = Some (stubs ! i))"

lemma stubs_ok_mono: "stubs_ok A stubs n s \<Longrightarrow> jit_extends s s' \<Longrightarrow> stubs_ok A stubs n s'"
  by (simp add: stubs_ok_def jit_extends_cached)

end
