(* ===== verification/FrameResults.thy ===== *)
theory FrameResults
  imports FrameCorrect
begin

text \<open>
  All results of a call: the registers and slots of a sequence are pairwise apart, so that after
  \<open>storeResults\<close> every one of them holds its part of its value, and the arguments that
  \<open>materializeArgs\<close> hands out are what the registers and slots hold.
\<close>

section \<open>The steps of a sequence are apart\<close>

lemma sorted_wrt_filter_iff:
  "sorted_wrt R (filter P xs) \<longleftrightarrow> sorted_wrt (\<lambda>x y. P x \<and> P y \<longrightarrow> R x y) xs"
  by (induction xs) auto

lemma slots_ok_sorted:
  "slots_ok lo sts hi \<Longrightarrow> sorted_wrt (\<lambda>x y. stkOff x + step_size x \<le> stkOff y) sts"
proof (induction lo sts hi rule: slots_ok.induct)
  case (2 lo st sts hi)
  then show ?case using slots_ok_bounds [of "stkOff st + step_size st" sts hi] by auto
qed simp

lemma pieces_ok_bounds:
  "pieces_ok lo ps hi \<Longrightarrow> (off, sz, c) \<in> set ps \<Longrightarrow> lo \<le> off \<and> off + sz \<le> hi \<and> sz \<le> 8 \<and> 0 < sz"
proof (induction lo ps hi rule: pieces_ok.induct)
  case (2 lo off' sz' c' ps hi)
  from 2(2) have ok: "pieces_ok (off' + sz') ps hi" "lo \<le> off'" "0 < sz'" "sz' \<le> 8" by auto
  show ?case
  proof (cases "(off, sz, c) = (off', sz', c')")
    case True
    with ok pieces_ok_le [OF ok(1)] show ?thesis by simp
  next
    case False
    with 2 ok show ?thesis by auto
  qed
qed simp

lemma value_step_bounds:
  assumes "value_steps t steps" "st \<in> set steps"
  shows "step_offset st + step_size st \<le> size_of t" "\<not> is_stack st \<Longrightarrow> step_size st \<le> 8"
    and "0 < size_of t"
proof -
  from assms have sz: "size_of t \<noteq> 0" by (auto simp: value_steps_def split: if_splits)
  then show "0 < size_of t" by simp
  from assms sz consider (stk) "steps = [st]" "is_stack st" "step_offset st = 0" "step_size st = size_of t"
    | (regs) "flatten t 0 = Some (map piece_of steps)" "\<not> is_stack st"
    by (auto simp: value_steps_def)
  then have "step_offset st + step_size st \<le> size_of t \<and> (\<not> is_stack st \<longrightarrow> step_size st \<le> 8)"
  proof cases
    case stk
    with assms(2) show ?thesis by simp
  next
    case regs
    have "(step_offset st, step_size st, class_of (step_kind st)) \<in> set (map piece_of steps)"
      using assms(2) by (force simp: piece_of_def)
    from pieces_ok_bounds [OF flatten_pieces_ok(1) [OF regs(1)] this] show ?thesis by auto
  qed
  then show "step_offset st + step_size st \<le> size_of t" "\<not> is_stack st \<Longrightarrow> step_size st \<le> 8"
    by auto
qed

definition step_apart :: "step \<Rightarrow> step \<Rightarrow> bool" where
  "step_apart x y \<longleftrightarrow> apart (stepAddr x, step_size x) (stepAddr y, step_size y)"

lemma steps_apart:
  assumes inv: "seq_inv A base s vss" and small: "\<And>st. st \<in> set (concat vss) \<Longrightarrow> \<not> is_stack st \<Longrightarrow> step_size st \<le> 8"
  shows "sorted_wrt step_apart (concat vss)"
proof -
  let ?xs = "concat vss"
  have xs: "seq_steps s = ?xs" using inv by (simp add: seq_inv_def seq_vals_def)
  have srt: "sorted_wrt (<) [0..<n]" for n :: nat by (rule sorted_wrt_upt)
  have "sorted_wrt (\<lambda>x y. is_int x \<and> is_int y \<longrightarrow> ireg x < ireg y) ?xs"
    using inv srt [of "iregs s"] by (simp add: seq_inv_def regs_in_order_def xs sorted_wrt_map flip: sorted_wrt_filter_iff)
      (metis sorted_wrt_map srt)
  moreover have "sorted_wrt (\<lambda>x y. is_float x \<and> is_float y \<longrightarrow> freg x < freg y) ?xs"
    using inv by (simp add: seq_inv_def regs_in_order_def xs flip: sorted_wrt_filter_iff)
      (metis sorted_wrt_map srt)
  moreover have "sorted_wrt (\<lambda>x y. is_stack x \<and> is_stack y \<longrightarrow> stkOff x + step_size x \<le> stkOff y) ?xs"
    using inv by (auto simp: seq_inv_def stack_ok_def xs simp flip: sorted_wrt_filter_iff dest: slots_ok_sorted)
  ultimately show ?thesis
    unfolding sorted_wrt_iff_nth_less
  proof (intro allI impI)
    fix i j
    assume ij: "i < j" "j < length ?xs"
      and int: "\<forall>i j. i < j \<longrightarrow> j < length ?xs \<longrightarrow> is_int (?xs ! i) \<and> is_int (?xs ! j) \<longrightarrow> ireg (?xs ! i) < ireg (?xs ! j)"
      and flt: "\<forall>i j. i < j \<longrightarrow> j < length ?xs \<longrightarrow> is_float (?xs ! i) \<and> is_float (?xs ! j) \<longrightarrow> freg (?xs ! i) < freg (?xs ! j)"
      and stk: "\<forall>i j. i < j \<longrightarrow> j < length ?xs \<longrightarrow> is_stack (?xs ! i) \<and> is_stack (?xs ! j) \<longrightarrow>
          stkOff (?xs ! i) + step_size (?xs ! i) \<le> stkOff (?xs ! j)"
    let ?x = "?xs ! i" and ?y = "?xs ! j"
    have sm: "\<not> is_stack ?x \<Longrightarrow> step_size ?x \<le> 8" using ij by (intro small nth_mem) auto
    show "step_apart ?x ?y"
    proof (cases "fst (stepAddr ?x) = fst (stepAddr ?y)")
      case True
      then consider "is_int ?x" "is_int ?y" | "is_float ?x" "is_float ?y" | "is_stack ?x" "is_stack ?y"
        by (cases "step_kind ?x"; cases "step_kind ?y") (auto simp: stepAddr_def step_class_defs)
      then show ?thesis
      proof cases
        case 1
        with int ij have "ireg ?x < ireg ?y" by blast
        with 1 sm show ?thesis
          by (auto simp: step_apart_def apart_def stepAddr_def step_class_defs split: stepKind.splits)
      next
        case 2
        with flt ij have "freg ?x < freg ?y" by blast
        with 2 sm show ?thesis
          by (auto simp: step_apart_def apart_def stepAddr_def step_class_defs split: stepKind.splits)
      next
        case 3
        with stk ij have "stkOff ?x + step_size ?x \<le> stkOff ?y" by blast
        with 3 show ?thesis
          by (auto simp: step_apart_def apart_def stepAddr_def step_class_defs split: stepKind.splits)
      qed
    qed (simp add: step_apart_def apart_def)
  qed
qed

section \<open>What scattering does not touch\<close>

definition rest :: "callState \<Rightarrow> mem \<times> bool \<times> bool \<times> rval list option \<times> nat" where
  "rest s = (saved s, hasSnap s, direct s, args s, nexti s)"

lemma rest_ops [simp]:
  "rest (set_live f s) = rest s" "rest (mirror_ptr i x s) = rest s" "rest (mirror_stack i x s) = rest s"
  "rest (s\<lparr>live := m\<rparr>) = rest s"
  by (simp_all add: rest_def set_live_def mirror_ptr_def mirror_stack_def)

lemma rest_mirrorStackPtrs [simp]: "rest (mirrorStackPtrs off t s) = rest s"
proof -
  have "rest (fold (\<lambda>o' s. mirror_stack ((off + o') div ptrSize) (word_of (rd (live s) (AStack, off + o') 8)) s)
      os s) = rest s" for os
    by (induction os arbitrary: s) simp_all
  then show ?thesis by (simp add: mirrorStackPtrs_def)
qed

lemma rest_mirrorStepPtr [simp]: "rest (mirrorStepPtr st s) = rest s"
  by (simp add: mirrorStepPtr_def Let_def split: stepKind.split)

lemma rest_copy_steps [simp]: "rest (fold (copy_step bs) steps s) = rest s"
  by (induction steps arbitrary: s) (simp_all add: copy_step_def Let_def)

lemma rest_write_at: "write_at st x s = Inr s' \<Longrightarrow> rest s' = rest s"
  by (auto simp: write_at_def res_bind_eq_Inr_iff)

lemma rest_write_words: "write_words bs steps s = Inr s' \<Longrightarrow> rest s' = rest s"
proof -
  have "res_fold (\<lambda>k s. write_at (steps ! k) (f k) s) ks s = Inr s' \<Longrightarrow> rest s' = rest s" for ks f
    by (induction ks arbitrary: s) (auto simp: res_bind_eq_Inr_iff dest: rest_write_at)
  from this [of "\<lambda>k. word_of (take 8 (drop (8 * k) bs))"]
  show "write_words bs steps s = Inr s' \<Longrightarrow> rest s' = rest s" unfolding write_words_def .
qed

lemma rest_scatter_one: "scatter_one R vt t bs st s = Inr s' \<Longrightarrow> rest s' = rest s"
  by (auto simp: scatter_one_def res_bind_eq_Inr_iff split: stepKind.splits if_splits dest: rest_write_at)

lemma rest_scatterValue: "scatterValue R v t steps s = Inr s' \<Longrightarrow> rest s' = rest s"
proof (cases "\<exists>n. t = TInterface n")
  case True
  then obtain n where "t = TInterface n" by auto
  moreover assume "scatterValue R v t steps s = Inr s'"
  ultimately show ?thesis
    by (auto simp: scatterValue_def scatterIface_def Let_def split: prod.splits)
next
  case False
  assume sc: "scatterValue R v t steps s = Inr s'"
  let ?bs = "val_bytes s v"
  have "scatterValue R v t steps s =
      (if length steps = 1 then scatter_one R (rv_type v) t ?bs (steps ! 0) s
       else if 2 \<le> length steps \<and> step_kind (steps ! 0) \<noteq> StepStack \<and> is_words_kind t
         then res_bind (write_words ?bs steps s) (\<lambda>s'. Inr (mirrorStepPtr (steps ! 0) s'))
       else if 2 \<le> length steps \<and> step_kind (steps ! 0) \<noteq> StepStack \<and> (t = TComplex64 \<or> t = TComplex128)
         then (let (re, im) = (if t = TComplex64 then (rt_widen R (take 4 ?bs), rt_widen R (drop 4 ?bs))
                               else (take 8 ?bs, drop 8 ?bs))
               in Inr (set_live (wr (stepAddr (steps ! 1)) im) (set_live (wr (stepAddr (steps ! 0)) re) s)))
       else Inr (fold (copy_step ?bs) steps s))"
    using False by (cases t) (simp_all add: scatterValue_def Let_def)
  with sc show ?thesis
    by (auto simp: res_bind_eq_Inr_iff Let_def split: if_splits prod.splits
        dest: rest_scatter_one rest_write_words)
qed

section \<open>All results\<close>

definition result_chunks ::
  "goruntime \<Rightarrow> gotype list \<Rightarrow> (nat \<Rightarrow> rval) \<Rightarrow> (nat \<Rightarrow> byte list) \<Rightarrow> step list list \<Rightarrow> nat \<Rightarrow>
     ((area \<times> nat) \<times> byte list) list" where
  "result_chunks R outs v bs rvs i = chunks (wire_image R (outs ! i) (rv_type (v i)) (bs i)) (rvs ! i)"

lemma scatterValue_step:
  assumes st: "value_steps t steps" and own: "rv_mem v = Own bs"
    and ok: "size_of t = 0 \<or> scatterable R t (rv_type v) bs steps"
  shows "\<exists>s'. scatterValue R v t steps s = Inr s' \<and> rest s' = rest s \<and>
           live s' = frame_mem.puts (chunks (wire_image R t (rv_type v) bs) steps) (live s)"
proof (cases "size_of t = 0")
  case True
  with st have "steps = []" by (simp add: value_steps_def)
  with True show ?thesis by (cases t) (simp_all add: scatterValue_def chunks_def Let_def)
next
  case False
  have "val_bytes s v = bs" using own by (simp add: val_bytes_def)
  with scatterValue_live [OF st False, of R v s] ok False show ?thesis
    using rest_scatterValue by fastforce
qed

lemma storeResults_live:
  fixes R :: goruntime and outs :: "gotype list"
  assumes rel: "layout_rel A ins outs l avs rvs"
    and run: "\<not> (direct s \<and> rets = None)"
    and v: "\<And>i. i < length outs \<Longrightarrow>
       pick_result R outs (case rets of None \<Rightarrow> [] | Some vs \<Rightarrow> vs) i = v i \<and> rv_mem (v i) = Own (bs i) \<and>
       (size_of (outs ! i) = 0 \<or> scatterable R (outs ! i) (rv_type (v i)) (bs i) (rvs ! i))"
  shows "\<exists>s'. storeResults R l outs rets s = Inr s' \<and> rest s' = rest s \<and>
           live s' = frame_mem.puts (concat (map (result_chunks R outs v bs rvs) [0..<length outs])) (live s)"
proof -
  let ?body = "\<lambda>i s. res_bind (stepsForValue (l_ret l) i)
             (\<lambda>steps. scatterValue R (pick_result R outs (case rets of None \<Rightarrow> [] | Some vs \<Rightarrow> vs) i)
                        (outs ! i) steps s)"
  from rel have vals: "seq_vals (l_ret l) rvs" "list_all2 value_steps outs rvs"
    by (auto simp: layout_rel_def seq_inv_def)
  then have len: "length rvs = length outs" by (simp add: list_all2_lengthD)
  have "\<exists>s'. res_fold ?body [0..<m] s = Inr s' \<and> rest s' = rest s \<and>
      live s' = frame_mem.puts (concat (map (result_chunks R outs v bs rvs) [0..<m])) (live s)"
    if "m \<le> length outs" for m
    using that
  proof (induction m)
    case 0
    show ?case by simp
  next
    case (Suc m)
    then obtain s1 where s1: "res_fold ?body [0..<m] s = Inr s1" "rest s1 = rest s"
      "live s1 = frame_mem.puts (concat (map (result_chunks R outs v bs rvs) [0..<m])) (live s)" by auto
    from Suc.prems have m: "m < length outs" by simp
    then have st: "value_steps (outs ! m) (rvs ! m)" using vals(2) by (simp add: list_all2_nthD)
    from scatterValue_step [OF st, of "v m" "bs m" R s1] v [OF m]
    obtain s2 where s2: "scatterValue R (v m) (outs ! m) (rvs ! m) s1 = Inr s2" "rest s2 = rest s1"
      "live s2 = frame_mem.puts (result_chunks R outs v bs rvs m) (live s1)"
      by (auto simp: result_chunks_def)
    have "res_fold ?body [0..<Suc m] s = Inr s2"
      using s1(1) s2(1) v [OF m] stepsForValue_vals [OF vals(1), of m] m len
      by (simp add: res_fold_append)
    with s1 s2 show ?case by (simp add: frame_mem.puts_append)
  qed
  from this [of "length outs"] run show ?thesis by (auto simp: storeResults_def)
qed

lemma length_step_part: "step_offset st + step_size st \<le> length bs \<Longrightarrow> length (step_part bs st) = step_size st"
  by (simp add: step_part_def)

lemma length_wire_image:
  "length bs = size_of t \<or> (\<exists>n. t = TInterface n) \<Longrightarrow> length (wire_image R t vt bs) = size_of t"
  by (cases t) (auto simp: wire_image_def)

lemma result_chunks_read:
  assumes rel: "layout_rel A ins outs l avs rvs"
    and len: "\<And>i. i < length outs \<Longrightarrow> length (bs i) = size_of (outs ! i) \<or> (\<exists>n. outs ! i = TInterface n)"
    and i: "i < length outs" "st \<in> set (rvs ! i)"
  shows "rd (frame_mem.puts (concat (map (result_chunks R outs v bs rvs) [0..<length outs])) m)
            (stepAddr st) (step_size st) =
         step_part (wire_image R (outs ! i) (rv_type (v i)) (bs i)) st"
proof -
  from rel have inv: "seq_inv A (retOffset l) (l_ret l) rvs" and vals: "list_all2 value_steps outs rvs"
    by (auto simp: layout_rel_def)
  then have lenr: "length rvs = length outs" by (simp add: list_all2_lengthD)
  let ?img = "\<lambda>i. wire_image R (outs ! i) (rv_type (v i)) (bs i)"
  have bound: "step_offset st + step_size st \<le> length (?img i) \<and> (\<not> is_stack st \<longrightarrow> step_size st \<le> 8)"
    if "i < length outs" "st \<in> set (rvs ! i)" for i st
    using value_step_bounds [OF list_all2_nthD [OF vals that(1)] that(2)] len [OF that(1)]
    by (auto simp: length_wire_image)
  have "sorted_wrt step_apart (concat rvs)"
    by (rule steps_apart [OF inv]) (use bound lenr in \<open>fastforce simp: in_set_conv_nth\<close>)
  then have srt: "sorted_wrt step_apart (map snd (concat (map (\<lambda>i. map (Pair i) (rvs ! i)) [0..<length outs])))"
    using lenr map_nth [of rvs] by (simp add: map_concat comp_def)
  let ?P = "concat (map (\<lambda>i. map (Pair i) (rvs ! i)) [0..<length outs])"
  let ?f = "\<lambda>(i, st). (stepAddr st, step_part (?img i) st)"
  have C: "concat (map (result_chunks R outs v bs rvs) [0..<length outs]) = map ?f ?P"
    by (simp add: result_chunks_def chunks_def map_concat comp_def fun_eq_iff cong: map_cong)
  have ln: "length (step_part (?img (fst p)) (snd p)) = step_size (snd p)" if "p \<in> set ?P" for p
    using that bound length_step_part by auto
  have "sorted_wrt (\<lambda>p q. frame_mem.chunk_apart (?f p) (?f q) \<and> frame_mem.chunk_apart (?f q) (?f p)) ?P"
    by (rule sorted_wrt_mono_rel [OF _ srt [unfolded sorted_wrt_map]])
       (auto simp: frame_mem.chunk_apart_def step_apart_def ln case_prod_unfold intro: apart_sym)
  then have "sorted_wrt (\<lambda>c d. frame_mem.chunk_apart c d \<and> frame_mem.chunk_apart d c) (map ?f ?P)"
    by (simp add: sorted_wrt_map)
  moreover have "(stepAddr st, step_part (?img i) st) \<in> set (map ?f ?P)"
    using i by force
  ultimately have "rd (frame_mem.puts (map ?f ?P) m) (stepAddr st) (length (step_part (?img i) st)) = step_part (?img i) st"
    by (intro frame_mem.get_puts) auto
  with C bound [OF i] show ?thesis by (simp add: length_step_part)
qed

section \<open>Reading arguments\<close>

lemma flatten_Nil:
  "flatten t off = Some [] \<Longrightarrow> size_of t = 0"
  "flatten_fields ts os off = Some [] \<Longrightarrow> \<forall>t\<in>set ts. size_of t = 0"
proof (induction t off and ts os off rule: flatten_flatten_fields.induct)
  case (14 ts off)
  then have z: "\<forall>t\<in>set ts. size_of t = 0" by simp
  have "fields_end 0 (map (\<lambda>t. (size_of t, align_of t)) ts) = 0"
    using z by (induction ts) auto
  then show ?case by (simp add: struct_size_def)
qed (auto split: if_splits option.splits)

lemma flatten_head:
  "flatten t off = Some (p # ps) \<Longrightarrow> fst p = off"
  "flatten_fields ts os off = Some (p # ps) \<Longrightarrow>
     os = field_offsets 0 (map (\<lambda>t. (size_of t, align_of t)) ts) \<Longrightarrow> fst p = off"
proof (induction t off and ts os off arbitrary: p ps and p ps rule: flatten_flatten_fields.induct)
  case (14 ts off)
  then show ?case by (auto simp: field_offs_def)
next
  case (17 t ts os off)
  from "17.prems" have os: "hd os = 0" "tl os = field_offsets (size_of t) (map (\<lambda>t. (size_of t, align_of t)) ts)"
    by auto
  from "17.prems"(1) obtain qs rs where q: "flatten t (off + hd os) = Some qs"
    "flatten_fields ts (tl os) off = Some rs" "qs @ rs = p # ps"
    by (auto split: option.splits)
  show ?case
  proof (cases qs)
    case Nil
    with q flatten_Nil(1) [of t "off + hd os"] have "size_of t = 0" "rs = p # ps" by auto
    with "17.IH"(2) [OF q(1), of p ps] q(2) os(2) show ?thesis by simp
  next
    case (Cons a as)
    with q "17.IH"(1) [of a as] os show ?thesis by auto
  qed
qed (auto split: if_splits)

text \<open>The gather buffer holds every piece.\<close>

lemma length_put_at: "off + length bs \<le> length xs \<Longrightarrow> length (put_at off bs xs) = length xs"
  by (simp add: put_at_def)

lemma take_put_at: "k \<le> off \<Longrightarrow> off \<le> length xs \<Longrightarrow> take k (put_at off bs xs) = take k xs"
  by (simp add: put_at_def min_def)

lemma part_put_at:
  "off + length bs \<le> length xs \<Longrightarrow> take (length bs) (drop off (put_at off bs xs)) = bs"
  by (simp add: put_at_def)

lemma gather_fold:
  fixes m :: mem and xs :: "byte list"
  assumes "pieces_ok lo (map piece_of steps) (length xs)"
  shows "let ys = fold (\<lambda>st xs. put_at (step_offset st) (rd m (stepAddr st) (step_size st)) xs) steps xs in
         length ys = length xs \<and> take lo ys = take lo xs \<and>
         (\<forall>st\<in>set steps. step_part ys st = rd m (stepAddr st) (step_size st))"
  using assms unfolding Let_def
proof (induction steps arbitrary: lo xs)
  case Nil
  show ?case by simp
next
  case (Cons st steps)
  let ?b = "rd m (stepAddr st) (step_size st)"
  let ?xs = "put_at (step_offset st) ?b xs"
  let ?hi = "step_offset st + step_size st"
  from Cons.prems have lo: "lo \<le> step_offset st" and ok: "pieces_ok ?hi (map piece_of steps) (length xs)"
    by (simp_all add: piece_of_def [of st])
  then have hi: "?hi \<le> length xs" using pieces_ok_le by blast
  then have len: "length ?xs = length xs" by (simp add: length_put_at)
  let ?ys = "fold (\<lambda>st xs. put_at (step_offset st) (rd m (stepAddr st) (step_size st)) xs) steps ?xs"
  from Cons.IH [of ?hi ?xs] ok len have IH: "length ?ys = length xs" "take ?hi ?ys = take ?hi ?xs"
    "\<forall>st\<in>set steps. step_part ?ys st = rd m (stepAddr st) (step_size st)" by auto
  have "step_part ?ys st = drop (step_offset st) (take ?hi ?ys)"
    by (simp add: step_part_def drop_take)
  also have "\<dots> = step_part ?xs st"
    unfolding IH(2) by (simp add: step_part_def drop_take)
  also have "\<dots> = ?b"
    using part_put_at [of "step_offset st" ?b xs] hi by (simp add: step_part_def)
  finally have "step_part ?ys st = ?b" .
  moreover have "take lo ?ys = take lo xs"
  proof -
    have "take lo ?ys = take lo (take ?hi ?ys)" using lo by (simp add: min_def)
    also have "\<dots> = take lo ?xs" unfolding IH(2) using lo by (simp add: min_def)
    also have "\<dots> = take lo xs" using lo hi by (intro take_put_at) auto
    finally show ?thesis .
  qed
  ultimately show ?case using IH by simp
qed

lemma rd_part: "o' + k \<le> n \<Longrightarrow> take k (drop o' (rd m (a, p) n)) = rd m (a, p + o') k"
  by (auto simp: rd_def add.assoc intro!: nth_equalityI)

text \<open>The value of an argument that is read without a panic.\<close>

definition arg_value :: "goruntime \<Rightarrow> buf \<Rightarrow> mem \<Rightarrow> gotype \<Rightarrow> step list \<Rightarrow> rval" where
  "arg_value R b m t steps = (case materializeArg R b m t steps of Inl e \<Rightarrow> zero_val t | Inr v \<Rightarrow> v)"

lemma materializeArg_value:
  "\<forall>n. t \<noteq> TInterface n \<Longrightarrow> materializeArg R b m t steps = Inr (arg_value R b m t steps)"
  by (cases t) (simp_all add: materializeArg_def arg_value_def)

lemma rv_type_arg_value [simp]: "rv_type (arg_value R b m t steps) = t"
  by (auto simp: arg_value_def materializeArg_def materializeIface_def zero_val_def Let_def split: gotype.split)

lemma materializeArg_parts:
  fixes s :: callState
  assumes st: "value_steps t steps" and sz: "size_of t \<noteq> 0" and t: "\<forall>n. t \<noteq> TInterface n"
  shows "let bs = val_bytes s (arg_value R b (buf_mem s b) t steps) in length bs = size_of t \<and>
         (\<forall>st\<in>set steps. step_part bs st = rd (buf_mem s b) (stepAddr st) (step_size st))"
proof (cases "length steps = 1")
  case True
  then obtain x where x: "steps = [x]" by (cases steps) auto
  have v: "arg_value R b (buf_mem s b) t [x] = \<lparr>rv_type = t, rv_mem = At b (stepAddr x)\<rparr>"
    unfolding x using sz t x by (cases t) (simp_all add: materializeArg_def arg_value_def)
  have off: "step_offset x = 0"
  proof (cases "is_stack x")
    case False
    with st sz x have "flatten t 0 = Some [piece_of x]" by (auto simp: value_steps_def)
    from flatten_head(1) [OF this] show ?thesis by (simp add: piece_of_def)
  qed (use st sz x in \<open>auto simp: value_steps_def\<close>)
  have "step_size x \<le> size_of t" using value_step_bounds(1) [OF st, of x] x off by simp
  then show ?thesis
    using off rd_part [of 0 "step_size x" "size_of t" "buf_mem s b" "fst (stepAddr x)" "snd (stepAddr x)"]
    by (simp add: v val_bytes_def x step_part_def Let_def)
next
  case False
  have v: "arg_value R b (buf_mem s b) t steps =
      \<lparr>rv_type = t, rv_mem = Own (gather (buf_mem s b) steps (size_of t))\<rparr>"
    using sz t False by (cases t) (simp_all add: materializeArg_def arg_value_def)
  from st sz False have "flatten t 0 = Some (map piece_of steps)" by (auto simp: value_steps_def)
  from flatten_pieces_ok(1) [OF this] have "pieces_ok 0 (map piece_of steps) (length (replicate (size_of t) (0::byte)))"
    by simp
  from gather_fold [OF this, of "buf_mem s b"] show ?thesis
    by (simp add: Let_def v val_bytes_def gather_def)
qed

end
