(* ===== verification/Invocation.thy ===== *)
theory Invocation
  imports FrameResults
begin

text \<open>
  invocation.go and the \<open>Dispatch\<close> entry of dispatch_amd64.go and dispatch_arm64.go: a call from the
  registers the trampoline forwards, through the interceptor chain (\<open>Proceed\<close>) and the target
  (\<open>callTarget\<close>), to the result registers.
\<close>

section \<open>Methods and targets\<close>

text \<open>
  \<open>targetFn\<close> is the bound method value, as a function from argument values to result values;
  \<open>targetFun\<close> is the target's own machine code, as a function of the register file. Both may panic.
\<close>

type_synonym govalue = "gotype \<times> byte list"
type_synonym rets = "rval option list option"

record proxyMethod =
  pm_ins :: "gotype list"
  pm_outs :: "gotype list"
  pm_layout :: abiLayout
  targetFn :: "(govalue list \<Rightarrow> govalue list res) option"
  targetFun :: "(mem \<Rightarrow> mem res) option"
  targetData :: "64 word"

text \<open>\<open>m.zeros\<close>: nil when the method has no results.\<close>

definition zeros :: "proxyMethod \<Rightarrow> rets" where
  "zeros M = (if pm_outs M = [] then None else Some (map (\<lambda>t. Some (zero_val t)) (pm_outs M)))"

text \<open>
  What the call through \<open>redial\<close> (assembler, redial_amd64.s and redial_arm64.s) is taken to be: load the
  registers, call, store the registers. The code sees registers only and may panic; the stack copy is
  not touched.
\<close>

definition redial :: "(mem \<Rightarrow> mem res) \<Rightarrow> mem \<Rightarrow> mem res" where
  "redial code m = res_bind (code (m(AStack := (\<lambda>_. 0)))) (\<lambda>m'. Inr (m'(AStack := m AStack)))"

definition copy_regs :: "mem \<Rightarrow> mem \<Rightarrow> mem" where
  "copy_regs src dst = src(AStack := dst AStack)"

definition call_fn :: "goruntime \<Rightarrow> proxyMethod \<Rightarrow> (govalue list \<Rightarrow> govalue list res) \<Rightarrow> callState \<Rightarrow> (rets \<times> callState) res" where
  "call_fn R M f s =
     res_bind (Args R (pm_layout M) (pm_ins M) s) (\<lambda>(vs, s').
       res_bind (f (map (\<lambda>v. (rv_type v, val_bytes s' v)) vs)) (\<lambda>outs.
         Inr (Some (map (\<lambda>(t, bs). Some \<lparr>rv_type = t, rv_mem = Own bs\<rparr>) outs), s')))"

definition fast_path :: "proxyMethod \<Rightarrow> (mem \<Rightarrow> mem res) \<Rightarrow> callState \<Rightarrow> callState res" where
  "fast_path M code s =
     (let s1 = (if hasSnap s then s\<lparr>live := copy_regs (saved s) (live s)\<rparr>
                else s\<lparr>saved := live s, hasSnap := True\<rparr>);
          s2 = mirror_ptr 0 (targetData M) (set_live (wr (AInts, 0) (le_bytes 8 (targetData M))) s1)
      in res_bind (redial code (live s2)) (\<lambda>m. Inr (s2\<lparr>live := m, direct := True\<rparr>)))"

text \<open>The bound method value is there whenever the code pointer is (\<open>newMethod\<close>).\<close>

definition callTarget :: "goruntime \<Rightarrow> proxyMethod \<Rightarrow> callState \<Rightarrow> (rets \<times> callState) res" where
  "callTarget R M s =
     (case targetFun M of
        None \<Rightarrow>
          (case targetFn M of
             None \<Rightarrow> Inr (zeros M, s)
           | Some f \<Rightarrow> call_fn R M f s)
      | Some code \<Rightarrow>
          if args s = None \<and> stackBytes (pm_layout M) = 0 then res_bind (fast_path M code s) (\<lambda>s'. Inr (None, s'))
          else (case targetFn M of
                  None \<Rightarrow> Inl ''reflect: call of Call on zero Value''
                | Some f \<Rightarrow> call_fn R M f s))"

section \<open>Interceptors\<close>

text \<open>
  What an interceptor does with its \<open>Invocation\<close>, as a tree: return results, take the arguments,
  read the bytes of a value, rewrite an argument, proceed and go on with the results, or panic. A panic
  below ends the call: interceptors that recover one and go on are outside the model.
\<close>

datatype ix =
    Return rets
  | TakeArgs "rval list \<Rightarrow> ix"
  | ReadVal rval "byte list \<Rightarrow> ix"
  | PutArg nat rval ix
  | Next "rets \<Rightarrow> ix"
  | Crash string

primrec run_ix ::
  "goruntime \<Rightarrow> proxyMethod \<Rightarrow> (callState \<Rightarrow> (rets \<times> callState) res) \<Rightarrow> ix \<Rightarrow> callState \<Rightarrow> (rets \<times> callState) res"
where
  "run_ix R M h (Return r) s = Inr (r, s)"
| "run_ix R M h (TakeArgs k) s =
     (case Args R (pm_layout M) (pm_ins M) s of Inl e \<Rightarrow> Inl e | Inr (vs, s') \<Rightarrow> run_ix R M h (k vs) s')"
| "run_ix R M h (ReadVal v k) s = run_ix R M h (k (val_bytes s v)) s"
| "run_ix R M h (PutArg i v p) s =
     (case SetArg R (pm_layout M) (pm_ins M) i v s of Inl e \<Rightarrow> Inl e | Inr s' \<Rightarrow> run_ix R M h p s')"
| "run_ix R M h (Next k) s =
     (case h s of Inl e \<Rightarrow> Inl e | Inr (r, s') \<Rightarrow> run_ix R M h (k r) s')"
| "run_ix R M h (Crash e) s = Inl e"

text \<open>
  \<open>Proceed\<close>: take the next interceptor of the chain, or call the target when there is none. \<open>next\<close> is
  a field of the invocation and is never reset. The fuel bounds the nesting of interceptors, of
  which there are at most \<open>length chain\<close>; \<open>Proceed_unfold\<close> shows it is enough.
\<close>

fun proceed_fuel ::
  "nat \<Rightarrow> goruntime \<Rightarrow> proxyMethod \<Rightarrow> ix list \<Rightarrow> callState \<Rightarrow> (rets \<times> callState) res" where
  "proceed_fuel 0 R M chain s = Inl ''out of fuel''"
| "proceed_fuel (Suc n) R M chain s =
     (if nexti s < length chain
      then run_ix R M (proceed_fuel n R M chain) (chain ! nexti s) (s\<lparr>nexti := nexti s + 1\<rparr>)
      else callTarget R M s)"

definition Proceed :: "goruntime \<Rightarrow> proxyMethod \<Rightarrow> ix list \<Rightarrow> callState \<Rightarrow> (rets \<times> callState) res" where
  "Proceed R M chain s = proceed_fuel (length chain - nexti s + 1) R M chain s"

section \<open>Dispatch\<close>

text \<open>
  The state a call starts in: the registers as the trampoline passed them, the stack-assigned
  arguments copied over whatever the pooled buffer held, pointer registers mirrored.
\<close>

definition entry_state :: "proxyMethod \<Rightarrow> callState \<Rightarrow> mem \<Rightarrow> callState" where
  "entry_state M pooled m =
     \<lparr>live = m(AStack := (\<lambda>x. if x < stackCallArgsSize (pm_layout M) then m AStack x
                              else live pooled AStack x)),
      ptrs_mirror = (\<lambda>i. if bit (ptrMask (pm_layout M)) i then word_of (rd m (AInts, 8 * i) 8) else 0),
      stackPtrs_mirror = (\<lambda>_. 0), saved = saved pooled, hasSnap = False, direct = False,
      args = None, nexti = 0\<rparr>"

text \<open>
  \<open>Dispatch\<close> returns the registers and writes the results' part of the stack area back.
\<close>

definition Dispatch :: "goruntime \<Rightarrow> proxyMethod \<Rightarrow> ix list \<Rightarrow> callState \<Rightarrow> mem \<Rightarrow> mem res" where
  "Dispatch R M chain pooled m =
     res_bind (Proceed R M chain (entry_state M pooled m)) (\<lambda>(rets, s).
       res_bind (storeResults R (pm_layout M) (pm_outs M) rets s) (\<lambda>s'.
         let l = pm_layout M in
         Inr ((live s')(AStack := (\<lambda>x. if retOffset l \<le> x \<and> x < stackBytes l then live s' AStack x
                                       else m AStack x)))))"

section \<open>The fuel is enough\<close>

lemma nexti_Args: "Args R l ins s = Inr (vs, s') \<Longrightarrow> nexti s' = nexti s"
  by (auto simp: Args_def res_bind_eq_Inr_iff split: option.splits)

lemma nexti_SetArg: "SetArg R l ins i v s = Inr s' \<Longrightarrow> nexti s' = nexti s"
  by (auto simp: SetArg_def res_bind_eq_Inr_iff split: if_splits dest: nexti_Args)

lemma nexti_callTarget: "callTarget R M s = Inr (r, s') \<Longrightarrow> nexti s' = nexti s"
  by (auto simp: callTarget_def call_fn_def fast_path_def res_bind_eq_Inr_iff Let_def mirror_ptr_def
      set_live_def split: option.splits if_splits dest: nexti_Args)

lemma nexti_run_ix:
  assumes h: "\<And>s r s'. h s = Inr (r, s') \<Longrightarrow> nexti s \<le> nexti s'"
  shows "run_ix R M h p s = Inr (r, s') \<Longrightarrow> nexti s \<le> nexti s'"
proof (induction p arbitrary: s)
  case (TakeArgs k)
  from TakeArgs.prems obtain vs s1 where
    "Args R (pm_layout M) (pm_ins M) s = Inr (vs, s1)" "run_ix R M h (k vs) s1 = Inr (r, s')"
    by (auto split: sum.splits)
  with TakeArgs.IH [of "k vs" s1] nexti_Args show ?case by fastforce
next
  case (PutArg i v p)
  then obtain s1 where "SetArg R (pm_layout M) (pm_ins M) i v s = Inr s1" "run_ix R M h p s1 = Inr (r, s')"
    by (auto split: sum.splits)
  with PutArg.IH [of s1] nexti_SetArg show ?case by fastforce
next
  case (Next k)
  from Next.prems obtain r1 s1 where
    "h s = Inr (r1, s1)" "run_ix R M h (k r1) s1 = Inr (r, s')" by (auto split: sum.splits)
  with Next.IH [of "k r1" s1] h show ?case by (meson le_trans rangeI)
qed auto

lemma nexti_proceed_fuel: "proceed_fuel n R M chain s = Inr (r, s') \<Longrightarrow> nexti s \<le> nexti s'"
proof (induction n arbitrary: s r s')
  case (Suc n)
  show ?case
  proof (cases "nexti s < length chain")
    case True
    with Suc.prems have run: "run_ix R M (proceed_fuel n R M chain) (chain ! nexti s)
        (s\<lparr>nexti := nexti s + 1\<rparr>) = Inr (r, s')" by simp
    have "nexti (s\<lparr>nexti := nexti s + 1\<rparr>) \<le> nexti s'"
      by (rule nexti_run_ix [OF _ run]) (rule Suc.IH)
    then show ?thesis by simp
  next
    case False
    with Suc.prems nexti_callTarget [of R M s r s'] show ?thesis by simp
  qed
qed simp

lemma run_ix_cong:
  assumes eq: "\<And>s. j \<le> nexti s \<Longrightarrow> h s = h' s" and mono: "\<And>s r s'. h s = Inr (r, s') \<Longrightarrow> nexti s \<le> nexti s'"
  shows "j \<le> nexti s \<Longrightarrow> run_ix R M h p s = run_ix R M h' p s"
proof (induction p arbitrary: s)
  case (TakeArgs k)
  then show ?case by (auto split: sum.splits dest!: nexti_Args)
next
  case (PutArg i v p)
  then show ?case by (auto split: sum.splits dest!: nexti_SetArg)
next
  case (Next k)
  show ?case
  proof (cases "h s")
    case (Inr rs)
    obtain r1 s1 where rs: "rs = (r1, s1)" by (cases rs)
    with Inr mono Next.prems have "j \<le> nexti s1" by (meson le_trans)
    with Next.IH [of "k r1" s1] Inr rs eq [OF Next.prems] show ?thesis by simp
  qed (use eq [OF Next.prems] in simp)
qed auto

lemma proceed_fuel_enough:
  "length chain - nexti s < n \<Longrightarrow> length chain - nexti s < n' \<Longrightarrow>
   proceed_fuel n R M chain s = proceed_fuel n' R M chain s"
proof (induction n arbitrary: n' s)
  case (Suc n)
  then obtain k where n': "n' = Suc k" by (cases n') auto
  show ?case
  proof (cases "nexti s < length chain")
    case True
    have "run_ix R M (proceed_fuel n R M chain) (chain ! nexti s) (s\<lparr>nexti := nexti s + 1\<rparr>) =
        run_ix R M (proceed_fuel k R M chain) (chain ! nexti s) (s\<lparr>nexti := nexti s + 1\<rparr>)"
    proof (rule run_ix_cong [where j = "nexti s + 1"])
      fix t assume "nexti s + 1 \<le> nexti (t :: callState)"
      with Suc.prems True n' show "proceed_fuel n R M chain t = proceed_fuel k R M chain t"
        by (intro Suc.IH) auto
    qed (use nexti_proceed_fuel in auto)
    with True n' show ?thesis by simp
  qed (simp add: n')
qed simp

text \<open>The equation of the source.\<close>

lemma Proceed_unfold:
  "Proceed R M chain s =
     (if nexti s < length chain
      then run_ix R M (Proceed R M chain) (chain ! nexti s) (s\<lparr>nexti := nexti s + 1\<rparr>)
      else callTarget R M s)"
proof (cases "nexti s < length chain")
  case True
  let ?n = "length chain - nexti s"
  have "proceed_fuel (Suc ?n) R M chain s =
      run_ix R M (proceed_fuel ?n R M chain) (chain ! nexti s) (s\<lparr>nexti := nexti s + 1\<rparr>)"
    using True by simp
  also have "\<dots> = run_ix R M (Proceed R M chain) (chain ! nexti s) (s\<lparr>nexti := nexti s + 1\<rparr>)"
  proof (rule run_ix_cong [where j = "nexti s + 1"])
    fix t assume "nexti s + 1 \<le> nexti (t :: callState)"
    with True show "proceed_fuel ?n R M chain t = Proceed R M chain t"
      unfolding Proceed_def by (intro proceed_fuel_enough) auto
  qed (use nexti_proceed_fuel in auto)
  finally show ?thesis using True by (simp add: Proceed_def)
qed (simp add: Proceed_def)

lemma nexti_Proceed: "Proceed R M chain s = Inr (r, s') \<Longrightarrow> nexti s \<le> nexti s'"
  unfolding Proceed_def by (rule nexti_proceed_fuel)

end
