(* ===== verification/Proxy.thy ===== *)
theory Proxy
  imports Jit Invocation
begin

text \<open>
  proxy.go and rt.go: building a proxy (\<open>New\<close>, \<open>NewOf\<close>, \<open>newMethod\<close>, \<open>As\<close>) out of a forged itab
  (\<open>forgeITab\<close>, \<open>makeIface\<close>), the target's own itab (\<open>targetITab\<close>, \<open>itabFun\<close>) and a trampoline per
  method. Runtime structures are lists of machine words, as the code writes and reads them.
\<close>

section \<open>Runtime structures (rt.go)\<close>

text \<open>\<open>abiType\<close>, \<open>itab\<close>, \<open>eface\<close> and \<open>iface\<close>: the fields in order; a func value is one word.\<close>

definition abiType_types :: "gotype list" where
  "abiType_types =
     [TUintptr, TUintptr, TUint32, TUint8, TUint8, TUint8, TUint8, TUnsafePointer, TPointer TUint8, TInt32, TInt32]"

definition itab_types :: "gotype list" where
  "itab_types = [TUnsafePointer, TUnsafePointer, TUint32, TArray 4 TUint8, TArray 1 TUintptr]"

definition eface_types :: "gotype list" where
  "eface_types = [TUnsafePointer, TUnsafePointer]"

definition iface_types :: "gotype list" where
  "iface_types = [TUnsafePointer, TUnsafePointer]"

text \<open>
  An interface type: the kind check, the address of its descriptor, and its methods sorted by name, in
  the order of both \<open>reflect.Type.Method\<close> and the descriptor's \<open>Methods\<close>.
\<close>

record goIface =
  gi_isInterface :: bool
  gi_addr :: "64 word"
  gi_methods :: "(string \<times> gotype) list"

definition interfaceTypeOf :: "goIface \<Rightarrow> goIface res" where
  "interfaceTypeOf t = (if gi_isInterface t then Inr t else Inl ''weave: not an interface type'')"

text \<open>A descriptor of a concrete type: its address and its hash.\<close>

record abiType =
  at_addr :: "64 word"
  at_hash :: "32 word"

text \<open>\<open>forgeITab\<close>: Inter, Type, Hash in the low half of a word, then the code pointers.\<close>

definition forgeITab :: "goIface \<Rightarrow> abiType \<Rightarrow> 64 word list \<Rightarrow> 64 word list res" where
  "forgeITab ifc proxyType funs =
     (let n = length (gi_methods ifc)
      in if n \<noteq> length funs then Inl ''weave: method count mismatch''
         else (let w = replicate (3 + n) 0;
                   w1 = w[0 := gi_addr ifc, 1 := at_addr proxyType, 2 := ucast (at_hash proxyType)]
               in Inr (fold (\<lambda>i w. w[3 + i := funs ! i]) [0..<n] w1)))"

text \<open>\<open>itabFun\<close>: entry \<open>k\<close> of the \<open>n\<close> entries from the offset of \<open>Fun\<close> on.\<close>

definition itabFun :: "64 word list \<Rightarrow> nat \<Rightarrow> nat \<Rightarrow> 64 word res" where
  "itabFun tab n k =
     (let off = field_offs itab_types ! 4 div ptrSize
      in if n \<le> k \<or> length tab < off + n then Inl ''index out of range'' else Inr (tab ! (off + k)))"

text \<open>A non-empty interface value: its two words.\<close>

record iface =
  if_tab :: "64 word list"
  if_data :: "64 word"

definition makeIface :: "64 word list \<Rightarrow> 64 word \<Rightarrow> iface" where
  "makeIface tab data = \<lparr>if_tab = tab, if_data = data\<rparr>"

text \<open>
  A target as reflect and the runtime see it: its methods by name, whether its type implements the
  proxied interface, and the two words of the interface value an assignment gives.
\<close>

record target =
  tg_method :: "string \<Rightarrow> (govalue list \<Rightarrow> govalue list res) option"
  tg_implements :: bool
  tg_itab :: "64 word list"
  tg_data :: "64 word"

definition targetITab :: "target \<Rightarrow> (64 word list \<times> 64 word) option" where
  "targetITab t = (if tg_implements t then Some (tg_itab t, tg_data t) else None)"

text \<open>
  The self-check of rt.go on a real itab: \<open>kind\<close> is the kind byte behind its \<open>Inter\<close> word, if that is
  not nil, \<open>hash\<close> and \<open>type_hash\<close> are the two copies of the hash, \<open>probe\<close> the method's entry.
\<close>

definition kind_Interface :: byte where
  "kind_Interface = 20"

definition selfCheck :: "byte option \<Rightarrow> 32 word \<Rightarrow> 32 word \<Rightarrow> 64 word list \<Rightarrow> 64 word \<Rightarrow> unit res" where
  "selfCheck kind hash type_hash tab probe =
     (if kind \<noteq> Some kind_Interface then Inl ''weave: itab.Inter offset mismatch; unsupported Go version''
      else if hash \<noteq> type_hash then Inl ''weave: itab.Hash offset mismatch; unsupported Go version''
      else res_bind (itabFun tab 1 0) (\<lambda>fn.
        if fn = 0 \<or> fn \<noteq> probe then Inl ''weave: itab.Fun offset mismatch; unsupported Go version'' else Inr ()))"

section \<open>Proxies (proxy.go)\<close>

text \<open>\<open>Method\<close> with its name, index and code pointer.\<close>

record pmethod =
  pm_name :: string
  pm_index :: nat
  pm_variadic :: bool
  pm_method :: proxyMethod
  codePtr :: "64 word"

record proxy =
  px_typ :: goIface
  px_target :: "target option"
  px_chain :: "ix list"
  px_methods :: "pmethod list"
  px_itab :: "64 word list"

text \<open>
  The machine a proxy is built on: the architecture with its code generator, the runtime version, the
  operating system, the prefetched trampolines, the code at an address as a function of the registers,
  and the descriptor of \<open>*Proxy\<close>.
\<close>

record platform =
  pf_arch :: arch
  pf_gen :: codegen
  pf_version :: goversion
  pf_quantum :: nat
  pf_mmap :: mmap
  pf_stubs :: "64 word list"
  pf_code :: "64 word \<Rightarrow> mem \<Rightarrow> mem res"
  pf_proxyType :: abiType

text \<open>\<open>newMethod\<close>; a nil code pointer is no code.\<close>

definition newMethod ::
  "platform \<Rightarrow> goIface \<Rightarrow> nat \<Rightarrow> target option \<Rightarrow> (64 word list \<times> 64 word) option \<Rightarrow> jit \<Rightarrow> (pmethod \<times> jit) res"
where
  "newMethod F t i tgt tTab s =
     (let (name, ty) = gi_methods t ! i
      in res_bind (newABILayout (pf_arch F) ty) (\<lambda>l.
         let fn = (case tgt of None \<Rightarrow> None | Some g \<Rightarrow> tg_method g name)
         in res_bind
              (case (tTab, fn) of
                 (Some (tab, data), Some _) \<Rightarrow>
                   res_bind (itabFun tab (length (gi_methods t)) i)
                     (\<lambda>a. Inr (if a = 0 then None else Some (pf_code F a), data))
               | _ \<Rightarrow> Inr (None, 0)) (\<lambda>(tf, td).
            res_bind (newTrampoline (pf_arch F) (pf_gen F) (pf_version F) (pf_quantum F) (pf_mmap F) (pf_stubs F) l i s)
              (\<lambda>(c, s').
                case ty of
                  TFunc ins outs variadic \<Rightarrow>
                    Inr (\<lparr>pm_name = name, pm_index = i, pm_variadic = variadic,
                          pm_method = \<lparr>pm_ins = ins, pm_outs = outs, pm_layout = l, targetFn = fn, targetFun = tf,
                                       targetData = td\<rparr>,
                          codePtr = c\<rparr>, s')
                | _ \<Rightarrow> Inl ''weave: not a func type''))))"

definition new_methods :: "platform \<Rightarrow> goIface \<Rightarrow> target option \<Rightarrow> nat \<Rightarrow> jit \<Rightarrow> (pmethod list \<times> jit) res" where
  "new_methods F t tgt n s =
     res_fold (\<lambda>i (ms, s).
       res_bind (newMethod F t i tgt (case tgt of None \<Rightarrow> None | Some g \<Rightarrow> targetITab g) s) (\<lambda>(m, s').
         Inr (ms @ [m], s'))) [0..<n] ([], s)"

definition NewOf :: "platform \<Rightarrow> goIface \<Rightarrow> target option \<Rightarrow> ix list \<Rightarrow> jit \<Rightarrow> (proxy \<times> jit) res" where
  "NewOf F t tgt interceptors s =
     (if \<not> gi_isInterface t then Inl ''weave.NewOf: not an interface type''
      else res_bind (interfaceTypeOf t) (\<lambda>ifc.
        res_bind (new_methods F t tgt (length (gi_methods t)) s) (\<lambda>(ms, s').
          res_bind (forgeITab ifc (pf_proxyType F) (map codePtr ms)) (\<lambda>tab.
            Inr (\<lparr>px_typ = t, px_target = tgt, px_chain = interceptors, px_methods = ms, px_itab = tab\<rparr>, s')))))"

text \<open>\<open>As\<close>: the proxy at address \<open>a\<close> as an interface value; \<open>New\<close> is both.\<close>

definition As :: "proxy \<Rightarrow> 64 word \<Rightarrow> iface" where
  "As p a = makeIface (px_itab p) a"

definition New :: "platform \<Rightarrow> goIface \<Rightarrow> target option \<Rightarrow> ix list \<Rightarrow> 64 word \<Rightarrow> jit \<Rightarrow> (iface \<times> proxy \<times> jit) res" where
  "New F t tgt interceptors a s =
     (if \<not> gi_isInterface t then Inl ''weave.New: T must be an interface type''
      else res_bind (NewOf F t tgt interceptors s) (\<lambda>(p, s'). Inr (As p a, p, s')))"

section \<open>Accessors\<close>

text \<open>\<open>Target\<close> is nil for a mock; \<open>String\<close> prints the interface's name and, by \<open>fmt\<close>'s \<open>sprint\<close>, the target.\<close>

definition Type :: "proxy \<Rightarrow> goIface" where
  "Type p = px_typ p"

definition Methods :: "proxy \<Rightarrow> pmethod list" where
  "Methods p = px_methods p"

definition Target :: "proxy \<Rightarrow> target option" where
  "Target p = px_target p"

definition proxy_String :: "(goIface \<Rightarrow> string) \<Rightarrow> (target \<Rightarrow> string) \<Rightarrow> proxy \<Rightarrow> string" where
  "proxy_String type_name sprint p =
     (case px_target p of
        None \<Rightarrow> ''weave.Proxy['' @ type_name (px_typ p) @ ''](nil)''
      | Some g \<Rightarrow> ''weave.Proxy['' @ type_name (px_typ p) @ ''](''  @ sprint g @ '')'')"

text \<open>\<open>Dispatch\<close> finds the method through the receiver: \<open>p.methods[idx]\<close>.\<close>

definition method_at :: "proxy \<Rightarrow> nat \<Rightarrow> pmethod res" where
  "method_at p idx = (if idx < length (px_methods p) then Inr (px_methods p ! idx) else Inl ''index out of range'')"

end
