(* ===== verification/GoStrings.thy ===== *)
theory GoStrings
  imports Frame
begin

text \<open>
  The string functions the trampoline assemblers use: \<open>fmt.Sprintf\<close> with \<open>%d\<close>, \<open>strings.FieldsFunc\<close>,
  \<open>strconv.ParseInt\<close> and prefixes, with the facts that carry a number through the assembler's text.
\<close>

section \<open>Numbers as text\<close>

fun dec_nat :: "nat \<Rightarrow> string" where
  "dec_nat n = (if n < 10 then [char_of (48 + n)] else dec_nat (n div 10) @ [char_of (48 + n mod 10)])"

declare dec_nat.simps [simp del]

definition dec :: "int \<Rightarrow> string" where
  "dec i = (if i < 0 then CHR ''-'' # dec_nat (nat (- i)) else dec_nat (nat i))"

definition is_digit :: "char \<Rightarrow> bool" where
  "is_digit c \<longleftrightarrow> 48 \<le> (of_char c :: nat) \<and> (of_char c :: nat) \<le> 57"

fun digits_val :: "string \<Rightarrow> nat \<Rightarrow> nat option" where
  "digits_val [] acc = Some acc"
| "digits_val (c # cs) acc = (if is_digit c then digits_val cs (10 * acc + (of_char c - 48)) else None)"

text \<open>\<open>strconv.ParseInt(s, 10, 64)\<close>; \<open>None\<close> is its error.\<close>

definition parseInt :: "string \<Rightarrow> int option" where
  "parseInt s =
     (let neg = (s \<noteq> [] \<and> hd s = CHR ''-'');
          body = (if s \<noteq> [] \<and> (hd s = CHR ''-'' \<or> hd s = CHR ''+'') then tl s else s)
      in if body = [] then None
         else case digits_val body 0 of
                None \<Rightarrow> None
              | Some n \<Rightarrow>
                  (let i = (if neg then - int n else int n)
                   in if - (2 ^ 63) \<le> i \<and> i < 2 ^ 63 then Some i else None))"

text \<open>\<open>fmt.Sprintf\<close> for formats whose verbs are \<open>%d\<close>.\<close>

fun sprintf :: "string \<Rightarrow> int list \<Rightarrow> string" where
  "sprintf [] as = []"
| "sprintf [c] as = [c]"
| "sprintf (c # d # fs) as =
     (if c = CHR ''%'' \<and> d = CHR ''d'' \<and> as \<noteq> [] then dec (hd as) @ sprintf fs (tl as)
      else c # sprintf (d # fs) as)"

text \<open>\<open>strings.FieldsFunc\<close>: the maximal runs of characters that are not separators.\<close>

fun fields_from :: "(char \<Rightarrow> bool) \<Rightarrow> string \<Rightarrow> string \<Rightarrow> string list" where
  "fields_from sep cur [] = (if cur = [] then [] else [cur])"
| "fields_from sep cur (c # cs) =
     (if sep c then (if cur = [] then [] else [cur]) @ fields_from sep [] cs
      else fields_from sep (cur @ [c]) cs)"

definition fieldsFunc :: "(char \<Rightarrow> bool) \<Rightarrow> string \<Rightarrow> string list" where
  "fieldsFunc sep s = fields_from sep [] s"

section \<open>Reading back what was printed\<close>

lemma of_char_digit: "n < 10 \<Longrightarrow> (of_char (char_of (48 + n) :: char) :: nat) = 48 + n"
  by simp

lemma dec_nat_digits: "c \<in> set (dec_nat n) \<Longrightarrow> is_digit c"
proof (induction n rule: dec_nat.induct)
  case (1 n)
  show ?case
  proof (cases "n < 10")
    case True
    with 1(2) show ?thesis by (auto simp: dec_nat.simps [of n] is_digit_def of_char_digit)
  next
    case False
    with 1(2) have "c \<in> set (dec_nat (n div 10)) \<or> c = char_of (48 + n mod 10)"
      by (auto simp: dec_nat.simps [of n])
    then show ?thesis
    proof
      assume "c = char_of (48 + n mod 10)"
      then show ?thesis using of_char_digit [of "n mod 10"] by (simp add: is_digit_def)
    qed (use 1(1) False in blast)
  qed
qed

lemma dec_nat_nonempty [simp]: "dec_nat n \<noteq> []"
  by (subst dec_nat.simps) auto

lemma digits_val_append:
  "digits_val (xs @ ys) acc = (case digits_val xs acc of None \<Rightarrow> None | Some a \<Rightarrow> digits_val ys a)"
  by (induction xs arbitrary: acc) auto

lemma digits_val_dec_nat: "digits_val (dec_nat n) 0 = Some n"
proof (induction n rule: dec_nat.induct)
  case (1 n)
  have d: "is_digit (char_of (48 + k))" "of_char (char_of (48 + k) :: char) - 48 = k" if "k < 10" for k :: nat
    using that by (simp_all add: is_digit_def of_char_digit)
  show ?case
  proof (cases "n < 10")
    case True
    then show ?thesis by (simp add: dec_nat.simps [of n] d)
  next
    case False
    then show ?thesis
      using 1 d [of "n mod 10"] by (simp add: dec_nat.simps [of n] digits_val_append)
  qed
qed

lemma dec_nat_not_sign: "hd (dec_nat n) \<noteq> CHR ''-''" "hd (dec_nat n) \<noteq> CHR ''+''"
  using dec_nat_digits [of "hd (dec_nat n)" n] by (auto simp: is_digit_def)

lemma parseInt_dec: "- (2 ^ 63) \<le> i \<Longrightarrow> i < 2 ^ 63 \<Longrightarrow> parseInt (dec i) = Some i"
  using dec_nat_not_sign by (auto simp: parseInt_def dec_def digits_val_dec_nat Let_def)

lemma fields_from_no_sep:
  "(\<And>c. c \<in> set s \<Longrightarrow> \<not> sep c) \<Longrightarrow> fields_from sep cur s = (if cur @ s = [] then [] else [cur @ s])"
  by (induction s arbitrary: cur) auto

lemma dec_nonempty [simp]: "dec i \<noteq> []"
  by (simp add: dec_def)

lemma dec_nonneg: "0 \<le> i \<Longrightarrow> dec i = dec_nat (nat i)"
  by (simp add: dec_def)

lemma fields_from_append:
  "(\<And>c. c \<in> set xs \<Longrightarrow> \<not> sep c) \<Longrightarrow> fields_from sep cur (xs @ ys) = fields_from sep (cur @ xs) ys"
  by (induction xs arbitrary: cur) auto

lemma dec_chars: "c \<in> set (dec i) \<Longrightarrow> is_digit c \<or> c = CHR ''-''"
  by (auto simp: dec_def dest: dec_nat_digits split: if_splits)

section \<open>Operands (shared by jitcode_amd64.go and jitcode_arm64.go)\<close>

definition tok :: "string list \<Rightarrow> nat \<Rightarrow> string res" where
  "tok t i = (if i < length t then Inr (t ! i) else Inl ''index out of range'')"

definition parseImm :: "string \<Rightarrow> int res" where
  "parseImm s =
     (if length s < 2 \<or> (hd s \<noteq> CHR ''$'' \<and> hd s \<noteq> CHR ''#'') then Inl ''weave: bad immediate''
      else case parseInt (tl s) of None \<Rightarrow> Inl ''weave: bad immediate'' | Some n \<Rightarrow> Inr n)"

lemma parseImm_dec: "- (2 ^ 63) \<le> i \<Longrightarrow> i < 2 ^ 63 \<Longrightarrow> parseImm (CHR ''#'' # dec i) = Inr i"
  by (simp add: parseImm_def parseInt_dec Suc_le_eq)

text \<open>\<open>asm\<close> over several instructions: their bytes one after the other.\<close>

fun concat_res :: "'a list res list \<Rightarrow> 'a list res" where
  "concat_res [] = Inr []"
| "concat_res (x # xs) = res_bind x (\<lambda>a. res_bind (concat_res xs) (\<lambda>b. Inr (a @ b)))"

lemma concat_res_append:
  "concat_res (xs @ ys) = res_bind (concat_res xs) (\<lambda>a. res_bind (concat_res ys) (\<lambda>b. Inr (a @ b)))"
  by (induction xs) (auto simp: res_bind_def split: sum.split)

lemma concat_res_Inr: "(\<And>x. x \<in> set xs \<Longrightarrow> f x = Inr (g x)) \<Longrightarrow> concat_res (map f xs) = Inr (concat (map g xs))"
  by (induction xs) auto

end
