(* ===== verification/AsmAmd64.thy ===== *)
theory AsmAmd64
  imports GoStrings PcTable Layout
begin

text \<open>
  jitcode_amd64.go: the mnemonic assembler (\<open>asm\<close>, \<open>tokenize\<close>, \<open>parseReg64\<close>, \<open>parseMem\<close>, \<open>parseMov\<close>,
  \<open>parseLea\<close>, \<open>parseIns\<close>) and the trampoline it assembles (\<open>jitStubCode\<close>), from the text of the
  instructions to the bytes on the page.
\<close>

section \<open>Constants\<close>

definition pcQuantum_amd64 :: nat where
  "pcQuantum_amd64 = 1"

definition jitFrameSize_amd64 :: nat where
  "jitFrameSize_amd64 = 0xd0"

definition jitSPDelta_amd64 :: nat where
  "jitSPDelta_amd64 = jitFrameSize_amd64 + 8"

section \<open>The assembler\<close>

definition imm32 :: "32 word \<Rightarrow> byte list" where
  "imm32 v = [ucast v, ucast (drop_bit 8 v), ucast (drop_bit 16 v), ucast (drop_bit 24 v)]"

definition dispEncoding :: "32 word \<Rightarrow> byte \<times> byte list" where
  "dispEncoding d =
     (if d = 0 then (0x00, [])
      else if - 128 \<le> sint d \<and> sint d \<le> 127 then (0x01, [ucast d])
      else (0x02, imm32 d))"

definition tokenize_amd64 :: "string \<Rightarrow> string list" where
  "tokenize_amd64 s = fieldsFunc (\<lambda>r. r = CHR '' '' \<or> r = CHR 0x09 \<or> r = CHR '','') s"

definition parseReg64 :: "string \<Rightarrow> byte res" where
  "parseReg64 s =
     (if s = ''RAX'' then Inr 0 else if s = ''RCX'' then Inr 1 else if s = ''RDX'' then Inr 2
      else if s = ''RBX'' then Inr 3 else if s = ''RSP'' then Inr 4 else if s = ''RBP'' then Inr 5
      else if s = ''RSI'' then Inr 6 else if s = ''RDI'' then Inr 7 else if s = ''R8'' then Inr 8
      else if s = ''R9'' then Inr 9 else if s = ''R10'' then Inr 10 else if s = ''R11'' then Inr 11
      else if s = ''R12'' then Inr 12 else Inl ''weave: bad register'')"

definition trim_brackets :: "string \<Rightarrow> string" where
  "trim_brackets s =
     (let s1 = (if s \<noteq> [] \<and> hd s = CHR ''['' then tl s else s)
      in if s1 \<noteq> [] \<and> last s1 = CHR '']'' then butlast s1 else s1)"

definition parseMem :: "string \<Rightarrow> (string \<times> int) res" where
  "parseMem s =
     (let inner = trim_brackets s; base = takeWhile (\<lambda>c. c \<noteq> CHR ''+'') inner;
          rest = dropWhile (\<lambda>c. c \<noteq> CHR ''+'') inner
      in if rest = [] then Inr (inner, 0)
         else res_bind (parseImm (CHR ''#'' # tl rest)) (\<lambda>d. Inr (base, d)))"

definition isImm :: "string \<Rightarrow> bool" where
  "isImm s \<longleftrightarrow> s \<noteq> [] \<and> (hd s = CHR ''#'' \<or> hd s = CHR ''$'')"

definition sib :: "byte \<Rightarrow> byte list" where
  "sib rb = (if rb AND 7 = 4 then [0x24] else [])"

definition parseMov :: "string list \<Rightarrow> byte list res" where
  "parseMov t =
     res_bind (tok t 1) (\<lambda>dst. res_bind (tok t 2) (\<lambda>src.
       if dst = [] \<or> hd dst \<noteq> CHR ''['' then
         res_bind (parseReg64 src) (\<lambda>rs. res_bind (parseReg64 dst) (\<lambda>rd.
           let rex = 0x48 OR (if rs AND 8 \<noteq> 0 then 0x04 else 0) OR (if rd AND 8 \<noteq> 0 then 0x01 else 0)
           in Inr [rex, 0x89, 0xc0 OR push_bit 3 (rs AND 7) OR (rd AND 7)]))
       else
         res_bind (parseMem dst) (\<lambda>(base, disp). res_bind (parseReg64 base) (\<lambda>rb.
           let (md, d) = dispEncoding (word_of_int disp)
           in if isImm src
              then res_bind (parseImm src) (\<lambda>n.
                Inr ([0x48, 0xc7, push_bit 6 md OR rb] @ sib rb @ d @ imm32 (word_of_int n)))
              else res_bind (parseReg64 src) (\<lambda>rs.
                let rex = 0x48 OR (if rs AND 8 \<noteq> 0 then 0x04 else 0)
                in Inr ([rex, 0x89, push_bit 6 md OR push_bit 3 (rs AND 7) OR rb] @ sib rb @ d))))))"

definition parseLea :: "string list \<Rightarrow> byte list res" where
  "parseLea t =
     res_bind (tok t 1) (\<lambda>t1. res_bind (parseReg64 t1) (\<lambda>dst.
     res_bind (tok t 2) (\<lambda>t2. res_bind (parseMem t2) (\<lambda>(base, disp).
     res_bind (parseReg64 base) (\<lambda>rb.
       let (md, d) = dispEncoding (word_of_int disp);
           rex = 0x48 OR (if dst AND 8 \<noteq> 0 then 0x04 else 0)
       in Inr ([rex, 0x8d, push_bit 6 md OR push_bit 3 (dst AND 7) OR rb] @ sib rb @ d))))))"

definition parseIns_amd64 :: "string \<Rightarrow> byte list res" where
  "parseIns_amd64 s =
     (let t = tokenize_amd64 s
      in res_bind (tok t 0) (\<lambda>m.
        if m = ''PUSH'' then res_bind (tok t 1) (\<lambda>r. res_bind (parseReg64 r) (\<lambda>b. Inr [0x50 OR b]))
        else if m = ''POP'' then res_bind (tok t 1) (\<lambda>r. res_bind (parseReg64 r) (\<lambda>b. Inr [0x58 OR b]))
        else if m = ''SUB'' then
          res_bind (tok t 2) (\<lambda>r. res_bind (parseImm r) (\<lambda>n. Inr ([0x48, 0x81, 0xec] @ imm32 (word_of_int n))))
        else if m = ''ADD'' then
          res_bind (tok t 2) (\<lambda>r. res_bind (parseImm r) (\<lambda>n. Inr ([0x48, 0x81, 0xc4] @ imm32 (word_of_int n))))
        else if m = ''MOV'' then parseMov t
        else if m = ''LEA'' then parseLea t
        else if m = ''MOVL'' then
          res_bind (tok t 2) (\<lambda>r. res_bind (parseImm r) (\<lambda>n. Inr (0xb8 # imm32 (word_of_int n))))
        else if m = ''MOVABS'' then
          res_bind (tok t 2) (\<lambda>r. res_bind (parseImm r) (\<lambda>n. Inr ([0x49, 0xbc] @ le_bytes 8 (word_of_int n))))
        else if m = ''CALL'' then Inr [0x41, 0xff, 0xd4]
        else if m = ''RET'' then Inr [0xc3]
        else Inl ''weave: unknown instruction''))"

definition asm_amd64 :: "string \<Rightarrow> int list \<Rightarrow> byte list res" where
  "asm_amd64 fmt as = parseIns_amd64 (sprintf fmt as)"

section \<open>The trampoline\<close>

definition prologue_amd64 :: "byte list res" where
  "prologue_amd64 = concat_res
     [asm_amd64 ''PUSH RBP'' [], asm_amd64 ''MOV RBP, RSP'' [],
      asm_amd64 ''SUB RSP, #%d'' [int jitFrameSize_amd64]]"

definition spill_amd64 :: "byte list res" where
  "spill_amd64 = concat_res
     [asm_amd64 ''MOV [RSP], R11'' [],
      asm_amd64 ''LEA RDX, [RSP+%d]'' [int (jitFrameSize_amd64 + 16)],
      asm_amd64 ''MOV [RSP+8], RDX'' []]"

text \<open>The pointer words of the results are zeroed; \<open>disp\<close> is an \<open>int32\<close>.\<close>

definition zero_amd64 :: "stubShape \<Rightarrow> byte list res" where
  "zero_amd64 sh = concat_res (map (\<lambda>i.
       if retPtrs sh AND push_bit i 1 \<noteq> 0
       then (let disp = word_of_int (int (argWords sh + i)) * 8 :: 32 word
             in asm_amd64 ''MOV [RDX+%d], #0'' [sint disp])
       else Inr []) [0..<retWords sh])"

definition shift_amd64 :: "byte list res" where
  "shift_amd64 = concat_res (map (\<lambda>ins. asm_amd64 ins [])
     [''MOV R11, R10'', ''MOV R10, R9'', ''MOV R9, R8'', ''MOV R8, RSI'', ''MOV RSI, RDI'',
      ''MOV RDI, RCX'', ''MOV RCX, RBX'', ''MOV RBX, RAX''])"

definition call_amd64 :: "stubShape \<Rightarrow> 64 word \<Rightarrow> byte list res" where
  "call_amd64 sh dispatch = concat_res
     [asm_amd64 ''MOVL EAX, #%d'' [int (sh_index sh)],
      asm_amd64 ''MOVABS R12, #%d'' [uint dispatch], asm_amd64 ''CALL R12'' []]"

definition epilogue_amd64 :: "byte list res" where
  "epilogue_amd64 = concat_res
     [asm_amd64 ''ADD RSP, #%d'' [int jitFrameSize_amd64], asm_amd64 ''POP RBP'' [], asm_amd64 ''RET'' []]"

definition jitStubCode_amd64 :: "stubShape \<Rightarrow> 64 word \<Rightarrow> (byte list \<times> byte list) res" where
  "jitStubCode_amd64 sh dispatch =
     res_bind prologue_amd64 (\<lambda>pro.
     res_bind (concat_res [spill_amd64, zero_amd64 sh, shift_amd64, call_amd64 sh dispatch, epilogue_amd64])
       (\<lambda>body.
         let code = pro @ body; spMoved = int (length pro); n = int (length code)
         in Inr (code, encodePCSP
              [\<lparr>pe_pc = 1, spdelta = 0\<rparr>, \<lparr>pe_pc = spMoved, spdelta = 8\<rparr>,
               \<lparr>pe_pc = n - 2, spdelta = of_nat jitSPDelta_amd64\<rparr>, \<lparr>pe_pc = n - 1, spdelta = 8\<rparr>,
               \<lparr>pe_pc = n, spdelta = 0\<rparr>])))"

end
