(* ===== verification/MachineAmd64.thy ===== *)
theory MachineAmd64
  imports AsmAmd64 StubFrame
begin

text \<open>
  The part of x86-64 the trampoline uses: decoding of the instructions from their bytes (REX prefix,
  opcode, ModRM, SIB, displacement and immediate), their execution, and the proof that the text of
  jitcode_amd64.go assembles to the bytes of the intended instructions.
\<close>

section \<open>Instructions\<close>

text \<open>Registers by number: RAX RCX RDX RBX RSP RBP RSI RDI R8 ... R15.\<close>

datatype x86 =
    XPush nat
  | XPop nat
  | XAddI nat "32 word"
  | XSubI nat "32 word"
  | XMov nat nat
  | XStore nat "64 word" nat
  | XStoreI nat "64 word" "32 word"
  | XLea nat nat "64 word"
  | XMovI32 nat "32 word"
  | XMovI64 nat "64 word"
  | XCall nat
  | XRet

section \<open>Decoding\<close>

datatype operand = OReg nat | OMem nat "64 word"

definition x86_disp :: "nat \<Rightarrow> byte list \<Rightarrow> (64 word \<times> nat) option" where
  "x86_disp md bs =
     (if md = 0 then Some (0, 0)
      else if md = 1 then (case bs of [] \<Rightarrow> None | b # _ \<Rightarrow> Some (scast b, 1))
      else (case rd32 bs of None \<Rightarrow> None | Some v \<Rightarrow> Some (scast v, 4)))"

text \<open>
  ModRM: the register operand, the other operand, and the length. The only SIB byte is the one for RSP
  as a plain base; RIP-relative addresses are not decoded.
\<close>

definition modrm :: "nat \<Rightarrow> nat \<Rightarrow> byte list \<Rightarrow> (nat \<times> operand \<times> nat) option" where
  "modrm rx bx bs =
     (case bs of [] \<Rightarrow> None
      | m # ys \<Rightarrow>
        (let md = unat m div 64; rg = unat m div 8 mod 8 + rx; rm = unat m mod 8
         in if md = 3 then Some (rg, OReg (rm + bx), 1)
            else if rm = 4 then
              (case ys of [] \<Rightarrow> None
               | s # zs \<Rightarrow>
                   if s = 0x24 then (case x86_disp md zs of None \<Rightarrow> None
                                     | Some (d, k) \<Rightarrow> Some (rg, OMem (4 + bx) d, 2 + k))
                   else None)
            else if md = 0 \<and> rm = 5 then None
            else (case x86_disp md ys of None \<Rightarrow> None | Some (d, k) \<Rightarrow> Some (rg, OMem (rm + bx) d, 1 + k))))"

text \<open>The instructions with a ModRM byte; \<open>imm\<close> is the immediate behind it, if there are four bytes.\<close>

definition x86_rest :: "bool \<Rightarrow> byte \<Rightarrow> nat \<Rightarrow> operand \<Rightarrow> nat \<Rightarrow> 32 word option \<Rightarrow> (x86 \<times> nat) option" where
  "x86_rest w op rg opd k imm =
     (if op = 0x89 \<and> w then
        Some (case opd of OReg r \<Rightarrow> XMov r rg | OMem b d \<Rightarrow> XStore b d rg, 1 + k)
      else if op = 0x8d \<and> w then
        (case opd of OReg r \<Rightarrow> None | OMem b d \<Rightarrow> Some (XLea rg b d, 1 + k))
      else if op = 0xff \<and> rg = 2 then
        (case opd of OReg r \<Rightarrow> Some (XCall r, 1 + k) | OMem b d \<Rightarrow> None)
      else if (op = 0x81 \<or> op = 0xc7) \<and> w then
        (case imm of None \<Rightarrow> None
         | Some v \<Rightarrow>
           (case opd of
              OReg r \<Rightarrow> if op = 0x81 \<and> rg = 0 then Some (XAddI r v, 5 + k)
                        else if op = 0x81 \<and> rg = 5 then Some (XSubI r v, 5 + k) else None
            | OMem b d \<Rightarrow> if op = 0xc7 \<and> rg = 0 then Some (XStoreI b d v, 5 + k) else None))
      else None)"

definition x86_op :: "bool \<Rightarrow> nat \<Rightarrow> nat \<Rightarrow> byte list \<Rightarrow> (x86 \<times> nat) option" where
  "x86_op w rx bx bs =
     (case bs of [] \<Rightarrow> None
      | op # ys \<Rightarrow>
        if unat op div 8 = 10 then Some (XPush (unat op mod 8 + bx), 1)
        else if unat op div 8 = 11 then Some (XPop (unat op mod 8 + bx), 1)
        else if op = 0xc3 then Some (XRet, 1)
        else if unat op div 8 = 23 then
          (if w then (if length ys < 8 then None else Some (XMovI64 (unat op mod 8 + bx) (word_of (take 8 ys)), 9))
           else (case rd32 ys of None \<Rightarrow> None | Some v \<Rightarrow> Some (XMovI32 (unat op mod 8 + bx) v, 5)))
        else
          (case modrm rx bx ys of None \<Rightarrow> None
           | Some (rg, opd, k) \<Rightarrow> x86_rest w op rg opd k (rd32 (drop k ys))))"

definition decode_x86 :: "byte list \<Rightarrow> (x86 \<times> nat) option" where
  "decode_x86 bs =
     (case bs of [] \<Rightarrow> None
      | p # xs \<Rightarrow>
        if unat p div 16 = 4
        then (case x86_op (bit p 3) (if bit p 2 then 8 else 0) (if bit p 0 then 8 else 0) xs of
                None \<Rightarrow> None | Some (i, k) \<Rightarrow> Some (i, 1 + k))
        else x86_op False 0 0 bs)"

section \<open>Execution\<close>

record xstate =
  xr :: "nat \<Rightarrow> 64 word"
  xf :: "nat \<Rightarrow> 64 word"
  xm :: ram

definition set_xr :: "nat \<Rightarrow> 64 word \<Rightarrow> xstate \<Rightarrow> xstate" where
  "set_xr r v s = s\<lparr>xr := (xr s)(r := v)\<rparr>"

text \<open>A call runs the callee up to its return.\<close>

fun exec_x86 :: "(64 word \<Rightarrow> xstate \<Rightarrow> xstate) \<Rightarrow> x86 \<Rightarrow> xstate \<Rightarrow> xstate" where
  "exec_x86 callee (XPush r) s = s\<lparr>xr := (xr s)(4 := xr s 4 - 8), xm := store64 (xr s 4 - 8) (xr s r) (xm s)\<rparr>"
| "exec_x86 callee (XPop r) s = set_xr r (load64 (xm s) (xr s 4)) (set_xr 4 (xr s 4 + 8) s)"
| "exec_x86 callee (XAddI r v) s = set_xr r (xr s r + scast v) s"
| "exec_x86 callee (XSubI r v) s = set_xr r (xr s r - scast v) s"
| "exec_x86 callee (XMov d r) s = set_xr d (xr s r) s"
| "exec_x86 callee (XStore b d r) s = s\<lparr>xm := store64 (xr s b + d) (xr s r) (xm s)\<rparr>"
| "exec_x86 callee (XStoreI b d v) s = s\<lparr>xm := store64 (xr s b + d) (scast v) (xm s)\<rparr>"
| "exec_x86 callee (XLea d b o') s = set_xr d (xr s b + o') s"
| "exec_x86 callee (XMovI32 r v) s = set_xr r (ucast v) s"
| "exec_x86 callee (XMovI64 r v) s = set_xr r v s"
| "exec_x86 callee (XCall r) s = callee (xr s r) s"
| "exec_x86 callee XRet s = set_xr 4 (xr s 4 + 8) s"

section \<open>Decoding looks at a prefix\<close>

lemma rd32_append: "rd32 bs \<noteq> None \<Longrightarrow> rd32 (bs @ r) = rd32 bs"
  by (cases bs rule: rd32.cases) auto

lemma rd32_length: "rd32 bs = Some v \<Longrightarrow> 4 \<le> length bs"
  by (cases bs rule: rd32.cases) auto

lemma x86_disp_append:
  assumes "x86_disp md bs \<noteq> None"
  shows "x86_disp md (bs @ r) = x86_disp md bs"
proof (cases "md = 0 \<or> md = 1")
  case True
  with assms show ?thesis by (cases bs) (auto simp: x86_disp_def)
next
  case False
  with assms have "rd32 bs \<noteq> None" by (auto simp: x86_disp_def split: option.splits)
  with False show ?thesis by (simp add: x86_disp_def rd32_append)
qed

lemma x86_disp_length: "x86_disp md bs = Some (d, k) \<Longrightarrow> k \<le> length bs"
  by (cases bs) (auto simp: x86_disp_def split: if_splits option.splits dest: rd32_length)

lemma modrm_append:
  assumes "modrm rx bx bs \<noteq> None"
  shows "modrm rx bx (bs @ r) = modrm rx bx bs"
proof (cases bs)
  case (Cons m ys)
  let ?md = "unat m div 64"
  consider (reg) "?md = 3" | (sib) "?md \<noteq> 3" "unat m mod 8 = 4" | (mem) "?md \<noteq> 3" "unat m mod 8 \<noteq> 4"
    by blast
  then show ?thesis
  proof cases
    case reg
    with Cons show ?thesis by (simp add: modrm_def Let_def)
  next
    case sib
    with assms Cons obtain z zs where ys: "ys = z # zs" by (cases ys) (auto simp: modrm_def Let_def)
    with assms Cons sib have "z = 0x24" "x86_disp ?md zs \<noteq> None"
      by (auto simp: modrm_def Let_def split: if_splits option.splits)
    with Cons ys sib x86_disp_append [of ?md zs r] show ?thesis by (simp add: modrm_def Let_def)
  next
    case mem
    with assms Cons have "x86_disp ?md ys \<noteq> None" by (auto simp: modrm_def Let_def split: if_splits option.splits)
    with Cons mem x86_disp_append [of ?md ys r] show ?thesis by (simp add: modrm_def Let_def)
  qed
qed (use assms in \<open>simp add: modrm_def\<close>)

lemma modrm_length: "modrm rx bx bs = Some (g, opd, k) \<Longrightarrow> k \<le> length bs"
  by (auto simp: modrm_def Let_def split: list.splits if_splits option.splits dest: x86_disp_length)

lemma x86_op_append:
  assumes "x86_op w rx bx bs \<noteq> None"
  shows "x86_op w rx bx (bs @ r) = x86_op w rx bx bs"
proof (cases bs)
  case (Cons op ys)
  consider (early) "unat op div 8 \<in> {10, 11, 23} \<or> op = 0xc3" | (late) "unat op div 8 \<notin> {10, 11, 23}" "op \<noteq> 0xc3"
    by blast
  then show ?thesis
  proof cases
    case early
    show ?thesis
    proof (cases "unat op div 8 = 23 \<and> op \<noteq> 0xc3")
      case False
      with early Cons show ?thesis by (auto simp: x86_op_def)
    next
      case True
      show ?thesis
      proof (cases w)
        case True
        with \<open>unat op div 8 = 23 \<and> op \<noteq> 0xc3\<close> assms Cons show ?thesis by (simp add: x86_op_def split: if_splits)
      next
        case False
        with True assms Cons have "rd32 ys \<noteq> None" by (auto simp: x86_op_def split: option.splits)
        with True False Cons rd32_append [of ys r] show ?thesis by (simp add: x86_op_def)
      qed
    qed
  next
    case late
    then have e: "x86_op w rx bx (op # zs) = (case modrm rx bx zs of None \<Rightarrow> None | Some (rg, opd, k) \<Rightarrow>
        x86_rest w op rg opd k (rd32 (drop k zs)))" for zs
      by (simp add: x86_op_def)
    with assms Cons obtain g opd k where m: "modrm rx bx ys = Some (g, opd, k)"
      by (cases "modrm rx bx ys") auto
    with modrm_append [of rx bx ys r] modrm_length [OF m] have m': "modrm rx bx (ys @ r) = Some (g, opd, k)" "k \<le> length ys"
      by simp_all
    show ?thesis
    proof (cases "rd32 (drop k ys)")
      case None
      with assms Cons e m have "x86_rest w op g opd k None \<noteq> None" by simp
      then have "x86_rest w op g opd k v = x86_rest w op g opd k None" for v
        by (auto simp: x86_rest_def split: if_splits)
      with Cons e m m' None show ?thesis by simp
    next
      case (Some v)
      then have "rd32 (drop k ys @ r) = Some v" using rd32_append [of "drop k ys" r] by simp
      with Cons e m m' Some show ?thesis by simp
    qed
  qed
qed (use assms in \<open>simp add: x86_op_def\<close>)

interpretation amd64: instruction_set decode_x86 "exec_x86 callee" for callee
proof
  fix bs i k rest
  assume d: "decode_x86 bs = Some (i, k)"
  then obtain p xs where bs: "bs = p # xs" by (cases bs) (auto simp: decode_x86_def)
  show "decode_x86 (bs @ rest) = Some (i, k)"
  proof (cases "unat p div 16 = 4")
    case True
    let ?op = "x86_op (bit p 3) (if bit p 2 then 8 else 0) (if bit p 0 then 8 else 0)"
    from True d bs have "?op xs \<noteq> None" by (auto simp: decode_x86_def split: option.splits)
    from x86_op_append [OF this] True d bs show ?thesis by (simp add: decode_x86_def)
  next
    case False
    with d bs x86_op_append [of False 0 0 bs rest] show ?thesis by (simp add: decode_x86_def)
  qed
qed

end
