(* ===== verification/TrampAmd64.thy ===== *)
theory TrampAmd64
  imports MachineAmd64
begin

text \<open>
  The amd64 trampoline: the bytes \<open>jitStubCode\<close> emits are those of the intended instructions, and
  running them calls \<open>Dispatch\<close> with the method index, the caller's registers moved up by one, the
  address of the caller's stack area and that area's pointer results cleared, and returns to the
  caller with the registers \<open>Dispatch\<close> left.
\<close>

section \<open>From text to bytes\<close>

lemma rd32_imm32: "rd32 (imm32 v @ r) = Some v"
  unfolding imm32_def by (rule rd32_bytes)

lemma length_imm32 [simp]: "length (imm32 v) = 4"
  by (simp add: imm32_def)

text \<open>The separators of the tokenizer do not occur in numbers.\<close>

lemma dec_no_sep:
  "c \<in> set (dec i) \<Longrightarrow> \<not> (c = CHR '' '' \<or> c = CHR 0x09 \<or> c = CHR '','')"
  using dec_chars [of c i] by (auto simp: is_digit_def)

lemma dec_no_plus: "c \<in> set (dec i) \<Longrightarrow> c \<noteq> CHR ''+''"
  using dec_chars [of c i] by (auto simp: is_digit_def)

lemmas asm_amd64_defs = asm_amd64_def parseIns_amd64_def tokenize_amd64_def fieldsFunc_def tok_def

lemma asm_MOVL:
  "i < 2 ^ 31 \<Longrightarrow> asm_amd64 ''MOVL EAX, #%d'' [int i] = Inr (0xb8 # imm32 (of_nat i))"
  by (simp add: asm_amd64_defs fields_from_no_sep dec_no_sep parseImm_dec)

lemma asm_MOVABS:
  "uint d < 2 ^ 63 \<Longrightarrow> asm_amd64 ''MOVABS R12, #%d'' [uint d] = Inr ([0x49, 0xbc] @ le_bytes 8 d)"
proof -
  assume "uint d < 2 ^ 63"
  moreover have "- (2 ^ 63) \<le> uint d" by (rule order_trans [OF _ uint_ge_0]) simp
  ultimately have "parseImm (CHR ''#'' # dec (uint d)) = Inr (uint d)" by (intro parseImm_dec)
  then show ?thesis by (simp add: asm_amd64_defs fields_from_no_sep dec_no_sep)
qed

definition zero_ins :: "nat \<Rightarrow> byte list" where
  "zero_ins n = (let (md, d) = dispEncoding (of_nat n) in [0x48, 0xc7, push_bit 6 md OR 2] @ d @ imm32 0)"

lemma trim_brackets_mem: "trim_brackets (CHR ''['' # xs @ [CHR '']'']) = xs"
  by (simp add: trim_brackets_def)

lemma parseMem_RDX:
  assumes "- (2 ^ 63) \<le> i" "i < 2 ^ 63"
  shows "parseMem (''[RDX+'' @ dec i @ '']'') = Inr (''RDX'', i)"
proof -
  have "trim_brackets (''[RDX+'' @ dec i @ '']'') = ''RDX+'' @ dec i"
    using trim_brackets_mem [of "''RDX+'' @ dec i"] by simp
  then show ?thesis using parseImm_dec [OF assms] by (simp add: parseMem_def)
qed

lemma asm_zero:
  assumes "i < 2 ^ 31"
  shows "asm_amd64 ''MOV [RDX+%d], #0'' [int i] = Inr (zero_ins i)"
proof -
  let ?sep = "\<lambda>r. r = CHR '' '' \<or> r = CHR 0x09 \<or> r = CHR '',''"
  have f: "fields_from ?sep ''[RDX+'' (dec (int i) @ CHR '']'' # r) = fields_from ?sep (''[RDX+'' @ dec (int i) @ '']'') r" for r
    using fields_from_append [of "dec (int i)" ?sep "''[RDX+''" "CHR '']'' # r"] dec_no_sep [of _ "int i"] by simp
  have "tokenize_amd64 (sprintf ''MOV [RDX+%d], #0'' [int i]) = [''MOV'', ''[RDX+'' @ dec (int i) @ '']'', ''#0'']"
    by (simp add: tokenize_amd64_def fieldsFunc_def f)
  moreover have "parseMov [''MOV'', ''[RDX+'' @ dec (int i) @ '']'', ''#0''] = Inr (zero_ins i)"
  proof -
    have "parseMem (''[RDX+'' @ dec (int i) @ '']'') = Inr (''RDX'', int i)"
      using assms by (intro parseMem_RDX) auto
    moreover have "parseImm ''#0'' = Inr 0" by code_simp
    ultimately show ?thesis
      by (simp add: parseMov_def tok_def parseReg64_def isImm_def sib_def zero_ins_def split: prod.split)
  qed
  ultimately show ?thesis by (simp add: asm_amd64_def parseIns_amd64_def tok_def)
qed

section \<open>The instructions of the trampoline\<close>

definition pro_ins :: "x86 list" where
  "pro_ins = [XPush 5, XMov 5 4, XSubI 4 0xd0]"

definition mid_ins :: "stubShape \<Rightarrow> 64 word \<Rightarrow> x86 list" where
  "mid_ins sh d =
     [XStore 4 0 11, XLea 2 4 0xe0, XStore 4 8 2] @
     map (\<lambda>w. XStoreI 2 (of_nat (8 * w)) 0) (zeroed sh) @
     [XMov 11 10, XMov 10 9, XMov 9 8, XMov 8 6, XMov 6 7, XMov 7 1, XMov 1 3, XMov 3 0] @
     [XMovI32 0 (of_nat (sh_index sh)), XMovI64 12 d]"

definition epi_ins :: "x86 list" where
  "epi_ins = [XAddI 4 0xd0, XPop 5, XRet]"

definition stub_ins :: "stubShape \<Rightarrow> 64 word \<Rightarrow> x86 list" where
  "stub_ins sh d = pro_ins @ mid_ins sh d @ [XCall 12] @ epi_ins"

definition pro_bytes :: "byte list list" where
  "pro_bytes = [[0x55], [0x48, 0x89, 0xe5], [0x48, 0x81, 0xec, 0xd0, 0, 0, 0]]"

definition mid_bytes :: "stubShape \<Rightarrow> 64 word \<Rightarrow> byte list list" where
  "mid_bytes sh d =
     [[0x4c, 0x89, 0x1c, 0x24], [0x48, 0x8d, 0x94, 0x24, 0xe0, 0, 0, 0], [0x48, 0x89, 0x54, 0x24, 0x08]] @
     map (\<lambda>w. zero_ins (8 * w)) (zeroed sh) @
     [[0x4d, 0x89, 0xd3], [0x4d, 0x89, 0xca], [0x4d, 0x89, 0xc1], [0x49, 0x89, 0xf0], [0x48, 0x89, 0xfe],
      [0x48, 0x89, 0xcf], [0x48, 0x89, 0xd9], [0x48, 0x89, 0xc3]] @
     [0xb8 # imm32 (of_nat (sh_index sh)), [0x49, 0xbc] @ le_bytes 8 d]"

definition epi_bytes :: "byte list list" where
  "epi_bytes = [[0x48, 0x81, 0xc4, 0xd0, 0, 0, 0], [0x5d], [0xc3]]"

definition stub_bytes :: "stubShape \<Rightarrow> 64 word \<Rightarrow> byte list list" where
  "stub_bytes sh d = pro_bytes @ mid_bytes sh d @ [[0x41, 0xff, 0xd4]] @ epi_bytes"

definition stub_pcsp :: "int \<Rightarrow> pcspEntry list" where
  "stub_pcsp n =
     [\<lparr>pe_pc = 1, spdelta = 0\<rparr>, \<lparr>pe_pc = 11, spdelta = 8\<rparr>, \<lparr>pe_pc = n - 2, spdelta = 0xd8\<rparr>,
      \<lparr>pe_pc = n - 1, spdelta = 8\<rparr>, \<lparr>pe_pc = n, spdelta = 0\<rparr>]"

text \<open>A shape whose index and area the assembler can express, and a code address below \<open>2^63\<close>.\<close>

definition stub_fits :: "stubShape \<Rightarrow> 64 word \<Rightarrow> bool" where
  "stub_fits sh d \<longleftrightarrow> sh_index sh < 2 ^ 31 \<and> words sh \<le> 2 ^ 20 \<and> uint d < 2 ^ 63"

lemma text_consts:
  "prologue_amd64 = Inr (concat pro_bytes)"
  "spill_amd64 = Inr [0x4c, 0x89, 0x1c, 0x24, 0x48, 0x8d, 0x94, 0x24, 0xe0, 0, 0, 0, 0x48, 0x89, 0x54, 0x24, 0x08]"
  "shift_amd64 = Inr [0x4d, 0x89, 0xd3, 0x4d, 0x89, 0xca, 0x4d, 0x89, 0xc1, 0x49, 0x89, 0xf0, 0x48, 0x89, 0xfe,
     0x48, 0x89, 0xcf, 0x48, 0x89, 0xd9, 0x48, 0x89, 0xc3]"
  "epilogue_amd64 = Inr (concat epi_bytes)"
  "asm_amd64 ''CALL R12'' [] = Inr [0x41, 0xff, 0xd4]"
  by code_simp+

lemma sint_of_small: "n < 2 ^ 31 \<Longrightarrow> sint (word_of_int (int n) :: 32 word) = int n"
  unfolding sint_sbintrunc' by (rule signed_take_bit_int_eq_self) auto

lemma sint_disp: "w < 2 ^ 20 \<Longrightarrow> sint (word_of_int (int w) * 8 :: 32 word) = int (8 * w)"
proof -
  assume w: "w < 2 ^ 20"
  have e: "(word_of_int (int w) * 8 :: 32 word) = word_of_int (int (8 * w))" by (simp add: mult.commute)
  show ?thesis unfolding e by (rule sint_of_small) (use w in simp)
qed

lemma text_zero:
  assumes "words sh \<le> 2 ^ 20"
  shows "zero_amd64 sh = Inr (concat (map (\<lambda>w. zero_ins (8 * w)) (zeroed sh)))"
proof -
  define f where "f = (\<lambda>i. if retPtrs sh AND push_bit i 1 \<noteq> 0
       then (let disp = word_of_int (int (argWords sh + i)) * 8 :: 32 word
             in asm_amd64 ''MOV [RDX+%d], #0'' [sint disp]) else Inr [])"
  have f: "f i = Inr (if bit (retPtrs sh) i then zero_ins (8 * (argWords sh + i)) else [])" if "i < retWords sh" for i
  proof -
    have small: "argWords sh + i < 2 ^ 20" using that assms by (simp add: words_def)
    then have "asm_amd64 ''MOV [RDX+%d], #0'' [int (8 * (argWords sh + i))] = Inr (zero_ins (8 * (argWords sh + i)))"
      by (intro asm_zero) simp
    then show ?thesis unfolding f_def bit_iff_and_push Let_def sint_disp [OF small] by simp
  qed
  have "concat_res (map f [0..<retWords sh]) =
      Inr (concat (map (\<lambda>i. if bit (retPtrs sh) i then zero_ins (8 * (argWords sh + i)) else []) [0..<retWords sh]))"
    by (rule concat_res_Inr) (simp add: f)
  moreover have "zero_amd64 sh = concat_res (map f [0..<retWords sh])" by (simp only: zero_amd64_def f_def)
  ultimately show ?thesis by (simp only: concat_if_filter zeroed_def map_map comp_def)
qed

lemma length_pro_bytes: "length (concat pro_bytes) = 11" "length (concat epi_bytes) = 9"
  by (simp_all add: pro_bytes_def epi_bytes_def)

text \<open>The text of jitcode_amd64.go assembles to these bytes.\<close>

lemma jitStubCode_amd64_bytes:
  assumes "stub_fits sh d"
  shows "jitStubCode_amd64 sh d =
    Inr (concat (stub_bytes sh d), encodePCSP (stub_pcsp (int (length (concat (stub_bytes sh d))))))"
proof -
  have call: "call_amd64 sh d = Inr (0xb8 # imm32 (of_nat (sh_index sh)) @ [0x49, 0xbc] @ le_bytes 8 d @ [0x41, 0xff, 0xd4])"
    using assms asm_MOVL [of "sh_index sh"] asm_MOVABS [of d] text_consts(5)
    by (simp add: call_amd64_def stub_fits_def)
  have zero: "zero_amd64 sh = Inr (concat (map (\<lambda>w. zero_ins (8 * w)) (zeroed sh)))"
    using assms text_zero by (simp add: stub_fits_def)
  have "concat_res [spill_amd64, zero_amd64 sh, shift_amd64, call_amd64 sh d, epilogue_amd64] =
      Inr (concat (mid_bytes sh d @ [[0x41, 0xff, 0xd4]] @ epi_bytes))"
    unfolding text_consts(2-4) zero call concat_res.simps res_bind_Inr by (simp add: mid_bytes_def)
  moreover have "concat (stub_bytes sh d) = concat pro_bytes @ concat (mid_bytes sh d @ [[0x41, 0xff, 0xd4]] @ epi_bytes)"
    by (simp add: stub_bytes_def)
  ultimately show ?thesis
    by (simp only: jitStubCode_amd64_def text_consts(1) res_bind_Inr Let_def length_pro_bytes(1) stub_pcsp_def
        jitSPDelta_amd64_def jitFrameSize_amd64_def) simp
qed

section \<open>From bytes to instructions\<close>

lemma decode_consts:
  "decode_x86 [0x55] = Some (XPush 5, 1)" "decode_x86 [0x48, 0x89, 0xe5] = Some (XMov 5 4, 3)"
  "decode_x86 [0x48, 0x81, 0xec, 0xd0, 0, 0, 0] = Some (XSubI 4 0xd0, 7)"
  "decode_x86 [0x4c, 0x89, 0x1c, 0x24] = Some (XStore 4 0 11, 4)"
  "decode_x86 [0x48, 0x8d, 0x94, 0x24, 0xe0, 0, 0, 0] = Some (XLea 2 4 0xe0, 8)"
  "decode_x86 [0x48, 0x89, 0x54, 0x24, 0x08] = Some (XStore 4 8 2, 5)"
  "decode_x86 [0x4d, 0x89, 0xd3] = Some (XMov 11 10, 3)" "decode_x86 [0x4d, 0x89, 0xca] = Some (XMov 10 9, 3)"
  "decode_x86 [0x4d, 0x89, 0xc1] = Some (XMov 9 8, 3)" "decode_x86 [0x49, 0x89, 0xf0] = Some (XMov 8 6, 3)"
  "decode_x86 [0x48, 0x89, 0xfe] = Some (XMov 6 7, 3)" "decode_x86 [0x48, 0x89, 0xcf] = Some (XMov 7 1, 3)"
  "decode_x86 [0x48, 0x89, 0xd9] = Some (XMov 1 3, 3)" "decode_x86 [0x48, 0x89, 0xc3] = Some (XMov 3 0, 3)"
  "decode_x86 [0x41, 0xff, 0xd4] = Some (XCall 12, 3)"
  "decode_x86 [0x48, 0x81, 0xc4, 0xd0, 0, 0, 0] = Some (XAddI 4 0xd0, 7)"
  "decode_x86 [0x5d] = Some (XPop 5, 1)" "decode_x86 [0xc3] = Some (XRet, 1)"
  by code_simp+

lemma decode_index: "decode_x86 (0xb8 # imm32 v) = Some (XMovI32 0 v, 5)"
  using rd32_imm32 [of v "[]"] by (simp add: decode_x86_def x86_op_def)

lemma decode_dispatch: "decode_x86 ([0x49, 0xbc] @ le_bytes 8 d) = Some (XMovI64 12 d, 10)"
  by (simp add: decode_x86_def x86_op_def word_of_le_bytes bit_numeral_word_iff)

lemma decode_zero:
  assumes "n < 2 ^ 31"
  shows "decode_x86 (zero_ins n) = Some (XStoreI 2 (of_nat n) 0, length (zero_ins n))"
proof -
  let ?d = "of_nat n :: 32 word"
  have s: "sint ?d = int n" using sint_of_small [OF assms] by simp
  have u: "uint ?d = int n" using assms by (simp add: unsigned_of_nat take_bit_nat_eq_self)
  have c: "scast (0 :: 32 word) = (0 :: 64 word)" by simp
  consider (none) "n = 0" | (small) "0 < n" "n \<le> 127" | (large) "127 < n" by linarith
  then show ?thesis
  proof cases
    case none
    then show ?thesis
      using rd32_imm32 [of 0 "[]"]
      by (simp add: zero_ins_def dispEncoding_def decode_x86_def x86_op_def modrm_def x86_disp_def x86_rest_def
          bit_numeral_word_iff Let_def)
  next
    case small
    have "?d \<noteq> 0" using small s by auto
    then have e: "dispEncoding ?d = (1, [ucast ?d])" using small s by (simp add: dispEncoding_def)
    have "(ucast ?d :: byte) = word_of_int (int n)" unfolding ucast_eq u ..
    moreover have "sint (word_of_int (int n) :: byte) = int n"
      unfolding sint_sbintrunc' using small by (intro signed_take_bit_int_eq_self) auto
    ultimately have "scast (ucast ?d :: byte) = (of_nat n :: 64 word)" by (simp add: scast_eq)
    then show ?thesis
      using rd32_imm32 [of 0 "[]"] e
      by (simp add: zero_ins_def decode_x86_def x86_op_def modrm_def x86_disp_def x86_rest_def
          bit_numeral_word_iff Let_def)
  next
    case large
    have "?d \<noteq> 0" using large s by auto
    then have e: "dispEncoding ?d = (2, imm32 ?d)" using large s by (simp add: dispEncoding_def)
    have "scast ?d = (of_nat n :: 64 word)" by (simp add: scast_eq s)
    then show ?thesis
      using rd32_imm32 [of ?d "imm32 0"] rd32_imm32 [of 0 "[]"] e
      by (simp add: zero_ins_def decode_x86_def x86_op_def modrm_def x86_disp_def x86_rest_def
          bit_numeral_word_iff Let_def)
  qed
qed

lemma stub_encodes:
  assumes "stub_fits sh d"
  shows "list_all2 amd64.encodes (stub_bytes sh d) (stub_ins sh d)"
proof -
  have z: "list_all2 amd64.encodes (map (\<lambda>w. zero_ins (8 * w)) ws) (map (\<lambda>w. XStoreI 2 (of_nat (8 * w)) 0) ws)"
    if "\<forall>w\<in>set ws. 8 * w < 2 ^ 31" for ws
    using that decode_zero [of "8 * _"] by (induction ws) (auto simp: amd64.encodes_def)
  have "\<forall>w\<in>set (zeroed sh). 8 * w < 2 ^ 31"
    using assms zeroed_less [of _ sh] by (fastforce simp: stub_fits_def)
  from z [OF this] show ?thesis
    unfolding stub_bytes_def stub_ins_def pro_bytes_def pro_ins_def mid_bytes_def mid_ins_def epi_bytes_def epi_ins_def
    using decode_consts decode_index [of "of_nat (sh_index sh)"] decode_dispatch [of d]
    by (intro list_all2_appendI) (simp_all add: amd64.encodes_def)
qed

section \<open>Running the trampoline\<close>

lemma exec_zero: "fold (exec_x86 callee) (map (\<lambda>w. XStoreI 2 (of_nat (8 * w)) 0) ws) s =
    s\<lparr>xm := zero_words (xr s 2) ws (xm s)\<rparr>"
proof (induction ws arbitrary: s)
  case (Cons w ws)
  have "exec_x86 callee (XStoreI 2 (of_nat (8 * w)) 0) s = s\<lparr>xm := store64 (xr s 2 + of_nat (8 * w)) 0 (xm s)\<rparr>"
    by simp
  with Cons show ?case by (simp add: zero_words_def del: of_nat_mult exec_x86.simps)
qed (simp add: zero_words_def)

text \<open>
  The state at the call, over the base \<open>p\<close> of the frame: the return address is at \<open>p + 0xd8\<close>, the
  caller's stack area at \<open>p + 0xe0\<close>.
\<close>

definition call_mem :: "stubShape \<Rightarrow> 64 word \<Rightarrow> xstate \<Rightarrow> ram" where
  "call_mem sh p s = frame_mem p 0xe0 [(0xd0, xr s 5), (0, xr s 11), (8, p + 0xe0)] (zeroed sh) (xm s)"

definition call_regs :: "stubShape \<Rightarrow> 64 word \<Rightarrow> 64 word \<Rightarrow> xstate \<Rightarrow> nat \<Rightarrow> 64 word" where
  "call_regs sh d p s = (xr s)(5 := p + 0xd0, 4 := p, 2 := p + 0xe0, 11 := xr s 10, 10 := xr s 9, 9 := xr s 8,
     8 := xr s 6, 6 := xr s 7, 7 := xr s 1, 1 := xr s 3, 3 := xr s 0, 0 := of_nat (sh_index sh), 12 := d)"

lemma run_to_call:
  assumes "sh_index sh < 2 ^ 31"
  shows "fold (exec_x86 callee) (pro_ins @ mid_ins sh d) s =
    s\<lparr>xr := call_regs sh d (xr s 4 - 0xd8) s, xm := call_mem sh (xr s 4 - 0xd8) s\<rparr>"
proof -
  have i: "ucast (of_nat (sh_index sh) :: 32 word) = (of_nat (sh_index sh) :: 64 word)"
    using assms by (simp add: unsigned_of_nat take_bit_nat_eq_self)
  have sc: "scast (0xd0 :: 32 word) = (0xd0 :: 64 word)" by simp
  show ?thesis
    by (simp add: pro_ins_def mid_ins_def exec_zero set_xr_def call_regs_def call_mem_def frame_mem_def put_slots_def i del: of_nat_mult)
qed

lemma frame_ok_amd64:
  "words sh \<le> 2 ^ 20 \<Longrightarrow> frame_ok 0xe0 [(0xd0, xr s 5), (0, xr s 11), (8, p + 0xe0)] (zeroed sh) (words sh)"
  using zeroed_less by (auto simp: frame_ok_def clear_of_def)

lemma call_mem_frame:
  assumes "words sh \<le> 2 ^ 20"
  shows "load64 (call_mem sh p s) p = xr s 11" "load64 (call_mem sh p s) (p + 8) = p + 0xe0"
    and "load64 (call_mem sh p s) (p + 0xd0) = xr s 5"
    and "load64 (call_mem sh p s) (p + 0xd8) = load64 (xm s) (p + 0xd8)"
  using frame_mem_slot [OF frame_ok_amd64 [OF assms, of s p], of 0 _ p "xm s"]
    frame_mem_slot [OF frame_ok_amd64 [OF assms, of s p], of 8 _ p "xm s"]
    frame_mem_slot [OF frame_ok_amd64 [OF assms, of s p], of "0xd0" _ p "xm s"]
    frame_mem_below [OF frame_ok_amd64 [OF assms, of s p], of "0xd8" p "xm s"]
  by (simp_all add: call_mem_def clear_of_def)

text \<open>The caller's stack area: the pointer words of the results are zero, the rest is as it was.\<close>

lemma call_mem_area:
  assumes "words sh \<le> 2 ^ 20" "k < 8 * words sh"
  shows "call_mem sh p s (p + 0xe0 + of_nat k) =
    (if argWords sh \<le> k div 8 \<and> bit (retPtrs sh) (k div 8 - argWords sh) then 0 else xm s (p + 0xe0 + of_nat k))"
proof -
  have "k div 8 < words sh" using assms(2) by auto
  then show ?thesis
    using frame_mem_area [OF frame_ok_amd64 [OF assms(1), of s p] assms(2), of p "xm s"]
    by (simp add: call_mem_def set_zeroed cong: if_cong)
qed

text \<open>Memory above the area and below the frame is untouched.\<close>

lemma call_mem_other:
  "words sh \<le> 2 ^ 20 \<Longrightarrow> 0xe0 + 8 * words sh \<le> unat (x - p) \<Longrightarrow> call_mem sh p s x = xm s x"
  unfolding call_mem_def by (rule frame_mem_other [OF frame_ok_amd64])

end
