(* ===== verification/AsmArm64.thy ===== *)
theory AsmArm64
  imports GoStrings PcTable Layout "HOL-Library.Signed_Division"
begin

text \<open>
  jitcode_arm64.go: the mnemonic assembler (\<open>asm\<close>, \<open>tokenize\<close>, \<open>parseReg\<close>, \<open>parseShift\<close>, \<open>parseIns\<close>;
  \<open>parseImm\<close> is in GoStrings) and the trampoline it assembles into a buffer of 512 bytes (\<open>jitStubCode\<close>).
\<close>

section \<open>Constants\<close>

definition pcQuantum_arm64 :: nat where
  "pcQuantum_arm64 = 4"

definition jitFrameSize_arm64 :: nat where
  "jitFrameSize_arm64 = 288"

definition jitSPDelta_arm64 :: nat where
  "jitSPDelta_arm64 = jitFrameSize_arm64"

section \<open>The assembler\<close>

definition tokenize_arm64 :: "string \<Rightarrow> string list" where
  "tokenize_arm64 s =
     fieldsFunc (\<lambda>r. r = CHR '' '' \<or> r = CHR 0x09 \<or> r = CHR '','' \<or> r = CHR ''['' \<or> r = CHR '']'') s"

definition parseReg :: "string \<Rightarrow> 32 word res" where
  "parseReg s =
     (if s = ''SP'' \<or> s = ''ZR'' then Inr 31 else if s = ''FP'' then Inr 29 else if s = ''LR'' then Inr 30
      else if 2 \<le> length s \<and> hd s = CHR ''R'' then
        (case parseInt (tl s) of
           None \<Rightarrow> Inl ''weave: bad register''
         | Some n \<Rightarrow> if 0 \<le> n \<and> n \<le> 30 then Inr (word_of_int n) else Inl ''weave: bad register'')
      else Inl ''weave: bad register'')"

definition parseShift :: "string list \<Rightarrow> nat \<Rightarrow> 32 word res" where
  "parseShift t i =
     (if length t \<le> i + 1 \<or> t ! i \<noteq> ''LSL'' then Inl ''weave: bad shift in instruction''
      else res_bind (parseImm (t ! (i + 1))) (\<lambda>n. Inr (word_of_int n div 16)))"

text \<open>Operand \<open>i\<close> as a register and as an immediate.\<close>

definition reg_at :: "string list \<Rightarrow> nat \<Rightarrow> 32 word res" where
  "reg_at t i = res_bind (tok t i) parseReg"

definition imm_at :: "string list \<Rightarrow> nat \<Rightarrow> int res" where
  "imm_at t i = res_bind (tok t i) parseImm"

definition parseIns_arm64 :: "string \<Rightarrow> 32 word res" where
  "parseIns_arm64 s =
     (let t = tokenize_arm64 s
      in res_bind (tok t 0) (\<lambda>m.
        if m = ''SUB'' then
          res_bind (imm_at t 3) (\<lambda>i. res_bind (reg_at t 2) (\<lambda>n. res_bind (reg_at t 1) (\<lambda>d.
            Inr (0xd1000000 OR push_bit 10 (word_of_int i) OR push_bit 5 n OR d))))
        else if m = ''ADD'' then
          res_bind (imm_at t 3) (\<lambda>i. res_bind (reg_at t 2) (\<lambda>n. res_bind (reg_at t 1) (\<lambda>d.
            Inr (0x91000000 OR push_bit 10 (word_of_int i) OR push_bit 5 n OR d))))
        else if m = ''MOV'' then
          res_bind (reg_at t 2) (\<lambda>n. res_bind (reg_at t 1) (\<lambda>d. Inr (0xaa0003e0 OR push_bit 16 n OR d)))
        else if m = ''STR'' then
          res_bind (imm_at t 3) (\<lambda>i. res_bind (reg_at t 2) (\<lambda>n. res_bind (reg_at t 1) (\<lambda>d.
            Inr (0xf9000000 OR push_bit 10 (word_of_int i div 8) OR push_bit 5 n OR d))))
        else if m = ''STP'' then
          res_bind (imm_at t 4) (\<lambda>i. res_bind (reg_at t 2) (\<lambda>t2. res_bind (reg_at t 3) (\<lambda>n. res_bind (reg_at t 1) (\<lambda>d.
            Inr (0xa9000000 OR push_bit 15 (word_of_int ((i sdiv 8) AND 0x7f)) OR push_bit 10 t2 OR push_bit 5 n OR d)))))
        else if m = ''LDP'' then
          res_bind (imm_at t 4) (\<lambda>i. res_bind (reg_at t 2) (\<lambda>t2. res_bind (reg_at t 3) (\<lambda>n. res_bind (reg_at t 1) (\<lambda>d.
            Inr (0xa9400000 OR push_bit 15 (word_of_int ((i sdiv 8) AND 0x7f)) OR push_bit 10 t2 OR push_bit 5 n OR d)))))
        else if m = ''MOVZ'' then
          res_bind (imm_at t 2) (\<lambda>i. res_bind (reg_at t 1) (\<lambda>d.
            Inr (0xd2800000 OR push_bit 5 (word_of_int i) OR d)))
        else if m = ''MOVK'' then
          res_bind (parseShift t 3) (\<lambda>hw. res_bind (imm_at t 2) (\<lambda>i. res_bind (reg_at t 1) (\<lambda>d.
            Inr (0xf2800000 OR push_bit 21 hw OR push_bit 5 (word_of_int i) OR d))))
        else if m = ''BLR'' then res_bind (reg_at t 1) (\<lambda>n. Inr (0xd63f0000 OR push_bit 5 n))
        else if m = ''RET'' then Inr 0xd65f03c0
        else Inl ''weave: unknown instruction''))"

definition asm_arm64 :: "string \<Rightarrow> int list \<Rightarrow> 32 word res" where
  "asm_arm64 fmt as = parseIns_arm64 (sprintf fmt as)"

section \<open>The trampoline\<close>

text \<open>
  \<open>put\<close> writes an instruction at \<open>off\<close>; the model's code is the part \<open>code[:off]\<close> of the buffer, whose
  length is a multiple of four. Writing past the 512 bytes panics.
\<close>

definition put :: "byte list \<Rightarrow> 32 word \<Rightarrow> byte list res" where
  "put code w =
     (if length code + 4 \<le> 512
      then Inr (code @ [ucast w, ucast (drop_bit 8 w), ucast (drop_bit 16 w), ucast (drop_bit 24 w)])
      else Inl ''index out of range'')"

fun put_asm :: "byte list \<Rightarrow> (string \<times> int list) list \<Rightarrow> byte list res" where
  "put_asm code [] = Inr code"
| "put_asm code ((fmt, as) # is) =
     res_bind (asm_arm64 fmt as) (\<lambda>w. res_bind (put code w) (\<lambda>code'. put_asm code' is))"

definition prologue_arm64 :: "(string \<times> int list) list" where
  "prologue_arm64 =
     [(''SUB R20, SP, #%d'', [int jitFrameSize_arm64]), (''STP R29, R30, [R20, #-8]'', []), (''ADD SP, R20, #0'', [])]"

definition spill_arm64 :: "(string \<times> int list) list" where
  "spill_arm64 =
     [(''SUB R29, SP, #8'', []), (''STR R15, [SP, #8]'', []), (''ADD R16, SP, #%d'', [int (jitFrameSize_arm64 + 8)]),
      (''STR R16, [SP, #16]'', [])]"

definition zero_arm64 :: "stubShape \<Rightarrow> (string \<times> int list) list" where
  "zero_arm64 sh = concat (map (\<lambda>i.
     if retPtrs sh AND push_bit i 1 \<noteq> 0 then [(''STR ZR, [R16, #%d]'', [int ((argWords sh + i) * 8)])] else [])
     [0..<retWords sh])"

definition shift_arm64 :: "(string \<times> int list) list" where
  "shift_arm64 = map (\<lambda>r. (''MOV R%d, R%d'', [int r + 1, int r])) (rev [0..<15])"

text \<open>The four halves of the address, \<open>uint16(dispatch >> n)\<close>.\<close>

definition half :: "64 word \<Rightarrow> nat \<Rightarrow> int" where
  "half d n = uint (ucast (drop_bit n d) :: 16 word)"

definition call_arm64 :: "stubShape \<Rightarrow> 64 word \<Rightarrow> (string \<times> int list) list" where
  "call_arm64 sh d =
     [(''MOVZ R0, #%d'', [int (sh_index sh)]), (''MOVZ R16, #%d'', [half d 0]),
      (''MOVK R16, #%d, LSL #16'', [half d 16]), (''MOVK R16, #%d, LSL #32'', [half d 32]),
      (''MOVK R16, #%d, LSL #48'', [half d 48]), (''BLR R16'', [])]"

definition restore_arm64 :: "(string \<times> int list) list" where
  "restore_arm64 = [(''LDP R29, R30, [SP, #-8]'', []), (''ADD SP, SP, #%d'', [int jitFrameSize_arm64])]"

definition jitStubCode_arm64 :: "stubShape \<Rightarrow> 64 word \<Rightarrow> (byte list \<times> byte list) res" where
  "jitStubCode_arm64 sh d =
     res_bind (put_asm [] prologue_arm64) (\<lambda>c1.
     res_bind (put_asm c1 (spill_arm64 @ zero_arm64 sh @ shift_arm64 @ call_arm64 sh d @ restore_arm64)) (\<lambda>c2.
     res_bind (put_asm c2 [(''RET'', [])]) (\<lambda>code.
       Inr (code, encodePCSP
         [\<lparr>pe_pc = int (length c1), spdelta = 0\<rparr>, \<lparr>pe_pc = int (length c2), spdelta = of_nat jitSPDelta_arm64\<rparr>,
          \<lparr>pe_pc = int (length code), spdelta = 0\<rparr>]))))"

end
