(* ===== verification/MachineArm64.thy ===== *)
theory MachineArm64
  imports AsmArm64 StubFrame
begin

text \<open>
  The part of AArch64 the trampoline uses: decoding of 32-bit instructions from their fields, and their
  execution. Register 31 is the stack pointer in an address or an ADD or SUB with an immediate, and
  zero elsewhere.
\<close>

section \<open>Instructions\<close>

datatype a64 =
    ASubI nat nat nat
  | AAddI nat nat nat
  | AMov nat nat
  | AStr nat nat nat
  | AStp nat nat nat int
  | ALdp nat nat nat int
  | AMovz nat nat nat
  | AMovk nat nat nat
  | ABlr nat
  | ARet nat

definition a64_word :: "nat \<Rightarrow> a64 option" where
  "a64_word n =
     (let d = n mod 32; r = n div 32 mod 32; r2 = n div 1024 mod 32; imm12 = n div 1024 mod 4096;
          i7 = n div 32768 mod 128; imm7 = (if i7 < 64 then int i7 else int i7 - 128);
          imm16 = n div 32 mod 65536; hw = n div 2097152 mod 4
      in if n div 4194304 = 0x344 then Some (ASubI d r imm12)
         else if n div 4194304 = 0x244 then Some (AAddI d r imm12)
         else if n div 4194304 = 0x3e4 then Some (AStr d r imm12)
         else if n div 4194304 = 0x2a4 then Some (AStp d r2 r imm7)
         else if n div 4194304 = 0x2a5 then Some (ALdp d r2 r imm7)
         else if n div 2097152 = 0x550 \<and> n div 1024 mod 64 = 0 \<and> r = 31 then Some (AMov d (n div 65536 mod 32))
         else if n div 8388608 = 0x1a5 then Some (AMovz d imm16 hw)
         else if n div 8388608 = 0x1e5 then Some (AMovk d imm16 hw)
         else if n div 1024 = 0x358fc0 \<and> d = 0 then Some (ABlr r)
         else if n div 1024 = 0x3597c0 \<and> d = 0 then Some (ARet r)
         else None)"

definition decode_a64 :: "byte list \<Rightarrow> (a64 \<times> nat) option" where
  "decode_a64 bs =
     (case rd32 bs of None \<Rightarrow> None
      | Some w \<Rightarrow> (case a64_word (unat w) of None \<Rightarrow> None | Some i \<Rightarrow> Some (i, 4)))"

section \<open>Execution\<close>

record astate =
  ar :: "nat \<Rightarrow> 64 word"
  asp :: "64 word"
  af :: "nat \<Rightarrow> 64 word"
  am :: ram

definition rsp :: "astate \<Rightarrow> nat \<Rightarrow> 64 word" where
  "rsp s n = (if n = 31 then asp s else ar s n)"

definition rz :: "astate \<Rightarrow> nat \<Rightarrow> 64 word" where
  "rz s n = (if n = 31 then 0 else ar s n)"

definition set_rsp :: "nat \<Rightarrow> 64 word \<Rightarrow> astate \<Rightarrow> astate" where
  "set_rsp d v s = (if d = 31 then s\<lparr>asp := v\<rparr> else s\<lparr>ar := (ar s)(d := v)\<rparr>)"

definition set_rz :: "nat \<Rightarrow> 64 word \<Rightarrow> astate \<Rightarrow> astate" where
  "set_rz d v s = (if d = 31 then s else s\<lparr>ar := (ar s)(d := v)\<rparr>)"

text \<open>
  \<open>callee a\<close> is what a call of the code at \<open>a\<close> does until it has returned, the link register the
  branch writes included.
\<close>

fun exec_a64 :: "(64 word \<Rightarrow> astate \<Rightarrow> astate) \<Rightarrow> a64 \<Rightarrow> astate \<Rightarrow> astate" where
  "exec_a64 callee (ASubI d n i) s = set_rsp d (rsp s n - of_nat i) s"
| "exec_a64 callee (AAddI d n i) s = set_rsp d (rsp s n + of_nat i) s"
| "exec_a64 callee (AMov d m) s = set_rz d (rz s m) s"
| "exec_a64 callee (AStr t n i) s = s\<lparr>am := store64 (rsp s n + of_nat (8 * i)) (rz s t) (am s)\<rparr>"
| "exec_a64 callee (AStp t t2 n i) s =
     (let a = rsp s n + of_int (8 * i)
      in s\<lparr>am := store64 (a + 8) (rz s t2) (store64 a (rz s t) (am s))\<rparr>)"
| "exec_a64 callee (ALdp t t2 n i) s =
     (let a = rsp s n + of_int (8 * i)
      in set_rz t2 (load64 (am s) (a + 8)) (set_rz t (load64 (am s) a) s))"
| "exec_a64 callee (AMovz d v hw) s = set_rz d (push_bit (16 * hw) (of_nat v)) s"
| "exec_a64 callee (AMovk d v hw) s =
     set_rz d ((rz s d AND NOT (push_bit (16 * hw) 0xffff)) OR push_bit (16 * hw) (of_nat v)) s"
| "exec_a64 callee (ABlr n) s = callee (rz s n) s"
| "exec_a64 callee (ARet n) s = s"

interpretation arm64: instruction_set decode_a64 "exec_a64 callee" for callee
proof
  fix bs i k rest
  assume "decode_a64 bs = Some (i, k)"
  then show "decode_a64 (bs @ rest) = Some (i, k)"
    by (cases bs rule: rd32.cases) (auto simp: decode_a64_def)
qed

section \<open>Fields of an instruction word\<close>

definition ins_bytes :: "32 word \<Rightarrow> byte list" where
  "ins_bytes w = [ucast w, ucast (drop_bit 8 w), ucast (drop_bit 16 w), ucast (drop_bit 24 w)]"

lemma length_ins_bytes [simp]: "length (ins_bytes w) = 4"
  by (simp add: ins_bytes_def)

lemma encodes_ins_bytes: "a64_word (unat w) = Some i \<Longrightarrow> arm64.encodes (ins_bytes w) i"
  using rd32_bytes [of w "[]"] by (simp add: arm64.encodes_def decode_a64_def ins_bytes_def)

text \<open>A field above a word that fits below it.\<close>

lemma unat_push_or:
  fixes a x :: "32 word"
  assumes "unat x < 2 ^ n" "unat a < 2 ^ (32 - n)" "n \<le> 32"
  shows "unat (push_bit n a OR x) = unat a * 2 ^ n + unat x"
proof -
  have hi: "\<not> bit x i" if "n \<le> i" for i
  proof -
    have "take_bit n (unat x) = unat x" using assms(1) by (simp add: take_bit_nat_eq_self_iff)
    then have "\<not> bit (unat x) i" using that by (metis bit_take_bit_iff not_le)
    then show ?thesis by (auto simp: bit_unsigned_iff dest: bit_imp_le_length)
  qed
  have "push_bit n a AND x = 0" by (rule bit_word_eqI) (auto simp: bit_simps dest: hi)
  then have "push_bit n a OR x = push_bit n a + x" by (rule disjunctive_add_eq_or [symmetric])
  moreover have lt: "unat a * 2 ^ n + unat x < 2 ^ 32"
  proof -
    have "unat a * 2 ^ n + unat x < (unat a + 1) * 2 ^ n" using assms(1) by simp
    also have "\<dots> \<le> 2 ^ (32 - n) * 2 ^ n" using assms(2) by (intro mult_le_mono1) simp
    also have "\<dots> = 2 ^ 32" using assms(3) by (simp flip: power_add)
    finally show ?thesis .
  qed
  moreover have "unat (push_bit n a) = unat a * 2 ^ n"
  proof -
    have "push_bit n a = of_nat (unat a * 2 ^ n)" by (simp add: push_bit_eq_mult)
    moreover have "unat (of_nat (unat a * 2 ^ n) :: 32 word) = unat a * 2 ^ n"
      unfolding unat_of_nat by (rule mod_less) (use lt in simp)
    ultimately show ?thesis by simp
  qed
  ultimately show ?thesis
    by (simp add: unat_word_ariths)
qed

end
