(* ===== verification/TrampArm64.thy ===== *)
theory TrampArm64
  imports MachineArm64
begin

text \<open>
  The arm64 trampoline: the words \<open>jitStubCode\<close> puts are those of the intended instructions and fit its
  buffer, and running them calls \<open>Dispatch\<close> with the method index, the caller's registers moved up by
  one, the address of the caller's stack area and that area's pointer results cleared, and returns to
  the caller with the registers \<open>Dispatch\<close> left.
\<close>

section \<open>The instructions of the trampoline\<close>

text \<open>The half words of the address of \<open>Dispatch\<close>.\<close>

definition half_nat :: "64 word \<Rightarrow> nat \<Rightarrow> nat" where
  "half_nat d n = unat (ucast (drop_bit n d) :: 16 word)"

definition pro_a64 :: "a64 list" where
  "pro_a64 = [ASubI 20 31 288, AStp 29 30 20 (- 1), AAddI 31 20 0]"

definition mid_a64 :: "stubShape \<Rightarrow> 64 word \<Rightarrow> a64 list" where
  "mid_a64 sh d =
     [ASubI 29 31 8, AStr 15 31 1, AAddI 16 31 296, AStr 16 31 2] @ map (\<lambda>w. AStr 31 16 w) (zeroed sh) @
     map (\<lambda>r. AMov (r + 1) r) (rev [0..<15]) @
     [AMovz 0 (sh_index sh) 0, AMovz 16 (half_nat d 0) 0, AMovk 16 (half_nat d 16) 1, AMovk 16 (half_nat d 32) 2,
      AMovk 16 (half_nat d 48) 3]"

definition epi_a64 :: "a64 list" where
  "epi_a64 = [ALdp 29 30 31 (- 1), AAddI 31 31 288]"

definition stub_a64 :: "stubShape \<Rightarrow> 64 word \<Rightarrow> a64 list" where
  "stub_a64 sh d = pro_a64 @ mid_a64 sh d @ [ABlr 16] @ epi_a64 @ [ARet 30]"

text \<open>Their words.\<close>

definition movz_word :: "nat \<Rightarrow> 32 word \<Rightarrow> 32 word" where
  "movz_word i d = 0xd2800000 OR push_bit 5 (word_of_int (int i)) OR d"

definition movk_word :: "nat \<Rightarrow> 32 word \<Rightarrow> 32 word" where
  "movk_word i hw = 0xf2800000 OR push_bit 21 hw OR push_bit 5 (word_of_int (int i)) OR 16"

definition zero_word :: "nat \<Rightarrow> 32 word" where
  "zero_word w = 0xf9000000 OR push_bit 10 (word_of_int (int (w * 8)) div 8) OR push_bit 5 16 OR 31"

definition pro_words :: "32 word list" where
  "pro_words = [0xd10483f4, 0xa93ffa9d, 0x9100029f]"

definition mid_words :: "stubShape \<Rightarrow> 64 word \<Rightarrow> 32 word list" where
  "mid_words sh d =
     [0xd10023fd, 0xf90007ef, 0x9104a3f0, 0xf9000bf0] @ map zero_word (zeroed sh) @
     [0xaa0e03ef, 0xaa0d03ee, 0xaa0c03ed, 0xaa0b03ec, 0xaa0a03eb, 0xaa0903ea, 0xaa0803e9, 0xaa0703e8,
      0xaa0603e7, 0xaa0503e6, 0xaa0403e5, 0xaa0303e4, 0xaa0203e3, 0xaa0103e2, 0xaa0003e1] @
     [movz_word (sh_index sh) 0, movz_word (half_nat d 0) 16, movk_word (half_nat d 16) 1,
      movk_word (half_nat d 32) 2, movk_word (half_nat d 48) 3]"

definition epi_words :: "32 word list" where
  "epi_words = [0xa97ffbfd, 0x910483ff]"

definition stub_words :: "stubShape \<Rightarrow> 64 word \<Rightarrow> 32 word list" where
  "stub_words sh d = pro_words @ mid_words sh d @ [0xd63f0200] @ epi_words @ [0xd65f03c0]"

text \<open>A shape whose index is a 16-bit immediate and whose area the offsets of \<open>STR\<close> reach.\<close>

definition fits_a64 :: "stubShape \<Rightarrow> bool" where
  "fits_a64 sh \<longleftrightarrow> sh_index sh < 2 ^ 16 \<and> words sh \<le> 4096"

section \<open>From text to words\<close>

lemma put_asm_append: "put_asm code (xs @ ys) = res_bind (put_asm code xs) (\<lambda>c. put_asm c ys)"
  by (induction code xs rule: put_asm.induct) (auto simp: res_bind_def split: sum.split)

lemma put_asm_Inr:
  "list_all2 (\<lambda>(fmt, as) w. asm_arm64 fmt as = Inr w) is ws \<Longrightarrow> length code + 4 * length ws \<le> 512 \<Longrightarrow>
   put_asm code is = Inr (code @ concat (map ins_bytes ws))"
proof (induction "is" ws arbitrary: code rule: list_all2_induct)
  case (Cons i "is" w ws)
  obtain fmt as where i: "i = (fmt, as)" by (cases i)
  have "put code w = Inr (code @ ins_bytes w)" using Cons.prems by (simp add: put_def ins_bytes_def)
  with Cons i show ?case by simp
qed simp

lemma dec_no_sep_arm64:
  "c \<in> set (dec i) \<Longrightarrow> \<not> (c = CHR '' '' \<or> c = CHR 0x09 \<or> c = CHR '','' \<or> c = CHR ''['' \<or> c = CHR '']'')"
  using dec_chars [of c i] by (auto simp: is_digit_def)

lemma parse_consts:
  "parseReg ''R0'' = Inr 0" "parseReg ''R16'' = Inr 16" "parseReg ''ZR'' = Inr 31"
  "parseImm ''#16'' = Inr 16" "parseImm ''#32'' = Inr 32" "parseImm ''#48'' = Inr 48"
  by code_simp+

lemmas asm_arm64_defs = asm_arm64_def parseIns_arm64_def tokenize_arm64_def fieldsFunc_def tok_def
  reg_at_def imm_at_def parseShift_def

text \<open>A number at the end of the text and a number in its middle.\<close>

lemma fields_from_dec:
  "fields_from (\<lambda>r. r = CHR '' '' \<or> r = CHR 0x09 \<or> r = CHR '','' \<or> r = CHR ''['' \<or> r = CHR '']'') cur (dec i @ ys) =
   fields_from (\<lambda>r. r = CHR '' '' \<or> r = CHR 0x09 \<or> r = CHR '','' \<or> r = CHR ''['' \<or> r = CHR '']'') (cur @ dec i) ys"
  by (rule fields_from_append) (rule dec_no_sep_arm64)

lemma asm_movz:
  assumes "i < 2 ^ 16"
  shows "asm_arm64 ''MOVZ R0, #%d'' [int i] = Inr (movz_word i 0)"
    and "asm_arm64 ''MOVZ R16, #%d'' [int i] = Inr (movz_word i 16)"
  using assms fields_from_dec [of _ "int i" "[]"]
  by (simp_all add: asm_arm64_defs parseImm_dec parse_consts movz_word_def)

lemma asm_movk:
  assumes "i < 2 ^ 16"
  shows "asm_arm64 ''MOVK R16, #%d, LSL #16'' [int i] = Inr (movk_word i 1)"
    and "asm_arm64 ''MOVK R16, #%d, LSL #32'' [int i] = Inr (movk_word i 2)"
    and "asm_arm64 ''MOVK R16, #%d, LSL #48'' [int i] = Inr (movk_word i 3)"
  using assms
  by (simp_all add: asm_arm64_defs fields_from_dec parseImm_dec parse_consts movk_word_def)

lemma asm_zero_arm64:
  assumes "w < 4096"
  shows "asm_arm64 ''STR ZR, [R16, #%d]'' [int (w * 8)] = Inr (zero_word w)"
proof -
  have "parseImm (CHR ''#'' # dec (int (w * 8))) = Inr (int (w * 8))"
    by (rule parseImm_dec) (use assms in auto)
  then show ?thesis
    by (simp add: asm_arm64_defs fields_from_dec parse_consts zero_word_def del: of_nat_mult)
qed

text \<open>The instructions without a number that depends on the shape or the address.\<close>

lemma asm_consts:
  "list_all2 (\<lambda>(fmt, as) w. asm_arm64 fmt as = Inr w) prologue_arm64 pro_words"
  "list_all2 (\<lambda>(fmt, as) w. asm_arm64 fmt as = Inr w) spill_arm64 [0xd10023fd, 0xf90007ef, 0x9104a3f0, 0xf9000bf0]"
  "list_all2 (\<lambda>(fmt, as) w. asm_arm64 fmt as = Inr w) shift_arm64
     [0xaa0e03ef, 0xaa0d03ee, 0xaa0c03ed, 0xaa0b03ec, 0xaa0a03eb, 0xaa0903ea, 0xaa0803e9, 0xaa0703e8,
      0xaa0603e7, 0xaa0503e6, 0xaa0403e5, 0xaa0303e4, 0xaa0203e3, 0xaa0103e2, 0xaa0003e1]"
  "list_all2 (\<lambda>(fmt, as) w. asm_arm64 fmt as = Inr w) restore_arm64 epi_words"
  "asm_arm64 ''BLR R16'' [] = Inr 0xd63f0200" "asm_arm64 ''RET'' [] = Inr 0xd65f03c0"
  by code_simp+

lemma half_less: "half_nat d n < 2 ^ 16"
  unfolding half_nat_def using unsigned_less [of "ucast (drop_bit n d) :: 16 word", where ?'a = nat] by simp

lemma half_int: "half d n = int (half_nat d n)"
  by (simp add: half_def half_nat_def)

lemma asm_body:
  assumes "fits_a64 sh"
  shows "list_all2 (\<lambda>(fmt, as) w. asm_arm64 fmt as = Inr w)
    (spill_arm64 @ zero_arm64 sh @ shift_arm64 @ call_arm64 sh d @ restore_arm64)
    (mid_words sh d @ [0xd63f0200] @ epi_words)"
proof -
  let ?P = "\<lambda>(fmt, as) w. asm_arm64 fmt as = Inr w"
  have z: "list_all2 ?P (map (\<lambda>w. (''STR ZR, [R16, #%d]'', [int (w * 8)])) ws) (map zero_word ws)"
    if "\<forall>w\<in>set ws. w < 4096" for ws
    using that by (induction ws) (auto simp: asm_zero_arm64 simp del: of_nat_mult)
  have "zero_arm64 sh = map (\<lambda>w. (''STR ZR, [R16, #%d]'', [int (w * 8)])) (zeroed sh)"
  proof -
    have "zero_arm64 sh = concat (map (\<lambda>i. if bit (retPtrs sh) i
        then [(''STR ZR, [R16, #%d]'', [int ((argWords sh + i) * 8)])] else []) [0..<retWords sh])"
      unfolding zero_arm64_def bit_iff_and_push ..
    also have "\<dots> = concat (map (\<lambda>i. [(''STR ZR, [R16, #%d]'', [int ((argWords sh + i) * 8)])])
        (filter (\<lambda>i. bit (retPtrs sh) i) [0..<retWords sh]))" by (rule concat_if_filter)
    finally show ?thesis by (simp add: zeroed_def)
  qed
  moreover have "\<forall>w\<in>set (zeroed sh). w < 4096" using assms zeroed_less [of _ sh] by (fastforce simp: fits_a64_def)
  ultimately have zero: "list_all2 ?P (zero_arm64 sh) (map zero_word (zeroed sh))" using z by simp
  have call: "list_all2 ?P (call_arm64 sh d)
      [movz_word (sh_index sh) 0, movz_word (half_nat d 0) 16, movk_word (half_nat d 16) 1,
       movk_word (half_nat d 32) 2, movk_word (half_nat d 48) 3, 0xd63f0200]"
    using assms asm_movz asm_movk half_less asm_consts(5)
    by (simp add: call_arm64_def half_int fits_a64_def)
  have "mid_words sh d @ [0xd63f0200] @ epi_words =
      [0xd10023fd, 0xf90007ef, 0x9104a3f0, 0xf9000bf0] @ map zero_word (zeroed sh) @
      [0xaa0e03ef, 0xaa0d03ee, 0xaa0c03ed, 0xaa0b03ec, 0xaa0a03eb, 0xaa0903ea, 0xaa0803e9, 0xaa0703e8,
       0xaa0603e7, 0xaa0503e6, 0xaa0403e5, 0xaa0303e4, 0xaa0203e3, 0xaa0103e2, 0xaa0003e1] @
      [movz_word (sh_index sh) 0, movz_word (half_nat d 0) 16, movk_word (half_nat d 16) 1,
       movk_word (half_nat d 32) 2, movk_word (half_nat d 48) 3, 0xd63f0200] @ epi_words"
    by (simp add: mid_words_def)
  then show ?thesis
    by (simp only:) (intro list_all2_appendI asm_consts zero call)
qed

text \<open>
  The text of jitcode_arm64.go assembles to these words, which fit the buffer: at most 64 result words
  are cleared, and the rest takes 31 words.
\<close>

lemma length_stub_words: "length (stub_words sh d) = 31 + length (zeroed sh)"
  by (simp add: stub_words_def pro_words_def mid_words_def epi_words_def)

lemma length_concat_ins_bytes [simp]: "length (concat (map ins_bytes ws)) = 4 * length ws"
  by (induction ws) auto

lemma jitStubCode_arm64_bytes:
  assumes "fits_a64 sh"
  shows "jitStubCode_arm64 sh d =
    Inr (concat (map ins_bytes (stub_words sh d)),
      encodePCSP [\<lparr>pe_pc = 12, spdelta = 0\<rparr>, \<lparr>pe_pc = int (4 * length (stub_words sh d)) - 4, spdelta = 288\<rparr>,
        \<lparr>pe_pc = int (4 * length (stub_words sh d)), spdelta = 0\<rparr>])"
proof -
  have n: "length (zeroed sh) \<le> 64" by (rule length_zeroed)
  let ?c1 = "concat (map ins_bytes pro_words)" and ?b = "mid_words sh d @ [0xd63f0200] @ epi_words"
  have lb: "length ?b = 27 + length (zeroed sh)" by (simp add: mid_words_def epi_words_def)
  have lp: "length pro_words = 3" by (simp add: pro_words_def)
  have 1: "put_asm [] prologue_arm64 = Inr ?c1"
    using put_asm_Inr [OF asm_consts(1), of "[]"] lp by simp
  have 2: "put_asm ?c1 (spill_arm64 @ zero_arm64 sh @ shift_arm64 @ call_arm64 sh d @ restore_arm64) =
      Inr (?c1 @ concat (map ins_bytes ?b))"
    by (rule put_asm_Inr [OF asm_body [OF assms]]) (use lb lp n in \<open>simp only: length_concat_ins_bytes; simp\<close>)
  have "list_all2 (\<lambda>(fmt, as) w. asm_arm64 fmt as = Inr w) [(''RET'', [])] [0xd65f03c0]"
    using asm_consts(6) by simp
  then have 3: "put_asm (?c1 @ concat (map ins_bytes ?b)) [(''RET'', [])] =
      Inr ((?c1 @ concat (map ins_bytes ?b)) @ concat (map ins_bytes [0xd65f03c0]))"
    by (rule put_asm_Inr) (use lb lp n in \<open>simp only: length_append length_concat_ins_bytes; simp\<close>)
  have code: "(?c1 @ concat (map ins_bytes ?b)) @ concat (map ins_bytes [0xd65f03c0]) = concat (map ins_bytes (stub_words sh d))"
    by (simp add: stub_words_def)
  have l1: "length ?c1 = 12" and l2: "length (?c1 @ concat (map ins_bytes ?b)) = 120 + 4 * length (zeroed sh)"
    by (simp only: length_append length_concat_ins_bytes lp; simp add: mid_words_def epi_words_def)+
  show ?thesis
    unfolding jitStubCode_arm64_def 1 res_bind_Inr 2 3 code l1 l2 length_concat_ins_bytes length_stub_words
    by (simp add: jitSPDelta_arm64_def jitFrameSize_arm64_def lp)
qed

section \<open>From words to instructions\<close>

lemma decode_word_consts:
  "a64_word 0xd10483f4 = Some (ASubI 20 31 288)" "a64_word 0xa93ffa9d = Some (AStp 29 30 20 (- 1))"
  "a64_word 0x9100029f = Some (AAddI 31 20 0)"
  "a64_word 0xd10023fd = Some (ASubI 29 31 8)" "a64_word 0xf90007ef = Some (AStr 15 31 1)"
  "a64_word 0x9104a3f0 = Some (AAddI 16 31 296)" "a64_word 0xf9000bf0 = Some (AStr 16 31 2)"
  "a64_word 0xd63f0200 = Some (ABlr 16)" "a64_word 0xa97ffbfd = Some (ALdp 29 30 31 (- 1))"
  "a64_word 0x910483ff = Some (AAddI 31 31 288)" "a64_word 0xd65f03c0 = Some (ARet 30)"
  by (simp_all add: a64_word_def)

lemma decode_shift:
  "map a64_word [0xaa0e03ef, 0xaa0d03ee, 0xaa0c03ed, 0xaa0b03ec, 0xaa0a03eb, 0xaa0903ea, 0xaa0803e9, 0xaa0703e8,
      0xaa0603e7, 0xaa0503e6, 0xaa0403e5, 0xaa0303e4, 0xaa0203e3, 0xaa0103e2, 0xaa0003e1] =
   map (\<lambda>r. Some (AMov (r + 1) r)) (rev [0..<15])"
  by (simp add: a64_word_def upt_rec)

lemma unat_imm: "i < 2 ^ 16 \<Longrightarrow> unat (word_of_int (int i) :: 32 word) = i"
  unfolding of_int_of_nat_eq unat_of_nat by simp

text \<open>A word of a constant, a 16-bit immediate and a register.\<close>

lemma movw_fields:
  fixes d k :: "32 word"
  assumes i: "i < 2 ^ 16" and d: "unat d < 32" and k: "unat k < 2 ^ 11"
  shows "unat (push_bit 21 k OR (push_bit 5 (word_of_int (int i)) OR d)) = unat k * 2 ^ 21 + (i * 32 + unat d)"
    and "(unat k * 2 ^ 21 + (i * 32 + unat d)) div 32 mod 65536 = i"
    and "(unat k * 2 ^ 21 + (i * 32 + unat d)) mod 32 = unat d"
    and "(unat k * 2 ^ 21 + (i * 32 + unat d)) div 2097152 = unat k"
proof -
  have low: "unat (push_bit 5 (word_of_int (int i)) OR d) = i * 32 + unat d"
    using unat_push_or [of d 5 "word_of_int (int i)"] unat_imm [OF i] i d by simp
  then show "unat (push_bit 21 k OR (push_bit 5 (word_of_int (int i)) OR d)) = unat k * 2 ^ 21 + (i * 32 + unat d)"
    using unat_push_or [of "push_bit 5 (word_of_int (int i)) OR d" 21 k] i d k by simp
  have e: "unat k * 2 ^ 21 + (i * 32 + unat d) = (unat k * 65536 + i) * 32 + unat d" by simp
  have "((unat k * 65536 + i) * 32 + unat d) div 32 = unat k * 65536 + i"
    by (rule div_nat_eqI) (use d in auto)
  then show "(unat k * 2 ^ 21 + (i * 32 + unat d)) div 32 mod 65536 = i"
    unfolding e using i by simp
  show "(unat k * 2 ^ 21 + (i * 32 + unat d)) mod 32 = unat d"
    unfolding e mod_mult_self3 using d by (rule mod_less)
  show "(unat k * 2 ^ 21 + (i * 32 + unat d)) div 2097152 = unat k"
    by (rule div_nat_eqI) (use i d in auto)
qed

lemma decode_movz:
  assumes "i < 2 ^ 16" and "unat d < 32"
  shows "a64_word (unat (movz_word i d)) = Some (AMovz (unat d) i 0)"
proof -
  have w: "movz_word i d = push_bit 21 0x694 OR (push_bit 5 (word_of_int (int i)) OR d)"
    by (simp add: movz_word_def or.assoc)
  define n where "n = unat (movz_word i d)"
  have f: "n div 32 mod 65536 = i" "n mod 32 = unat d" "n div 2097152 = 0x694"
    using movw_fields [OF assms, of "0x694"] unfolding n_def w by simp_all
  have "n div 4194304 = n div 2097152 div 2" "n div 8388608 = n div 2097152 div 4"
    by (simp_all flip: div_mult2_eq)
  with f show ?thesis unfolding n_def [symmetric] by (simp add: a64_word_def Let_def)
qed

lemma decode_movk:
  assumes i: "i < 2 ^ 16" and hw: "hw = 1 \<or> hw = 2 \<or> hw = 3"
  shows "a64_word (unat (movk_word i hw)) = Some (AMovk 16 i (unat hw))"
proof -
  have h: "0xf2800000 OR push_bit 21 hw = push_bit 21 (0x794 + hw)" using hw by auto
  have w: "movk_word i hw = push_bit 21 (0x794 + hw) OR (push_bit 5 (word_of_int (int i)) OR 16)"
    unfolding movk_word_def h [symmetric] or.assoc ..
  define n where "n = unat (movk_word i hw)"
  have k: "unat (0x794 + hw) = 0x794 + unat hw" using hw by auto
  have f: "n div 32 mod 65536 = i" "n mod 32 = 16" "n div 2097152 = 0x794 + unat hw"
    using movw_fields [OF i, of 16 "0x794 + hw"] hw unfolding n_def w k by auto
  have q: "n div 4194304 = n div 2097152 div 2" "n div 8388608 = n div 2097152 div 4"
    by (simp_all flip: div_mult2_eq)
  show ?thesis
    using hw unfolding n_def [symmetric] by (elim disjE) (simp_all add: a64_word_def Let_def f q)
qed

lemma decode_zero_word:
  assumes w: "w < 4096"
  shows "a64_word (unat (zero_word w)) = Some (AStr 31 16 w)"
proof -
  have "unat (word_of_int (int (w * 8)) :: 32 word) = w * 8"
    unfolding of_int_of_nat_eq unat_of_nat by (rule mod_less) (use w in simp)
  then have u: "unat (word_of_int (int (w * 8)) div 8 :: 32 word) = w"
    unfolding unat_div by simp
  define x where "x = (word_of_int (int (w * 8)) div 8 :: 32 word)"
  have low: "unat (push_bit 10 x OR 0x21f) = w * 1024 + 0x21f"
    using unat_push_or [of "0x21f" 10 x] u w by (simp add: x_def)
  have "zero_word w = push_bit 22 0x3e4 OR (push_bit 10 x OR 0x21f)"
    unfolding zero_word_def x_def [symmetric] by (simp add: or.assoc)
  then have n: "unat (zero_word w) = 0x3e4 * 2 ^ 22 + (w * 1024 + 0x21f)"
    using unat_push_or [of "push_bit 10 x OR 0x21f" 22 "0x3e4"] low w by simp
  define m where "m = 0x3e4 * 2 ^ 22 + (w * 1024 + 0x21f)"
  have e: "m = ((0x3e4 * 4096 + w) * 32 + 16) * 32 + 31" by (simp add: m_def)
  have d: "m div 32 = (0x3e4 * 4096 + w) * 32 + 16" unfolding e by (rule div_nat_eqI) auto
  have d2: "m div 1024 = 0x3e4 * 4096 + w" unfolding m_def by (rule div_nat_eqI) auto
  have "m mod 32 = 31" unfolding e mod_mult_self3 by simp
  moreover have "m div 32 mod 32 = 16" unfolding d mod_mult_self3 by simp
  moreover have "m div 1024 mod 4096 = w" unfolding d2 mod_mult_self3 using w by simp
  moreover have "m div 4194304 = 0x3e4" unfolding m_def by (rule div_nat_eqI) (use w in auto)
  ultimately show ?thesis unfolding n m_def [symmetric] by (simp add: a64_word_def Let_def)
qed

lemma stub_encodes_arm64:
  assumes "fits_a64 sh"
  shows "list_all2 arm64.encodes (map ins_bytes (stub_words sh d)) (stub_a64 sh d)"
proof -
  let ?e = "\<lambda>w i. arm64.encodes (ins_bytes w) i"
  have z: "list_all2 ?e (map zero_word ws) (map (\<lambda>w. AStr 31 16 w) ws)" if "\<forall>w\<in>set ws. w < 4096" for ws
    using that by (induction ws) (auto intro: encodes_ins_bytes decode_zero_word)
  have "\<forall>w\<in>set (zeroed sh). w < 4096" using assms zeroed_less [of _ sh] by (fastforce simp: fits_a64_def)
  note zero = z [OF this]
  have c: "a64_word (unat w) = Some i \<Longrightarrow> ?e w i" for w i by (rule encodes_ins_bytes)
  have shift: "list_all2 ?e [0xaa0e03ef, 0xaa0d03ee, 0xaa0c03ed, 0xaa0b03ec, 0xaa0a03eb, 0xaa0903ea, 0xaa0803e9,
      0xaa0703e8, 0xaa0603e7, 0xaa0503e6, 0xaa0403e5, 0xaa0303e4, 0xaa0203e3, 0xaa0103e2, 0xaa0003e1]
      (map (\<lambda>r. AMov (r + 1) r) (rev [0..<15]))"
    using decode_shift by (simp add: upt_rec c)
  have idx: "list_all2 ?e [movz_word (sh_index sh) 0, movz_word (half_nat d 0) 16, movk_word (half_nat d 16) 1,
      movk_word (half_nat d 32) 2, movk_word (half_nat d 48) 3]
      [AMovz 0 (sh_index sh) 0, AMovz 16 (half_nat d 0) 0, AMovk 16 (half_nat d 16) 1, AMovk 16 (half_nat d 32) 2,
       AMovk 16 (half_nat d 48) 3]"
    using assms half_less decode_movz [of _ 0] decode_movz [of _ 16] decode_movk [of _ 1] decode_movk [of _ 2]
      decode_movk [of _ 3]
    by (simp add: c fits_a64_def)
  have "list_all2 ?e (stub_words sh d) (stub_a64 sh d)"
    unfolding stub_words_def stub_a64_def pro_words_def pro_a64_def mid_words_def mid_a64_def epi_words_def epi_a64_def
    by (intro list_all2_appendI zero shift idx) (simp_all add: c decode_word_consts)
  then show ?thesis by (simp add: list_all2_map1)
qed

end
