(* ===== verification/RunArm64.thy ===== *)
theory RunArm64
  imports TrampArm64
begin

text \<open>
  Running the arm64 trampoline: the state in which it calls \<open>Dispatch\<close>, over the base \<open>b = SP - 296\<close>
  of its frame. The caller's frame pointer is saved at \<open>b\<close>, the return address at \<open>b + 8\<close>, which is the
  new stack pointer, and the caller's stack area is at \<open>b + 304\<close>.
\<close>

section \<open>The phases of the trampoline\<close>

lemma exec_open:
  "fold (exec_a64 callee) (pro_a64 @ [ASubI 29 31 8, AStr 15 31 1, AAddI 16 31 296, AStr 16 31 2]) s =
    s\<lparr>ar := (ar s)(20 := asp s - 288, 29 := asp s - 296, 16 := asp s + 8), asp := asp s - 288,
      am := put_slots (asp s - 296) [(0, ar s 29), (8, ar s 30), (16, ar s 15), (24, asp s + 8)] (am s)\<rparr>"
  by (rule astate.equality)
    (simp_all add: pro_a64_def set_rsp_def rsp_def rz_def put_slots_def Let_def add.commute)

lemma exec_clear:
  "fold (exec_a64 callee) (map (\<lambda>w. AStr 31 16 w) ws) s = s\<lparr>am := zero_words (ar s 16) ws (am s)\<rparr>"
proof (induction ws arbitrary: s)
  case (Cons w ws)
  have "exec_a64 callee (AStr 31 16 w) s = s\<lparr>am := store64 (ar s 16 + of_nat (8 * w)) 0 (am s)\<rparr>"
    by (simp add: rsp_def rz_def)
  with Cons show ?case by (simp add: zero_words_def del: of_nat_mult exec_a64.simps)
qed (simp add: zero_words_def)

lemma exec_shift:
  "n \<le> 30 \<Longrightarrow> fold (exec_a64 callee) (map (\<lambda>r. AMov (r + 1) r) (rev [0..<n])) s =
     s\<lparr>ar := \<lambda>r. if 1 \<le> r \<and> r \<le> n then ar s (r - 1) else ar s r\<rparr>"
proof (induction n arbitrary: s)
  case 0
  show ?case by (rule astate.equality) (simp_all add: fun_eq_iff)
next
  case (Suc n)
  have "exec_a64 callee (AMov (n + 1) n) s = s\<lparr>ar := (ar s)(n + 1 := ar s n)\<rparr>"
    using Suc.prems by (simp add: set_rz_def rz_def)
  then have "fold (exec_a64 callee) (map (\<lambda>r. AMov (r + 1) r) (rev [0..<Suc n])) s =
      fold (exec_a64 callee) (map (\<lambda>r. AMov (r + 1) r) (rev [0..<n])) (s\<lparr>ar := (ar s)(n + 1 := ar s n)\<rparr>)"
    by (simp del: exec_a64.simps)
  also have "\<dots> = s\<lparr>ar := (ar s)(n + 1 := ar s n),
      ar := \<lambda>r. if 1 \<le> r \<and> r \<le> n then ar (s\<lparr>ar := (ar s)(n + 1 := ar s n)\<rparr>) (r - 1)
        else ar (s\<lparr>ar := (ar s)(n + 1 := ar s n)\<rparr>) r\<rparr>"
    by (rule Suc.IH) (use Suc.prems in simp)
  also have "\<dots> = s\<lparr>ar := \<lambda>r. if 1 \<le> r \<and> r \<le> Suc n then ar s (r - 1) else ar s r\<rparr>"
    by (rule astate.equality) (auto simp: fun_eq_iff)
  finally show ?case .
qed

text \<open>Four half words make the address.\<close>

lemma bit_half: "bit (of_nat (half_nat d n) :: 64 word) j \<longleftrightarrow> j < 16 \<and> bit d (n + j)"
proof -
  have "(of_nat (half_nat d n) :: 64 word) = ucast (ucast (drop_bit n d) :: 16 word)"
    by (simp add: half_nat_def)
  then show ?thesis by (auto simp: bit_simps dest: bit_imp_le_length)
qed

lemma bit_ffff: "bit (0xffff :: 64 word) j \<longleftrightarrow> j < 16"
proof -
  have m: "(0xffff :: 64 word) = mask 16" by (simp add: mask_eq_exp_minus_1)
  show ?thesis unfolding m bit_mask_iff by auto
qed

definition movk_step :: "nat \<Rightarrow> nat \<Rightarrow> 64 word \<Rightarrow> 64 word" where
  "movk_step hw v x = (x AND NOT (push_bit (16 * hw) 0xffff)) OR push_bit (16 * hw) (of_nat v)"

lemma bit_movk_step:
  "hw < 4 \<Longrightarrow> bit (movk_step hw (half_nat d (16 * hw)) x) j \<longleftrightarrow>
     (if 16 * hw \<le> j \<and> j < 16 * hw + 16 then bit d j else bit x j)"
  unfolding movk_step_def bit_or_iff bit_and_iff bit_not_iff bit_push_bit_iff bit_half bit_ffff
  using bit_imp_le_length [of x j] bit_imp_le_length [of d j] by (auto simp: not_le)

lemma movk_chain:
  "movk_step 3 (half_nat d 48) (movk_step 2 (half_nat d 32) (movk_step 1 (half_nat d 16) (of_nat (half_nat d 0)))) = d"
proof (rule bit_word_eqI)
  fix j assume "j < LENGTH(64)"
  then have j: "j < 64" by simp
  then show "bit (movk_step 3 (half_nat d 48) (movk_step 2 (half_nat d 32) (movk_step 1 (half_nat d 16) (of_nat (half_nat d 0))))) j = bit d j"
    using bit_movk_step [of 3 d] bit_movk_step [of 2 d] bit_movk_step [of 1 d] bit_half [of d 0 j]
    by (auto simp: not_le not_less)
qed

lemma exec_address:
  "fold (exec_a64 callee) [AMovz 0 i 0, AMovz 16 (half_nat d 0) 0, AMovk 16 (half_nat d 16) 1, AMovk 16 (half_nat d 32) 2,
     AMovk 16 (half_nat d 48) 3] s = s\<lparr>ar := (ar s)(0 := of_nat i, 16 := d)\<rparr>"
  using movk_chain [of d] by (simp add: set_rz_def rz_def movk_step_def)

section \<open>The state at the call\<close>

definition call_regs_arm64 :: "stubShape \<Rightarrow> 64 word \<Rightarrow> 64 word \<Rightarrow> astate \<Rightarrow> nat \<Rightarrow> 64 word" where
  "call_regs_arm64 sh d b s = (\<lambda>r.
     if r = 0 then of_nat (sh_index sh) else if r \<le> 15 then ar s (r - 1) else if r = 16 then d
     else if r = 20 then b + 8 else if r = 29 then b else ar s r)"

definition call_mem_arm64 :: "stubShape \<Rightarrow> 64 word \<Rightarrow> astate \<Rightarrow> ram" where
  "call_mem_arm64 sh b s =
     frame_mem b 304 [(0, ar s 29), (8, ar s 30), (16, ar s 15), (24, b + 304)] (zeroed sh) (am s)"

definition call_state_arm64 :: "stubShape \<Rightarrow> 64 word \<Rightarrow> astate \<Rightarrow> astate" where
  "call_state_arm64 sh d s =
     s\<lparr>ar := call_regs_arm64 sh d (asp s - 296) s, asp := asp s - 288, am := call_mem_arm64 sh (asp s - 296) s\<rparr>"

lemma run_to_call_arm64:
  "fold (exec_a64 callee) (pro_a64 @ mid_a64 sh d) s = call_state_arm64 sh d s"
proof -
  define P where "P = pro_a64 @ [ASubI 29 31 8, AStr 15 31 1, AAddI 16 31 296, AStr 16 31 2]"
  have e: "pro_a64 @ mid_a64 sh d = P @ map (\<lambda>w. AStr 31 16 w) (zeroed sh) @
      map (\<lambda>r. AMov (r + 1) r) (rev [0..<15]) @
      [AMovz 0 (sh_index sh) 0, AMovz 16 (half_nat d 0) 0, AMovk 16 (half_nat d 16) 1, AMovk 16 (half_nat d 32) 2,
       AMovk 16 (half_nat d 48) 3]"
    by (simp add: mid_a64_def P_def)
  have s15: "(15::nat) \<le> 30" by simp
  show ?thesis
    by (simp only: e List.fold_append comp_apply exec_open [of callee s, folded P_def] exec_clear exec_shift [OF s15] exec_address)
      (rule astate.equality;
       auto simp: call_state_arm64_def call_regs_arm64_def call_mem_arm64_def frame_mem_def fun_eq_iff add.commute)
qed

lemma frame_ok_arm64:
  "words sh \<le> 4096 \<Longrightarrow>
   frame_ok 304 [(0, ar s 29), (8, ar s 30), (16, ar s 15), (24, b + 304)] (zeroed sh) (words sh)"
  using zeroed_less by (auto simp: frame_ok_def clear_of_def)

lemma call_mem_arm64_frame:
  assumes "words sh \<le> 4096"
  shows "load64 (call_mem_arm64 sh b s) b = ar s 29" "load64 (call_mem_arm64 sh b s) (b + 8) = ar s 30"
    and "load64 (call_mem_arm64 sh b s) (b + 16) = ar s 15" "load64 (call_mem_arm64 sh b s) (b + 24) = b + 304"
  using frame_mem_slot [OF frame_ok_arm64 [OF assms, of s b], of 0 _ b "am s"]
    frame_mem_slot [OF frame_ok_arm64 [OF assms, of s b], of 8 _ b "am s"]
    frame_mem_slot [OF frame_ok_arm64 [OF assms, of s b], of 16 _ b "am s"]
    frame_mem_slot [OF frame_ok_arm64 [OF assms, of s b], of 24 _ b "am s"]
  by (simp_all add: call_mem_arm64_def)

lemma call_mem_arm64_area:
  assumes "words sh \<le> 4096" "k < 8 * words sh"
  shows "call_mem_arm64 sh b s (b + 304 + of_nat k) =
    (if argWords sh \<le> k div 8 \<and> bit (retPtrs sh) (k div 8 - argWords sh) then 0 else am s (b + 304 + of_nat k))"
proof -
  have "k div 8 < words sh" using assms(2) by auto
  then show ?thesis
    using frame_mem_area [OF frame_ok_arm64 [OF assms(1), of s b] assms(2), of b "am s"]
    by (simp add: call_mem_arm64_def set_zeroed cong: if_cong)
qed

lemma call_mem_arm64_other:
  "words sh \<le> 4096 \<Longrightarrow> 304 + 8 * words sh \<le> unat (x - b) \<Longrightarrow> call_mem_arm64 sh b s x = am s x"
  unfolding call_mem_arm64_def by (rule frame_mem_other [OF frame_ok_arm64])

text \<open>After the call: the frame pointer, the link register and the stack pointer are restored.\<close>

lemma exec_close:
  "fold (exec_a64 callee) epi_a64 t =
     t\<lparr>ar := (ar t)(29 := load64 (am t) (asp t - 8), 30 := load64 (am t) (asp t)), asp := asp t + 288\<rparr>"
  by (simp add: epi_a64_def set_rsp_def set_rz_def rsp_def Let_def)

end
