(* ===== verification/LayoutProps.thy ===== *)
theory LayoutProps
  imports LayoutCorrect "HOL-Library.Code_Target_Nat"
begin

text \<open>
  The properties of abi.go: what \<open>regAssign\<close>, \<open>addArg\<close>, \<open>newABILayout\<close> and \<open>shape\<close> promise to
  the dispatcher and to the code generator, each with a concrete instance.
\<close>

section \<open>Helper lemmas\<close>

lemma list_all2_nth_ex:
  "list_all2 P xs ys \<Longrightarrow> i < length xs \<Longrightarrow> i < length ys \<and> P (xs ! i) (ys ! i)"
  by (auto simp: list_all2_conv_all_nth)

lemma bit_pointer_mask:
  fixes sts :: "step list"
  assumes "\<And>st. st \<in> set sts \<Longrightarrow> step_kind st = StepPointer \<Longrightarrow> ireg st < 32"
  shows "bit (pointer_mask sts) i \<longleftrightarrow> (\<exists>st \<in> set sts. step_kind st = StepPointer \<and> ireg st = i)"
proof -
  define f where "f = (\<lambda>(st :: step) (m :: 32 word).
    if step_kind st = StepPointer then m OR push_bit (ireg st) 1 else m)"
  have "bit (fold f sts m) i \<longleftrightarrow>
        bit m i \<or> (\<exists>st \<in> set sts. step_kind st = StepPointer \<and> ireg st = i)" for m
    using assms
  proof (induction sts arbitrary: m)
    case (Cons st sts)
    have "bit (f st m) i \<longleftrightarrow> bit m i \<or> (step_kind st = StepPointer \<and> ireg st = i)"
      using Cons.prems [of st] by (auto simp: f_def bit_simps)
    with Cons show ?case by auto
  qed simp
  then show ?thesis by (simp add: pointer_mask_def f_def)
qed

lemma bit_fold_or:
  fixes m :: "64 word"
  assumes "\<And>x. x \<in> set xs \<Longrightarrow> g x < 64"
  shows "bit (fold (\<lambda>x m. m OR push_bit (g x) 1) xs m) i \<longleftrightarrow> bit m i \<or> (\<exists>x \<in> set xs. g x = i)"
  using assms
proof (induction xs arbitrary: m)
  case (Cons x xs)
  have "bit (m OR push_bit (g x) 1) i \<longleftrightarrow> bit m i \<or> g x = i"
    using Cons.prems [of x] by (auto simp: bit_simps)
  with Cons show ?case by auto
qed simp

lemma is_int_ireg_lt:
  assumes "regs_in_order s" and "st \<in> set (seq_steps s)" and "is_int st"
  shows "ireg st < iregs s"
proof -
  have "ireg st \<in> set (map ireg (filter is_int (seq_steps s)))" using assms by auto
  moreover have "map ireg (filter is_int (seq_steps s)) = [0..<iregs s]"
    using assms(1) by (simp add: regs_in_order_def)
  ultimately show ?thesis by simp
qed

lemma value_ptrs_mem:
  assumes "value_steps t sts" and "p \<in> set (value_ptrs t sts)"
  obtains st where "sts = [st]" "is_stack st" "p \<in> set (ptrs t (stkOff st))"
    "step_size st = size_of t" "stkOff st \<le> p" "p + 8 \<le> stkOff st + size_of t" "8 dvd p"
proof -
  from assms(2) obtain st where st: "sts = [st]" "is_stack st" "p \<in> set (ptrs t (stkOff st))"
    by (cases sts) (auto simp: value_ptrs_def split: if_splits)
  from st(3) ptrs_ok_ptrs(1) [of "stkOff st" t] have p: "align_of t = 8" "stkOff st \<le> p"
    "p + 8 \<le> stkOff st + size_of t" "8 dvd (p - stkOff st)" by (auto simp: ptrs_ok_def)
  then have "size_of t \<noteq> 0" by auto
  with assms(1) st(1,2) have a: "align_of t dvd stkOff st" "step_size st = size_of t"
    by (auto simp: value_steps_def)
  have "8 dvd (p - stkOff st) + stkOff st"
    using p(1,4) a(1) by (intro dvd_add) auto
  then have "8 dvd p" using p(2) by simp
  with that st p a show ?thesis by blast
qed

lemma stack_ptrs_in_slots:
  assumes "seq_inv A base s (pre @ vss)" and "list_all2 value_steps ts vss"
    and "p \<in> set (concat (map2 value_ptrs ts vss))"
  shows "8 dvd p \<and> base \<le> p \<and> p + 8 \<le> seq_stackBytes s"
proof -
  from assms(2,3) obtain i where i: "i < length ts" "i < length vss"
    and p: "p \<in> set (value_ptrs (ts ! i) (vss ! i))"
    by (auto simp: set_zip list_all2_lengthD)
  have "value_steps (ts ! i) (vss ! i)"
    using assms(2) i by (auto simp: list_all2_conv_all_nth)
  from value_ptrs_mem [OF this p] obtain st where st: "vss ! i = [st]" "is_stack st" "stkOff st \<le> p"
    "p + 8 \<le> stkOff st + size_of (ts ! i)" "8 dvd p" "step_size st = size_of (ts ! i)"
    by metis
  have "[st] \<in> set vss" using i(2) st(1) by (metis nth_mem)
  then have "st \<in> set (concat (pre @ vss))" by (auto intro: bexI [of _ "[st]"])
  then have "st \<in> set (seq_steps s)"
    using assms(1) by (simp add: seq_inv_def seq_vals_def)
  then have "base \<le> stkOff st \<and> stkOff st + step_size st \<le> seq_stackBytes s"
    using assms(1) st(2) slots_ok_bounds [of base "filter is_stack (seq_steps s)"]
    by (auto simp: seq_inv_def stack_ok_def)
  with st show ?thesis by auto
qed

section \<open>Concrete methods used as witnesses\<close>

text \<open>
  \<open>Mix(s string, f float64, n int, p *Payload) (string, error)\<close> of the repository's tests, whose
  values all travel in registers, and a method with sixteen strings, which overflows both files.
\<close>

definition mix_ins :: "gotype list" where
  "mix_ins = [TString, TFloat64, TInt, TPointer (TStruct [TInt])]"

definition mix_outs :: "gotype list" where
  "mix_outs = [TString, TInterface ''error'']"

definition many_strs :: "gotype list" where
  "many_strs = replicate 16 TString"

definition layout_of :: "arch \<Rightarrow> gotype list \<Rightarrow> gotype list \<Rightarrow> abiLayout" where
  "layout_of A ins outs = (case newABILayout A (TFunc ins outs False) of Inr l \<Rightarrow> l)"

lemma layout_of_eq: "newABILayout A (TFunc ins outs False) = Inr (layout_of A ins outs)"
  using newABILayout_rel [of A ins outs False] by (auto simp: layout_of_def)

section \<open>Properties\<close>

text \<open>
  \<open>newABILayout\<close> never panics on a func type, whatever its arguments and results, and panics
  on every other type: none of the panics and slice operations inside the register assignment is
  reachable.
\<close>
theorem newABILayout_total:
  "(\<exists>l. newABILayout A ft = Inr l) \<longleftrightarrow> (\<exists>ins outs v. ft = TFunc ins outs v)"
proof
  assume "\<exists>l. newABILayout A ft = Inr l"
  then show "\<exists>ins outs v. ft = TFunc ins outs v"
    by (cases ft) (auto simp: newABILayout_def)
next
  assume "\<exists>ins outs v. ft = TFunc ins outs v"
  then show "\<exists>l. newABILayout A ft = Inr l"
    using newABILayout_rel by blast
qed

text \<open>
  C21. \<open>regAssign\<close> is the ABI's rule: a value goes to registers exactly when its flattening exists
  (it holds no array of two or more elements) and all its pieces fit the registers that are left;
  then each piece takes the next register of its class.
\<close>
theorem regAssign_iff_fits:
  assumes "regs_ok A s"
  shows "\<exists>ok s'. regAssign A t off s = Inr (ok, s') \<and>
           (ok \<longleftrightarrow> (\<exists>ps. flatten t off = Some ps \<and> fits A ps s)) \<and>
           (\<forall>ps. ok \<and> flatten t off = Some ps \<longrightarrow> s' = place ps s)"
  using regAssign_flatten(1) [OF assms, of t off]
  by (auto simp: agrees_def split: option.splits if_splits)

theorem regAssign_iff_fits_witness:
  "regs_ok Amd64 (empty_seq\<lparr>iregs := 7\<rparr>) \<and>
   (\<exists>s'. regAssign Amd64 TString 0 (empty_seq\<lparr>iregs := 7\<rparr>) = Inr (True, s')) \<and>
   (\<exists>s'. regAssign Amd64 (TSlice TInt) 0 (empty_seq\<lparr>iregs := 7\<rparr>) = Inr (False, s'))"
proof -
  have ok: "regs_ok Amd64 (empty_seq\<lparr>iregs := 7\<rparr>)" by (simp add: regs_ok_def empty_seq_def)
  show ?thesis
    using ok regAssign_iff_fits [OF ok, of TString 0] regAssign_iff_fits [OF ok, of "TSlice TInt" 0]
    by (auto simp: fits_def empty_seq_def)
qed

text \<open>
  C22. Every register is handed out once: the integer registers of the argument steps, in order,
  are exactly 0, 1, 2, ... without a gap or a repetition, within the architecture's file, and so
  are the float registers and the registers of the results.
\<close>
theorem layout_registers_once:
  assumes "newABILayout A (TFunc ins outs v) = Inr l" and "s \<in> {l_call l, l_ret l}"
  shows "map ireg (filter is_int (seq_steps s)) = [0..<iregs s] \<and> iregs s \<le> intArgRegs A \<and>
         map freg (filter is_float (seq_steps s)) = [0..<fregs s] \<and> fregs s \<le> floatArgRegs A"
  using assms by (elim layout_relE) (auto simp: layout_rel_def seq_inv_def regs_ok_def regs_in_order_def)

theorem layout_registers_once_witness:
  "\<exists>l. newABILayout Arm64 (TFunc mix_ins mix_outs False) = Inr l \<and>
       map ireg (filter is_int (seq_steps (l_call l))) = [0..<iregs (l_call l)]"
  using layout_registers_once [OF layout_of_eq [of Arm64 mix_ins mix_outs], of "l_call (layout_of Arm64 mix_ins mix_outs)"]
    layout_of_eq [of Arm64 mix_ins mix_outs] by auto

lemma stack_area_facts:
  assumes "newABILayout A (TFunc ins outs v) = Inr l"
  shows "slots_ok 0 (filter is_stack (seq_steps (l_call l))) (stackCallArgsSize l) \<and>
         slots_ok (retOffset l) (filter is_stack (seq_steps (l_ret l))) (stackBytes l) \<and>
         stackCallArgsSize l \<le> retOffset l \<and> retOffset l \<le> stackBytes l \<and>
         8 dvd retOffset l \<and> 8 dvd stackBytes l"
proof -
  from assms obtain avs rvs where r: "layout_rel A ins outs l avs rvs" by (rule layout_relE)
  then have "seq_stackBytes (l_ret l) \<le> stackBytes l" "stackCallArgsSize l \<le> retOffset l"
    by (auto simp: layout_rel_def align_up_ge)
  then show ?thesis
    using r by (auto simp: layout_rel_def seq_inv_def stack_ok_def elim: slots_ok_mono)
qed


text \<open>
  C23. The stack area is laid out without overlap: the slots of the arguments are in order and
  disjoint inside the caller's argument bytes, those of the results are in order and disjoint
  between \<open>retOffset\<close> and the end of the area, and both boundaries are word aligned.
\<close>
theorem layout_stack_area:
  assumes "newABILayout A (TFunc ins outs v) = Inr l"
  shows "slots_ok 0 (filter is_stack (seq_steps (l_call l))) (stackCallArgsSize l) \<and>
         slots_ok (retOffset l) (filter is_stack (seq_steps (l_ret l))) (stackBytes l) \<and>
         stackCallArgsSize l \<le> retOffset l \<and> retOffset l \<le> stackBytes l \<and>
         8 dvd retOffset l \<and> 8 dvd stackBytes l"
  using assms by (rule stack_area_facts)

theorem layout_stack_area_witness:
  "\<exists>l. newABILayout Amd64 (TFunc many_strs many_strs False) = Inr l \<and>
       stackCallArgsSize l = 192 \<and> retOffset l \<le> stackBytes l"
proof -
  have "stackCallArgsSize (layout_of Amd64 many_strs many_strs) = 192" by code_simp
  then show ?thesis
    using layout_stack_area [OF layout_of_eq [of Amd64 many_strs many_strs]]
      layout_of_eq [of Amd64 many_strs many_strs] by blast
qed

lemma layout_value_facts:
  assumes "newABILayout A (TFunc ins outs v) = Inr l"
  shows "(i < length ins \<longrightarrow>
            (\<exists>sts. stepsForValue (l_call l) (i + 1) = Inr sts \<and> value_steps (ins ! i) sts)) \<and>
         (i < length outs \<longrightarrow>
            (\<exists>sts. stepsForValue (l_ret l) i = Inr sts \<and> value_steps (outs ! i) sts)) \<and>
         argStepCount l = length ins + 1"
proof -
  from assms obtain avs rvs where r: "layout_rel A ins outs l avs rvs" by (rule layout_relE)
  then have c: "seq_vals (l_call l) (rcvr_steps A # avs)" "list_all2 value_steps ins avs"
    and o': "seq_vals (l_ret l) rvs" "list_all2 value_steps outs rvs"
    by (auto simp: layout_rel_def seq_inv_def)
  show ?thesis
    using stepsForValue_vals [OF c(1), of "i + 1"] stepsForValue_vals [OF o'(1), of i]
      list_all2_nth_ex [OF c(2), of i] list_all2_nth_ex [OF o'(2), of i]
      list_all2_lengthD [OF c(2)] c(1)
    by (auto simp: argStepCount_def seq_vals_def)
qed


text \<open>
  Every argument and every result is found again by \<open>stepsForValue\<close>, and is passed as the
  type demands: as nothing if it has no size, as one aligned slot of its full size, or as one
  register per piece of its flattening. Arguments are shifted by one because of the receiver.
\<close>
theorem layout_values:
  assumes "newABILayout A (TFunc ins outs v) = Inr l"
  shows "(i < length ins \<longrightarrow>
            (\<exists>sts. stepsForValue (l_call l) (i + 1) = Inr sts \<and> value_steps (ins ! i) sts)) \<and>
         (i < length outs \<longrightarrow>
            (\<exists>sts. stepsForValue (l_ret l) i = Inr sts \<and> value_steps (outs ! i) sts)) \<and>
         argStepCount l = length ins + 1"
  using assms by (rule layout_value_facts)

theorem layout_values_witness:
  "\<exists>l. newABILayout Amd64 (TFunc mix_ins mix_outs False) = Inr l \<and> argStepCount l = 5 \<and>
       (\<exists>sts. stepsForValue (l_call l) 2 = Inr sts \<and> value_steps TFloat64 sts)"
  using layout_values [OF layout_of_eq [of Amd64 mix_ins mix_outs], of 1]
    layout_of_eq [of Amd64 mix_ins mix_outs]
  by (auto simp: mix_ins_def numeral_2_eq_2)

text \<open>
  The registers of a register-passed value tile it: its pieces are in order, at most eight
  bytes each, disjoint and inside the value, and the pieces marked \<open>stepPointer\<close> are exactly the
  value's pointer words except the itab word of an interface.
\<close>
theorem register_pieces_tile:
  assumes "value_steps t sts" and "size_of t \<noteq> 0" and "\<forall>st \<in> set sts. \<not> is_stack st"
  shows "pieces_ok 0 (map piece_of sts) (size_of t) \<and>
         map step_offset (filter (\<lambda>st. step_kind st = StepPointer) sts) = data_ptrs t 0 \<and>
         set (data_ptrs t 0) \<subseteq> set (ptrOffsets t 0 [])"
proof -
  from assms have f: "flatten t 0 = Some (map piece_of sts)"
    by (auto simp: value_steps_def)
  have "ptr_pieces (map piece_of xs) = map step_offset (filter (\<lambda>st. step_kind st = StepPointer) xs)"
    for xs :: "step list"
  proof (induction xs)
    case (Cons x xs)
    then show ?case by (cases "step_kind x") (auto simp: piece_of_def)
  qed simp
  then show ?thesis
    using flatten_pieces_ok(1) [OF f] flatten_ptr_pieces(1) [OF f] data_ptrs_subset(1) [of t 0]
    by simp
qed

theorem register_pieces_tile_witness:
  "value_steps (TInterface ''error'') (place_steps [(0, 8, CInt), (8, 8, CPtr)] 1 0) \<and>
   pieces_ok 0 [(0, 8, CInt), (8, 8, CPtr)] 16 \<and> data_ptrs (TInterface ''error'') 0 = [8]"
proof -
  have v: "value_steps (TInterface ''error'') (place_steps [(0, 8, CInt), (8, 8, CPtr)] 1 0)"
    by (simp add: value_steps_def piece_of_def is_stack_def)
  show ?thesis
    using v register_pieces_tile [OF v] by (simp add: is_stack_def)
qed

text \<open>
  \<open>ptrMask\<close> is exact: bit i is set exactly when integer register i carries a pointer of the
  receiver or of an argument; on the two supported architectures the receiver's bit 0 is set.
\<close>
theorem ptrMask_exact:
  assumes "newABILayout A (TFunc ins outs v) = Inr l"
  shows "(bit (ptrMask l) i \<longleftrightarrow>
            (\<exists>st \<in> set (seq_steps (l_call l)). step_kind st = StepPointer \<and> ireg st = i)) \<and>
         (A \<noteq> OtherArch \<longrightarrow> bit (ptrMask l) 0)"
proof -
  from assms obtain avs rvs where r: "layout_rel A ins outs l avs rvs" by (rule layout_relE)
  then have "regs_in_order (l_call l)" "iregs (l_call l) \<le> intArgRegs A"
    and m: "ptrMask l = pointer_mask (seq_steps (l_call l))"
    by (auto simp: layout_rel_def seq_inv_def regs_ok_def)
  then have "ireg st < 32" if "st \<in> set (seq_steps (l_call l))" "step_kind st = StepPointer" for st
    using that is_int_ireg_lt [of "l_call l" st] by (cases A) (auto simp: is_int_def)
  then have exact: "bit (ptrMask l) i \<longleftrightarrow>
      (\<exists>st \<in> set (seq_steps (l_call l)). step_kind st = StepPointer \<and> ireg st = i)" for i
    unfolding m by (rule bit_pointer_mask)
  have "set (rcvr_steps A) \<subseteq> set (seq_steps (l_call l))"
    using r by (auto simp: layout_rel_def seq_inv_def seq_vals_def)
  then have "A \<noteq> OtherArch \<Longrightarrow> bit (ptrMask l) 0"
    unfolding exact by (cases A) (auto simp: rcvr_steps_def intro!: bexI)
  with exact show ?thesis by blast
qed

theorem ptrMask_exact_witness:
  "\<exists>l. newABILayout Amd64 (TFunc mix_ins mix_outs False) = Inr l \<and> bit (ptrMask l) 0 \<and>
       bit (ptrMask l) 1 \<and> \<not> bit (ptrMask l) 2 \<and> \<not> bit (ptrMask l) 3 \<and> bit (ptrMask l) 4"
proof -
  have "seq_steps (l_call (layout_of Amd64 mix_ins mix_outs)) =
    [\<lparr>step_kind = StepPointer, step_offset = 0, step_size = 8, stkOff = 0, ireg = 0, freg = 0\<rparr>,
     \<lparr>step_kind = StepPointer, step_offset = 0, step_size = 8, stkOff = 0, ireg = 1, freg = 0\<rparr>,
     \<lparr>step_kind = StepIntReg, step_offset = 8, step_size = 8, stkOff = 0, ireg = 2, freg = 0\<rparr>,
     \<lparr>step_kind = StepFloatReg, step_offset = 0, step_size = 8, stkOff = 0, ireg = 0, freg = 0\<rparr>,
     \<lparr>step_kind = StepIntReg, step_offset = 0, step_size = 8, stkOff = 0, ireg = 3, freg = 0\<rparr>,
     \<lparr>step_kind = StepPointer, step_offset = 0, step_size = 8, stkOff = 0, ireg = 4, freg = 0\<rparr>]"
    by code_simp
  then show ?thesis
    using layout_of_eq [of Amd64 mix_ins mix_outs]
    by (simp add: ptrMask_exact [OF layout_of_eq])
qed

lemma stack_pointer_facts:
  assumes "newABILayout A (TFunc ins outs v) = Inr l"
  shows "(p \<in> set (stackPtrOffs l) \<longleftrightarrow>
            (\<exists>i < length ins. \<exists>st. stepsForValue (l_call l) (i + 1) = Inr [st] \<and> is_stack st \<and>
                p \<in> set (ptrOffsets (ins ! i) (stkOff st) []))) \<and>
         (p \<in> set (retStackPtrOffs l) \<longleftrightarrow>
            (\<exists>i < length outs. \<exists>st. stepsForValue (l_ret l) i = Inr [st] \<and> is_stack st \<and>
                p \<in> set (ptrOffsets (outs ! i) (stkOff st) []))) \<and>
         (p \<in> set (stackPtrOffs l) \<longrightarrow> 8 dvd p \<and> p + 8 \<le> stackCallArgsSize l) \<and>
         (p \<in> set (retStackPtrOffs l) \<longrightarrow> 8 dvd p \<and> retOffset l \<le> p \<and> p + 8 \<le> stackBytes l)"
proof -
  from assms obtain avs rvs where r: "layout_rel A ins outs l avs rvs" by (rule layout_relE)
  then have c: "seq_inv A 0 (l_call l) ([rcvr_steps A] @ avs)" "list_all2 value_steps ins avs"
    and o': "seq_inv A (retOffset l) (l_ret l) ([] @ rvs)" "list_all2 value_steps outs rvs"
    and offs: "stackPtrOffs l = concat (map2 value_ptrs ins avs)"
      "retStackPtrOffs l = concat (map2 value_ptrs outs rvs)"
    and sz: "stackCallArgsSize l = seq_stackBytes (l_call l)" "seq_stackBytes (l_ret l) \<le> stackBytes l"
    by (auto simp: layout_rel_def align_up_ge)
  have mem: "p \<in> set (concat (map2 value_ptrs ts vss)) \<longleftrightarrow>
      (\<exists>i < length ts. \<exists>st. stepsForValue s (i + k) = Inr [st] \<and> is_stack st \<and>
         p \<in> set (ptrOffsets (ts ! i) (stkOff st) []))"
    if "seq_vals s (pre @ vss)" "length pre = k" "length ts = length vss" for s pre vss ts k
  proof -
    have "stepsForValue s (i + k) = Inr (vss ! i)" if "i < length vss" for i
      using stepsForValue_vals [OF \<open>seq_vals s (pre @ vss)\<close>, of "i + k"] that \<open>length pre = k\<close>
      by (simp add: nth_append)
    moreover have "q \<in> set (value_ptrs t sts) \<longleftrightarrow>
        (\<exists>st. sts = [st] \<and> is_stack st \<and> q \<in> set (ptrs t (stkOff st)))" for q t sts
      by (cases sts) (auto simp: value_ptrs_def)
    ultimately show ?thesis
      using that(3) by (fastforce simp: set_zip)
  qed
  have sv: "seq_vals (l_call l) ([rcvr_steps A] @ avs)" "seq_vals (l_ret l) ([] @ rvs)"
    using c(1) o'(1) by (auto simp: seq_inv_def)
  have len: "length ins = length avs" "length outs = length rvs"
    using c(2) o'(2) by (auto dest: list_all2_lengthD)
  have "p \<in> set (stackPtrOffs l) \<Longrightarrow> 8 dvd p \<and> p + 8 \<le> stackCallArgsSize l"
    using stack_ptrs_in_slots [OF c, of p] by (simp only: offs sz)
  moreover have "p \<in> set (retStackPtrOffs l) \<Longrightarrow> 8 dvd p \<and> retOffset l \<le> p \<and> p + 8 \<le> stackBytes l"
    using stack_ptrs_in_slots [OF o', of p] le_trans [OF _ sz(2), of "p + 8"] by (simp only: offs)
  moreover note mem [OF sv(1), of 1 ins] mem [OF sv(2), of 0 outs]
  ultimately show ?thesis
    using len unfolding offs by simp
qed


text \<open>
  The pointer words of the stack area are exact and in place: \<open>stackPtrOffs\<close> holds the pointer
  words of the stack-assigned arguments and nothing else, \<open>retStackPtrOffs\<close> those of the
  stack-assigned results; each is a whole, word-aligned word of its part of the area.
\<close>
theorem stack_pointer_words:
  assumes "newABILayout A (TFunc ins outs v) = Inr l"
  shows "(p \<in> set (stackPtrOffs l) \<longleftrightarrow>
            (\<exists>i < length ins. \<exists>st. stepsForValue (l_call l) (i + 1) = Inr [st] \<and> is_stack st \<and>
                p \<in> set (ptrOffsets (ins ! i) (stkOff st) []))) \<and>
         (p \<in> set (retStackPtrOffs l) \<longleftrightarrow>
            (\<exists>i < length outs. \<exists>st. stepsForValue (l_ret l) i = Inr [st] \<and> is_stack st \<and>
                p \<in> set (ptrOffsets (outs ! i) (stkOff st) []))) \<and>
         (p \<in> set (stackPtrOffs l) \<longrightarrow> 8 dvd p \<and> p + 8 \<le> stackCallArgsSize l) \<and>
         (p \<in> set (retStackPtrOffs l) \<longrightarrow> 8 dvd p \<and> retOffset l \<le> p \<and> p + 8 \<le> stackBytes l)"
  using assms by (rule stack_pointer_facts)

text \<open>The witness: with sixteen strings, the fifth is the first to spill on amd64.\<close>

theorem stack_pointer_words_witness:
  "\<exists>l. newABILayout Amd64 (TFunc many_strs [] False) = Inr l \<and> 16 \<in> set (stackPtrOffs l) \<and>
       (8::nat) dvd 16 \<and> 16 + 8 \<le> stackCallArgsSize l"
proof -
  have "16 \<in> set (stackPtrOffs (layout_of Amd64 many_strs []))" by code_simp
  then show ?thesis
    using stack_pointer_words [OF layout_of_eq [of Amd64 many_strs "[]"], of 16]
      layout_of_eq [of Amd64 many_strs "[]"] by blast
qed

lemma shape_words:
  assumes "newABILayout A (TFunc ins outs v) = Inr l" and "stackBytes l \<le> 480"
  shows "\<exists>sh. shape l idx = Inr sh \<and> sh_index sh = idx \<and>
           8 * argWords sh = retOffset l \<and> 8 * words sh = stackBytes l \<and> words sh \<le> 60 \<and>
           (\<forall>i. bit (argPtrs sh) i \<longleftrightarrow> 8 * i \<in> set (stackPtrOffs l)) \<and>
           (\<forall>i. bit (retPtrs sh) i \<longleftrightarrow> retOffset l + 8 * i \<in> set (retStackPtrOffs l))"
proof -
  note words' = stack_pointer_facts [OF assms(1)]
  have le: "stackCallArgsSize l \<le> retOffset l" "retOffset l \<le> stackBytes l"
    "8 dvd retOffset l" "8 dvd stackBytes l"
    using stack_area_facts [OF assms(1)] by auto
  define ap where "ap = fold (\<lambda>off m. m OR push_bit (off div 8) (1 :: 64 word)) (stackPtrOffs l) 0"
  define rp where "rp = fold (\<lambda>off m. m OR push_bit ((off - retOffset l) div 8) (1 :: 64 word))
    (retStackPtrOffs l) 0"
  have "bit ap i \<longleftrightarrow> 8 * i \<in> set (stackPtrOffs l)" for i
  proof -
    have "x div 8 < 64" if "x \<in> set (stackPtrOffs l)" for x
      using words' [of x] that le assms(2) by auto
    then have "bit ap i \<longleftrightarrow> (\<exists>x \<in> set (stackPtrOffs l). x div 8 = i)"
      unfolding ap_def by (subst bit_fold_or) auto
    moreover have "8 dvd x" if "x \<in> set (stackPtrOffs l)" for x
      using words' [of x] that by auto
    ultimately show ?thesis by (metis dvd_mult_div_cancel nonzero_mult_div_cancel_left zero_neq_numeral)
  qed
  moreover have "bit rp i \<longleftrightarrow> retOffset l + 8 * i \<in> set (retStackPtrOffs l)" for i
  proof -
    have "(x - retOffset l) div 8 < 64" if "x \<in> set (retStackPtrOffs l)" for x
      using words' [of x] that le assms(2) by auto
    then have "bit rp i \<longleftrightarrow> (\<exists>x \<in> set (retStackPtrOffs l). (x - retOffset l) div 8 = i)"
      unfolding rp_def by (subst bit_fold_or) auto
    moreover have "retOffset l + 8 * ((x - retOffset l) div 8) = x" if "x \<in> set (retStackPtrOffs l)" for x
      using words' [of x] that le(3) by auto
    ultimately show ?thesis by (metis add_diff_cancel_left' nonzero_mult_div_cancel_left zero_neq_numeral)
  qed
  moreover have "shape l idx = Inr \<lparr>sh_index = idx, argWords = retOffset l div 8,
      retWords = (stackBytes l - retOffset l) div 8, argPtrs = ap, retPtrs = rp\<rparr>"
    using le assms(2)
    by (auto simp: shape_def Let_def ptrSize_def stubMaxWords_def ap_def rp_def)
  ultimately show ?thesis
    using le assms(2) by (auto simp: words_def div_add [symmetric])
qed


text \<open>
  C24. The shape describes the area word by word: for every method that fits the trampoline's
  480-byte window \<open>shape\<close> does not panic, its words cover the area exactly, and bit i of
  \<open>argPtrs\<close> (\<open>retPtrs\<close>) is set exactly when word i of the arguments (results) is a pointer word.
\<close>
theorem shape_exact:
  assumes "newABILayout A (TFunc ins outs v) = Inr l" and "stackBytes l \<le> 480"
  shows "\<exists>sh. shape l idx = Inr sh \<and> sh_index sh = idx \<and>
           8 * argWords sh = retOffset l \<and> 8 * words sh = stackBytes l \<and> words sh \<le> 60 \<and>
           (\<forall>i. bit (argPtrs sh) i \<longleftrightarrow> 8 * i \<in> set (stackPtrOffs l)) \<and>
           (\<forall>i. bit (retPtrs sh) i \<longleftrightarrow> retOffset l + 8 * i \<in> set (retStackPtrOffs l))"
  using assms by (rule shape_words)

theorem shape_exact_witness:
  "\<exists>l sh. newABILayout Amd64 (TFunc many_strs [] False) = Inr l \<and> stackBytes l \<le> 480 \<and>
          shape l 3 = Inr sh \<and> 8 * words sh = stackBytes l \<and> bit (argPtrs sh) 2"
proof -
  have b: "stackBytes (layout_of Amd64 many_strs []) \<le> 480" by code_simp
  have "16 \<in> set (stackPtrOffs (layout_of Amd64 many_strs []))" by code_simp
  then show ?thesis
    using shape_exact [OF layout_of_eq b, of 3] layout_of_eq [of Amd64 many_strs "[]"] b by auto
qed

lemma gathers_bounds:
  assumes "gathers off xs = (g, e)"
  shows "off \<le> e \<and> length g = length xs \<and>
    (\<forall>i < length xs. \<forall>o'. g ! i = Some o' \<longrightarrow>
       off \<le> o' \<and> 8 dvd o' \<and> o' + size_of (fst (xs ! i)) \<le> e)"
  using assms
proof (induction off xs arbitrary: g e rule: gathers.induct)
  case (2 off t sts r)
  show ?case
  proof (cases "1 < length sts \<and> 0 < size_of t")
    case True
    obtain g' where g': "gathers (align_up off 8 + size_of t) r = (g', e)" "g = Some (align_up off 8) # g'"
      using 2(3) True by (auto simp: Let_def split: prod.splits)
    have "off \<le> align_up off 8" by (simp add: align_up_ge)
    with "2.IH"(1) [OF True refl g'(1)] g'(2) show ?thesis
      by (auto simp: nth_Cons split: nat.splits)
  next
    case False
    then obtain g' where g': "gathers off r = (g', e)" "g = None # g'"
      using 2(3) by (auto simp: Let_def split: prod.splits)
    from "2.IH"(2) [OF False g'(1)] g'(2) show ?thesis
      by (auto simp: nth_Cons split: nat.splits)
  qed
qed simp

lemma gathers_some:
  assumes "gathers off xs = (g, e)" and "k < length xs"
  shows "g ! k \<noteq> None \<longleftrightarrow> 1 < length (snd (xs ! k)) \<and> 0 < size_of (fst (xs ! k))"
  using assms
proof (induction off xs arbitrary: g e k rule: gathers.induct)
  case (2 off t sts r)
  show ?case
  proof (cases "1 < length sts \<and> 0 < size_of t")
    case True
    obtain g' where g': "gathers (align_up off 8 + size_of t) r = (g', e)" "g = Some (align_up off 8) # g'"
      using 2(3) True by (auto simp: Let_def split: prod.splits)
    with "2.IH"(1) [OF True refl g'(1)] True "2.prems"(2) show ?thesis by (cases k) auto
  next
    case False
    then obtain g' where g': "gathers off r = (g', e)" "g = None # g'"
      using 2(3) by (auto simp: Let_def split: prod.splits)
    with "2.IH"(2) [OF False g'(1)] False "2.prems"(2) show ?thesis by (cases k) auto
  qed
qed simp

lemma gathers_disjoint:
  assumes "gathers off xs = (g, e)" and "i < j" and "j < length xs"
    and "g ! i = Some oi" and "g ! j = Some oj"
  shows "oi + size_of (fst (xs ! i)) \<le> oj"
  using assms
proof (induction off xs arbitrary: g e i j rule: gathers.induct)
  case (2 off t sts r)
  show ?case
  proof (cases "1 < length sts \<and> 0 < size_of t")
    case True
    obtain g' where g': "gathers (align_up off 8 + size_of t) r = (g', e)" "g = Some (align_up off 8) # g'"
      using 2(3) True by (auto simp: Let_def split: prod.splits)
    show ?thesis
    proof (cases i)
      case 0
      with 2 g' gathers_bounds [OF g'(1)] show ?thesis by (cases j) auto
    next
      case (Suc k)
      with 2 g' True show ?thesis by (cases j) auto
    qed
  next
    case False
    then obtain g' where g': "gathers off r = (g', e)" "g = None # g'"
      using 2(3) by (auto simp: Let_def split: prod.splits)
    with 2 False show ?thesis by (cases i; cases j) auto
  qed
qed simp

text \<open>
  The gather buffer holds exactly the arguments that are spread over several registers, each
  at a word-aligned place of its own size inside the buffer, no two overlapping.
\<close>
theorem gather_buffer:
  assumes "newABILayout A (TFunc ins outs v) = Inr l" and "j < length ins"
  shows "(\<forall>sts. stepsForValue (l_call l) (j + 1) = Inr sts \<longrightarrow>
            (argGather l ! j \<noteq> None \<longleftrightarrow> 1 < length sts \<and> 0 < size_of (ins ! j))) \<and>
         (\<forall>oj. argGather l ! j = Some oj \<longrightarrow>
            8 dvd oj \<and> oj + size_of (ins ! j) \<le> gatherBytes l \<and>
            (\<forall>i oi. i < j \<and> argGather l ! i = Some oi \<longrightarrow> oi + size_of (ins ! i) \<le> oj))"
proof -
  from assms(1) obtain avs rvs where r: "layout_rel A ins outs l avs rvs" by (rule layout_relE)
  then have g: "gathers 0 (zip ins avs) = (argGather l, gatherBytes l)"
    and c: "seq_vals (l_call l) (rcvr_steps A # avs)" and len: "length avs = length ins"
    by (auto simp: layout_rel_def seq_inv_def list_all2_lengthD)
  have "stepsForValue (l_call l) (j + 1) = Inr (avs ! j)"
    using stepsForValue_vals [OF c, of "j + 1"] assms(2) len by simp
  moreover have "argGather l ! j \<noteq> None \<longleftrightarrow> 1 < length (avs ! j) \<and> 0 < size_of (ins ! j)"
    using gathers_some [OF g, of j] assms(2) len by simp
  ultimately show ?thesis
    using gathers_bounds [OF g] gathers_disjoint [OF g, of _ j] assms(2) len
    by (auto simp: less_trans)
qed

theorem gather_buffer_witness:
  "\<exists>l. newABILayout Arm64 (TFunc mix_ins mix_outs False) = Inr l \<and> argGather l ! 0 = Some 0 \<and>
       0 + size_of TString \<le> gatherBytes l"
proof -
  have "argGather (layout_of Arm64 mix_ins mix_outs) ! 0 = Some 0" by code_simp
  then show ?thesis
    using gather_buffer [OF layout_of_eq [of Arm64 mix_ins mix_outs], of 0]
      layout_of_eq [of Arm64 mix_ins mix_outs]
    by (auto simp: mix_ins_def)
qed

text \<open>
  Spilling is per argument: the register counters are those before the spilled argument, so
  a later argument that is small enough still travels in registers. The head of abi.go and
  docs/en/02-register-abi.md say that everything after a spilled argument stays on the stack.
\<close>
theorem spill_is_not_sticky:
  "\<exists>l st0 st1. newABILayout A (TFunc [TArray 2 TInt, TFloat64] [] False) = Inr l \<and>
     stepsForValue (l_call l) 1 = Inr [st0] \<and> is_stack st0 \<and>
     stepsForValue (l_call l) 2 = Inr [st1] \<and> (is_float st1 \<longleftrightarrow> A \<noteq> OtherArch)"
proof (cases A)
  case Amd64
  have "stepsForValue (l_call (layout_of Amd64 [TArray 2 TInt, TFloat64] [])) 1 =
      Inr [\<lparr>step_kind = StepStack, step_offset = 0, step_size = 16, stkOff = 0, ireg = 0, freg = 0\<rparr>]"
    "stepsForValue (l_call (layout_of Amd64 [TArray 2 TInt, TFloat64] [])) 2 =
      Inr [\<lparr>step_kind = StepFloatReg, step_offset = 0, step_size = 8, stkOff = 0, ireg = 0, freg = 0\<rparr>]"
    by code_simp+
  with Amd64 show ?thesis
    using layout_of_eq [of Amd64 "[TArray 2 TInt, TFloat64]" "[]"]
    by (auto simp: step_class_defs)
next
  case Arm64
  have "stepsForValue (l_call (layout_of Arm64 [TArray 2 TInt, TFloat64] [])) 1 =
      Inr [\<lparr>step_kind = StepStack, step_offset = 0, step_size = 16, stkOff = 0, ireg = 0, freg = 0\<rparr>]"
    "stepsForValue (l_call (layout_of Arm64 [TArray 2 TInt, TFloat64] [])) 2 =
      Inr [\<lparr>step_kind = StepFloatReg, step_offset = 0, step_size = 8, stkOff = 0, ireg = 0, freg = 0\<rparr>]"
    by code_simp+
  with Arm64 show ?thesis
    using layout_of_eq [of Arm64 "[TArray 2 TInt, TFloat64]" "[]"]
    by (auto simp: step_class_defs)
next
  case OtherArch
  have "stepsForValue (l_call (layout_of OtherArch [TArray 2 TInt, TFloat64] [])) 1 =
      Inr [\<lparr>step_kind = StepStack, step_offset = 0, step_size = 16, stkOff = 8, ireg = 0, freg = 0\<rparr>]"
    "stepsForValue (l_call (layout_of OtherArch [TArray 2 TInt, TFloat64] [])) 2 =
      Inr [\<lparr>step_kind = StepStack, step_offset = 0, step_size = 8, stkOff = 24, ireg = 0, freg = 0\<rparr>]"
    by code_simp+
  with OtherArch show ?thesis
    using layout_of_eq [of OtherArch "[TArray 2 TInt, TFloat64]" "[]"]
    by (auto simp: step_class_defs)
qed

end
