(* ===== verification/JitCorrect.thy ===== *)
theory JitCorrect
  imports Jit TrampAmd64 RunArm64 LayoutProps
begin

text \<open>
  Every operation of jit.go keeps the invariant of its state, whatever the code generator of the
  architecture, as long as it keeps its contract; both generators do.
\<close>

section \<open>What a shape says of a method\<close>

text \<open>The area covers the method's, and a word is marked exactly when the method passes a pointer there.\<close>

definition describes :: "abiLayout \<Rightarrow> stubShape \<Rightarrow> bool" where
  "describes l sh \<longleftrightarrow> stackBytes l \<le> 8 * words sh \<and> words sh \<le> 60 \<and>
     (\<forall>i<words sh. is_ptr sh i \<longleftrightarrow> 8 * i \<in> set (stackPtrOffs l) \<union> set (retStackPtrOffs l)) \<and>
     (\<forall>i<words sh. argWords sh \<le> i \<and> bit (retPtrs sh) (i - argWords sh) \<longleftrightarrow> 8 * i \<in> set (retStackPtrOffs l))"

section \<open>Without any contract\<close>

lemma res_fold_snoc: "res_fold f (xs @ [x]) a = res_bind (res_fold f xs a) (f x)"
  by (induction xs arbitrary: a) (auto simp: res_bind_def split: sum.split)

text \<open>A shape is generated once: asking again gives the same pointer and changes nothing.\<close>

lemma jitTrampoline_caches:
  assumes "jitTrampoline gen v q mm sh s = Inr (Some p, s')"
  shows "jitBySh s' sh = Some p"
proof (cases "jitBySh s sh")
  case (Some c)
  then show ?thesis using assms by (simp add: jitTrampoline_def)
next
  case None
  then obtain code pcsp where g: "gen sh = Inr (code, pcsp)"
    using assms by (auto simp: jitTrampoline_def res_bind_def split: sum.splits)
  then obtain base where "mm (jmods s) (length code) = Some base"
    using assms None by (cases "mm (jmods s) (length code)") (auto simp: jitTrampoline_def jitExecAlloc_def)
  then show ?thesis
    using assms None g by (auto simp: jitTrampoline_def jitExecAlloc_def Let_def)
qed

lemma jitTrampoline_again:
  "jitTrampoline gen v q mm sh s = Inr (Some p, s') \<Longrightarrow> jitTrampoline gen v q mm' sh s' = Inr (Some p, s')"
  using jitTrampoline_caches [of gen v q mm sh s p s'] by (simp add: jitTrampoline_def [of gen v q mm'])

section \<open>The code generator\<close>

locale code_generator =
  fixes gen :: codegen and shape_ok :: "stubShape \<Rightarrow> bool"
  assumes gen_code: "shape_ok sh \<Longrightarrow>
    \<exists>code pcsp. gen sh = Inr (code, pcsp) \<and> 0 < length code \<and> length code \<le> 4096 \<and> words sh \<le> 2 ^ 20"
begin

lemma cached_ok_mono: "jit_extends s s' \<Longrightarrow> cached_ok gen v q s sh p \<Longrightarrow> cached_ok gen v q s' sh p"
  by (fastforce simp: cached_ok_def jit_extends_def map_le_def dom_def)

text \<open>A generated trampoline keeps the invariant; a failed mapping changes nothing.\<close>

lemma jitTrampoline_ok:
  assumes ok: "jit_ok gen v q s" and mm: "mmap_fresh mm" and sh: "shape_ok sh"
  shows "\<exists>c s'. jitTrampoline gen v q mm sh s = Inr (c, s') \<and> jit_ok gen v q s' \<and> jit_extends s s' \<and>
    (case c of None \<Rightarrow> s' = s | Some p \<Rightarrow> jitBySh s' sh = Some p) \<and>
    (\<forall>k. mmap_serves mm (Suc k) (jmods s) \<longrightarrow> c \<noteq> None \<and> mmap_serves mm k (jmods s'))"
proof (cases "jitBySh s sh")
  case (Some p)
  moreover have "mmap_serves mm (Suc k) (jmods s) \<Longrightarrow> mmap_serves mm k (jmods s)" for k
    by (erule mmap_serves_less) simp
  ultimately show ?thesis using ok by (simp add: jitTrampoline_def del: mmap_serves.simps)
next
  case none: None
  obtain code pcsp where g: "gen sh = Inr (code, pcsp)" "0 < length code" "length code \<le> 4096" "words sh \<le> 2 ^ 20"
    using gen_code [OF sh] by blast
  show ?thesis
  proof (cases "mm (jmods s) (length code)")
    case None
    then have "\<not> mmap_serves mm (Suc k) (jmods s)" for k using g(2,3) by auto
    then show ?thesis using None none g ok by (auto simp: jitTrampoline_def jitExecAlloc_def simp del: mmap_serves.simps)
  next
    case (Some base)
    define md where "md = buildJITModule v q base code pcsp sh"
    define s' where "s' = s\<lparr>jitBySh := (jitBySh s)(sh \<mapsto> base), jmods := jmods s @ [md],
      jitRoots := (jitRoots s @ [RootTables md]) @ [RootPage base, RootModule md], pages := (pages s)(base \<mapsto> code)\<rparr>"
    have run: "jitTrampoline gen v q mm sh s = Inr (Some base, s')"
      using none g Some by (simp add: jitTrampoline_def jitExecAlloc_def registerModule_def Let_def s'_def md_def)
    have wrap: "unat base + length code < 2 ^ 64"
      and free: "\<And>m pc. m \<in> set (jmods s) \<Longrightarrow> base \<le> pc \<Longrightarrow> pc < base + of_nat (length code) \<Longrightarrow> \<not> in_text m pc"
      using mmap_freshD [OF mm Some g(2)] by blast+
    have inb: "base < base + of_nat (length code)" using base_in_text [OF wrap g(2)] .
    have new: "base \<noteq> p" if c: "jitBySh s sh' = Some p" for sh' p
    proof
      assume "base = p"
      from c ok have "cached_ok gen v q s sh' p" by (simp add: jit_ok_def)
      then obtain code' pcsp' where k: "buildJITModule v q p code' pcsp' sh' \<in> set (jmods s)" "0 < length code'"
        "unat p + length code' < 2 ^ 64" by (auto simp: cached_ok_def)
      have "in_text (buildJITModule v q p code' pcsp' sh') p"
        using base_in_text [OF k(3,2)] by (simp add: module_text)
      with free [OF k(1), of p] inb \<open>base = p\<close> show False by simp
    qed
    have ext: "jit_extends s s'"
    proof -
      have "base \<notin> ran (jitBySh s)" using new by (auto simp: ran_def)
      then have "base \<notin> dom (pages s)" using ok unfolding jit_ok_def by blast
      then show ?thesis using none by (auto simp: jit_extends_def s'_def map_le_def)
    qed
    have "cached_ok gen v q s' sh base"
      using g wrap by (auto simp: cached_ok_def s'_def md_def)
    moreover have "cached_ok gen v q s' sh' p" if "jitBySh s sh' = Some p" for sh' p
      using that ok by (intro cached_ok_mono [OF ext]) (auto simp: jit_ok_def)
    ultimately have "\<forall>sh' p. jitBySh s' sh' = Some p \<longrightarrow> cached_ok gen v q s' sh' p"
      by (auto simp: s'_def)
    moreover have "inj_on (jitBySh s') (dom (jitBySh s'))"
      using ok new by (auto simp: jit_ok_def s'_def inj_on_def)
    moreover have "dom (pages s') \<subseteq> ran (jitBySh s')"
      using ok none by (auto simp: jit_ok_def s'_def)
    moreover have "sorted_wrt disjoint_text (jmods s')"
      using ok free by (auto simp: jit_ok_def s'_def sorted_wrt_append disjoint_text_def module_text md_def)
    ultimately have "jit_ok gen v q s'" by (simp add: jit_ok_def)
    moreover have "mmap_serves mm k (jmods s')" if "mmap_serves mm (Suc k) (jmods s)" for k
    proof -
      have "md_minpc md = base" "md_maxpc md = base + of_nat (length code)"
        by (simp_all add: md_def buildJITModule_def Let_def)
      then show ?thesis using that g(2,3) Some by (auto simp: s'_def)
    qed
    ultimately show ?thesis using run ext by (auto simp: s'_def simp del: mmap_serves.simps)
  qed
qed

lemma jitTrampoline_run:
  assumes "jit_ok gen v q s" "mmap_fresh mm" "shape_ok sh"
  obtains c s' where "jitTrampoline gen v q mm sh s = Inr (c, s')" "jit_ok gen v q s'" "jit_extends s s'"
    "case c of None \<Rightarrow> s' = s | Some p \<Rightarrow> jitBySh s' sh = Some p"
    "\<forall>k. mmap_serves mm (Suc k) (jmods s) \<longrightarrow> c \<noteq> None \<and> mmap_serves mm k (jmods s')"
proof -
  from jitTrampoline_ok [OF assms] obtain c s' where
    "jitTrampoline gen v q mm sh s = Inr (c, s') \<and> jit_ok gen v q s' \<and> jit_extends s s' \<and>
    (case c of None \<Rightarrow> s' = s | Some p \<Rightarrow> jitBySh s' sh = Some p) \<and>
    (\<forall>k. mmap_serves mm (Suc k) (jmods s) \<longrightarrow> c \<noteq> None \<and> mmap_serves mm k (jmods s'))" by (elim exE)
  then show thesis using that [of c s'] by blast
qed

section \<open>The generic trampolines\<close>

text \<open>\<open>init\<close> fills the slots in order; it panics only when a mapping fails.\<close>

lemma jit_init_steps:
  assumes ok: "jit_ok gen v q s" and mm: "mmap_fresh mm" and sh: "\<And>i. i < n \<Longrightarrow> shape_ok (generic_shape A i)"
  defines "step \<equiv> \<lambda>i (stubs, s). res_bind (jitTrampoline gen v q mm (generic_shape A i) s) (\<lambda>(c, s').
         case c of None \<Rightarrow> Inl ''weave: runtime JIT failed to generate a generic trampoline''
         | Some p \<Rightarrow> Inr (stubs @ [p], s'))"
  shows "case res_fold step [0..<n] ([], s) of
      Inr (stubs, s') \<Rightarrow> jit_ok gen v q s' \<and> jit_extends s s' \<and> stubs_ok A stubs n s' \<and>
        (\<forall>k. mmap_serves mm (n + k) (jmods s) \<longrightarrow> mmap_serves mm k (jmods s'))
    | Inl e \<Rightarrow> \<not> mmap_serves mm n (jmods s)"
  using sh
proof (induction n)
  case 0
  show ?case using ok by (simp add: stubs_ok_def)
next
  case (Suc n)
  then have sh: "shape_ok (generic_shape A n)" by simp
  show ?case
  proof (cases "res_fold step [0..<n] ([], s)")
    case (Inl e)
    then have "\<not> mmap_serves mm n (jmods s)" using Suc by simp
    then have "\<not> mmap_serves mm (Suc n) (jmods s)" using mmap_serves_less by (metis le_add2 plus_1_eq_Suc)
    then show ?thesis using Inl by (simp add: res_fold_snoc del: mmap_serves.simps)
  next
    case (Inr r)
    then obtain stubs s' where good: "res_fold step [0..<n] ([], s) = Inr (stubs, s')" "jit_ok gen v q s'"
      "jit_extends s s'" "stubs_ok A stubs n s'"
      "\<And>k. mmap_serves mm (n + k) (jmods s) \<Longrightarrow> mmap_serves mm k (jmods s')"
      using Suc by (cases r) auto
    obtain c s'' where c: "jitTrampoline gen v q mm (generic_shape A n) s' = Inr (c, s'')" "jit_ok gen v q s''"
      "jit_extends s' s''" "case c of None \<Rightarrow> s'' = s' | Some p \<Rightarrow> jitBySh s'' (generic_shape A n) = Some p"
      "\<forall>k. mmap_serves mm (Suc k) (jmods s') \<longrightarrow> c \<noteq> None \<and> mmap_serves mm k (jmods s'')"
      by (rule jitTrampoline_run [OF good(2) mm sh])
    show ?thesis
    proof (cases c)
      case None
      have "\<not> mmap_serves mm (Suc n) (jmods s)" using good(5) [of "Suc 0"] c(5) [rule_format, of 0] None by (auto simp del: mmap_serves.simps)
      then show ?thesis using good c None by (simp add: res_fold_snoc step_def del: mmap_serves.simps)
    next
      case (Some p)
      have "stubs_ok A (stubs @ [p]) (Suc n) s''"
        using stubs_ok_mono [OF good(4) c(3)] c(4) Some by (auto simp: stubs_ok_def nth_append less_Suc_eq)
      moreover have "jit_extends s s''" using good(3) c(3) by (rule jit_extends_trans)
      moreover have "mmap_serves mm k (jmods s'')" if "mmap_serves mm (Suc n + k) (jmods s)" for k
        using good(5) [of "Suc k"] c(5) [rule_format, of k] that by simp
      ultimately show ?thesis
        using good(1) c(1,2) Some by (simp add: res_fold_snoc step_def del: mmap_serves.simps)
    qed
  qed
qed

lemma jit_init_ok:
  assumes "jit_ok gen v q s" and "mmap_fresh mm" and "\<And>i. i < slotCount \<Longrightarrow> shape_ok (generic_shape A i)"
  shows "case jit_init A gen v q mm s of
      Inr (stubs, s') \<Rightarrow> jit_ok gen v q s' \<and> jit_extends s s' \<and> stubs_ok A stubs slotCount s' \<and>
        (\<forall>k. mmap_serves mm (slotCount + k) (jmods s) \<longrightarrow> mmap_serves mm k (jmods s'))
    | Inl e \<Rightarrow> \<not> mmap_serves mm slotCount (jmods s)"
  unfolding jit_init_def by (rule jit_init_steps [OF assms])

section \<open>Choosing a trampoline\<close>

text \<open>
  The trampoline of a method: its index is the method's, its area covers the method's, and a word is
  marked exactly when the method passes a pointer there.
\<close>

lemma newTrampoline_ok:
  assumes ok: "jit_ok gen v q s" and mm: "mmap_fresh mm" and stubs: "stubs_ok A stubs slotCount s"
    and l: "newABILayout A (TFunc ins outs variadic) = Inr l"
    and sh: "\<And>sh. sh_index sh = idx \<Longrightarrow> words sh \<le> 60 \<Longrightarrow> shape_ok sh"
  shows "case newTrampoline A gen v q mm stubs l idx s of
      Inr (p, s') \<Rightarrow> layout_fits A l idx \<and> jit_ok gen v q s' \<and> jit_extends s s' \<and>
        (\<exists>sh. jitBySh s' sh = Some p \<and> sh_index sh = idx \<and> describes l sh) \<and>
        (\<forall>k. mmap_serves mm (Suc k) (jmods s) \<longrightarrow> mmap_serves mm k (jmods s'))
    | Inl e \<Rightarrow> \<not> layout_fits A l idx \<or> \<not> mmap_serves mm 1 (jmods s)"
proof (cases "hasTrampoline A \<and> stackBytes l \<le> stackWindow A")
  case False
  then show ?thesis by (auto simp: newTrampoline_def layout_fits_def)
next
  case A: True
  then have w: "stackWindow A = 480" by (cases A) (auto simp: hasTrampoline_def)
  show ?thesis
  proof (cases "stackPointers l")
    case False
    show ?thesis
    proof (cases "idx < slotCount")
      case True
      have "describes l (generic_shape A idx)"
        using False A w by (simp add: describes_def generic_shape_def words_def is_ptr_def stackPointers_def ptrSize_def)
      moreover have "jitBySh s (generic_shape A idx) = Some (stubs ! idx)" using stubs True by (simp add: stubs_ok_def)
      moreover have "sh_index (generic_shape A idx) = idx" by (simp add: generic_shape_def)
      moreover have "mmap_serves mm (Suc k) (jmods s) \<Longrightarrow> mmap_serves mm k (jmods s)" for k
        by (erule mmap_serves_less) simp
      moreover have "newTrampoline A gen v q mm stubs l idx s = Inr (stubs ! idx, s)"
        using A False True by (simp add: newTrampoline_def slotCode_def)
      ultimately show ?thesis
        using ok A True by (auto simp: layout_fits_def simp del: mmap_serves.simps)
    next
      case out: False
      then show ?thesis using A False by (simp add: newTrampoline_def slotCode_def layout_fits_def)
    qed
  next
    case True
    obtain sh where s: "shape l idx = Inr sh" "sh_index sh = idx" "8 * argWords sh = retOffset l"
      "8 * words sh = stackBytes l" "words sh \<le> 60"
      "\<And>i. bit (argPtrs sh) i \<longleftrightarrow> 8 * i \<in> set (stackPtrOffs l)"
      "\<And>i. bit (retPtrs sh) i \<longleftrightarrow> retOffset l + 8 * i \<in> set (retStackPtrOffs l)"
      using shape_words [OF l, of idx] A w by auto
    obtain c s' where c: "jitTrampoline gen v q mm sh s = Inr (c, s')" "jit_ok gen v q s'" "jit_extends s s'"
      "case c of None \<Rightarrow> s' = s | Some p \<Rightarrow> jitBySh s' sh = Some p"
      "\<forall>k. mmap_serves mm (Suc k) (jmods s) \<longrightarrow> c \<noteq> None \<and> mmap_serves mm k (jmods s')"
      by (rule jitTrampoline_run [OF ok mm assms(5) [OF s(2,5)]])
    have run: "newTrampoline A gen v q mm stubs l idx s =
        (case c of None \<Rightarrow> Inl ''weave: no trampoline could be generated'' | Some p \<Rightarrow> Inr (p, s'))"
      using A True s(1) c(1) by (simp add: newTrampoline_def)
    have "describes l sh"
      unfolding describes_def
    proof (intro conjI allI impI)
      show "stackBytes l \<le> 8 * words sh" "words sh \<le> 60" using s(4,5) by simp_all
      fix i assume "i < words sh"
      have le: "stackCallArgsSize l \<le> retOffset l" using stack_area_facts [OF l] by blast
      have a: "8 * i + 8 \<le> stackCallArgsSize l" if "8 * i \<in> set (stackPtrOffs l)"
        using stack_pointer_facts [OF l, of "8 * i"] that by blast
      have r: "retOffset l \<le> 8 * i" if "8 * i \<in> set (retStackPtrOffs l)"
        using stack_pointer_facts [OF l, of "8 * i"] that by blast
      have arg: "8 * i \<notin> set (retStackPtrOffs l)" if "i < argWords sh" using that r s(3) by linarith
      have ret: "8 * i \<notin> set (stackPtrOffs l)" "retOffset l + 8 * (i - argWords sh) = 8 * i" if "\<not> i < argWords sh"
        using that a s(3) le by (linarith, simp)
      show "is_ptr sh i \<longleftrightarrow> 8 * i \<in> set (stackPtrOffs l) \<union> set (retStackPtrOffs l)"
        using arg ret s(6) s(7) [of "i - argWords sh"] by (cases "i < argWords sh") (simp_all add: is_ptr_bits)
      show "argWords sh \<le> i \<and> bit (retPtrs sh) (i - argWords sh) \<longleftrightarrow> 8 * i \<in> set (retStackPtrOffs l)"
        using arg ret s(7) [of "i - argWords sh"] by (cases "i < argWords sh") auto
    qed
    then show ?thesis
      using A True c(2-4) c(5) [rule_format, of 0] c(5) s(2) unfolding run One_nat_def
      by (cases c) (auto simp: layout_fits_def simp del: mmap_serves.simps)
  qed
qed

end

section \<open>Both generators keep the contract\<close>

interpretation amd64_gen: code_generator "\<lambda>sh. jitStubCode_amd64 sh d" "\<lambda>sh. stub_fits sh d" for d
proof
  fix sh assume f: "stub_fits sh d"
  have "length (concat (map (\<lambda>w. zero_ins (8 * w)) ws)) \<le> 11 * length ws" for ws
    by (induction ws) (auto simp: zero_ins_def dispEncoding_def imm32_def)
  then have "length (concat (map (\<lambda>w. zero_ins (8 * w)) (zeroed sh))) \<le> 11 * 64"
    using length_zeroed(2) [of sh] by (meson le_trans mult_le_mono2)
  then have "length (concat (stub_bytes sh d)) \<le> 4096"
    by (simp add: stub_bytes_def mid_bytes_def pro_bytes_def epi_bytes_def)
  moreover have "0 < length (concat (stub_bytes sh d))" by (simp add: stub_bytes_def pro_bytes_def)
  ultimately show "\<exists>code pcsp. jitStubCode_amd64 sh d = Inr (code, pcsp) \<and> 0 < length code \<and> length code \<le> 4096 \<and>
      words sh \<le> 2 ^ 20"
    using jitStubCode_amd64_bytes [OF f] f by (simp add: stub_fits_def)
qed

interpretation arm64_gen: code_generator "\<lambda>sh. jitStubCode_arm64 sh d" fits_a64 for d
proof
  fix sh assume f: "fits_a64 sh"
  have "length (stub_words sh d) \<le> 95" "0 < length (stub_words sh d)"
    using length_stub_words [of sh d] length_zeroed(2) [of sh] by simp_all
  then have "length (concat (map ins_bytes (stub_words sh d))) \<le> 4096" "0 < length (concat (map ins_bytes (stub_words sh d)))"
    unfolding length_concat_ins_bytes by simp_all
  moreover have "words sh \<le> 2 ^ 20" using f by (simp add: fits_a64_def)
  ultimately show "\<exists>code pcsp. jitStubCode_arm64 sh d = Inr (code, pcsp) \<and> 0 < length code \<and> length code \<le> 4096 \<and>
      words sh \<le> 2 ^ 20"
    using jitStubCode_arm64_bytes [OF f, of d] by blast
qed

end
