(* ===== verification/ProxyCorrect.thy ===== *)
theory ProxyCorrect
  imports Proxy JitCorrect
begin

text \<open>
  \<open>NewOf\<close> step by step: which methods get a trampoline, and what the finished proxy's itab holds.
\<close>

section \<open>The forged itab\<close>

lemma fun_offset: "field_offs itab_types ! 4 div ptrSize = 3"
  by code_simp

lemma length_fold_update [simp]: "length (fold (\<lambda>i w. w[f i := g i]) is w) = length w"
  by (induction "is" arbitrary: w) auto

lemma nth_fold_funs:
  "3 + n \<le> length w \<Longrightarrow> j < length w \<Longrightarrow>
   fold (\<lambda>i w. w[3 + i := funs ! i]) [0..<n] w ! j = (if 3 \<le> j \<and> j < 3 + n then funs ! (j - 3) else w ! j)"
  by (induction n) (auto simp: nth_list_update)

lemma forgeITab_words:
  assumes "length funs = length (gi_methods t)"
  obtains tab where "forgeITab t py funs = Inr tab" "length tab = 3 + length funs"
    "tab ! 0 = gi_addr t" "tab ! 1 = at_addr py" "tab ! 2 = ucast (at_hash py)"
    "\<forall>k<length funs. itabFun tab (length funs) k = Inr (funs ! k)"
proof -
  define w1 where "w1 = (replicate (3 + length funs) 0)[0 := gi_addr t, 1 := at_addr py, 2 := ucast (at_hash py)]"
  define tab where "tab = fold (\<lambda>i w. w[3 + i := funs ! i]) [0..<length funs] w1"
  have l: "length w1 = 3 + length funs" by (simp add: w1_def)
  have n: "tab ! j = (if 3 \<le> j then funs ! (j - 3) else w1 ! j)" if "j < 3 + length funs" for j
    unfolding tab_def using nth_fold_funs [of "length funs" w1 j funs] l that by simp
  have e: "forgeITab t py funs = Inr tab"
    using assms by (simp only: forgeITab_def Let_def tab_def w1_def) simp
  have lt: "length tab = 3 + length funs" by (simp add: tab_def l)
  show thesis
  proof (rule that)
    show "forgeITab t py funs = Inr tab" "length tab = 3 + length funs" by fact+
    show "tab ! 0 = gi_addr t" "tab ! 1 = at_addr py" "tab ! 2 = ucast (at_hash py)"
      using n [of 0] n [of 1] n [of 2] by (simp_all add: w1_def nth_list_update)
    show "\<forall>k<length funs. itabFun tab (length funs) k = Inr (funs ! k)"
      using n lt by (simp add: itabFun_def Let_def fun_offset)
  qed
qed

section \<open>Methods and proxies\<close>

definition method_fits :: "arch \<Rightarrow> gotype \<Rightarrow> nat \<Rightarrow> bool" where
  "method_fits A ty k \<longleftrightarrow> (case newABILayout A ty of Inl _ \<Rightarrow> False | Inr l \<Rightarrow> layout_fits A l k)"

lemma newABILayout_func: "newABILayout A ty = Inr l \<Longrightarrow> \<exists>ins outs v. ty = TFunc ins outs v"
  by (cases ty) (simp_all add: newABILayout_def)

text \<open>The runtime's itab of a target that implements the interface has an entry per method.\<close>

definition target_ok :: "goIface \<Rightarrow> target option \<Rightarrow> bool" where
  "target_ok t tgt \<longleftrightarrow>
     (case tgt of None \<Rightarrow> True | Some g \<Rightarrow> tg_implements g \<longrightarrow> length (tg_itab g) = 3 + length (gi_methods t))"

text \<open>The entry of a target that implements the interface can always be read.\<close>

lemma target_fun_ok:
  assumes "target_ok t tgt" "i < length (gi_methods t)"
  shows "\<exists>tf td. (case (case tgt of None \<Rightarrow> None | Some g \<Rightarrow> targetITab g, fn) of
                 (Some (tab, data), Some _) \<Rightarrow>
                   res_bind (itabFun tab (length (gi_methods t)) i)
                     (\<lambda>a. Inr (if a = 0 then None else Some (pf_code F a), data))
               | _ \<Rightarrow> Inr (None, 0)) = Inr (tf, td)"
  using assms
  by (cases tgt; cases fn)
    (auto simp: target_ok_def targetITab_def itabFun_def Let_def fun_offset split: if_splits)

text \<open>The method descriptor at index \<open>k\<close>, with its trampoline.\<close>

definition method_ok :: "arch \<Rightarrow> goIface \<Rightarrow> nat \<Rightarrow> pmethod \<Rightarrow> jit \<Rightarrow> bool" where
  "method_ok A t k m s \<longleftrightarrow>
     pm_name m = fst (gi_methods t ! k) \<and> pm_index m = k \<and>
     newABILayout A (snd (gi_methods t ! k)) = Inr (pm_layout (pm_method m)) \<and>
     snd (gi_methods t ! k) = TFunc (pm_ins (pm_method m)) (pm_outs (pm_method m)) (pm_variadic m) \<and>
     (\<exists>sh. jitBySh s sh = Some (codePtr m) \<and> sh_index sh = k \<and> describes (pm_layout (pm_method m)) sh)"

lemma method_ok_mono: "method_ok A t k m s \<Longrightarrow> jit_extends s s' \<Longrightarrow> method_ok A t k m s'"
  unfolding method_ok_def using jit_extends_cached by blast

definition proxy_ok :: "arch \<Rightarrow> goIface \<Rightarrow> proxy \<Rightarrow> jit \<Rightarrow> bool" where
  "proxy_ok A t P s \<longleftrightarrow>
     length (px_methods P) = length (gi_methods t) \<and>
     (\<forall>k<length (gi_methods t).
        itabFun (px_itab P) (length (gi_methods t)) k = Inr (codePtr (px_methods P ! k)) \<and>
        method_ok A t k (px_methods P ! k) s)"

lemma proxy_code_shape:
  assumes "proxy_ok A t P s" "k < length (px_methods P)"
  shows "\<exists>sh. jitBySh s sh = Some (codePtr (px_methods P ! k)) \<and> sh_index sh = k \<and>
    describes (pm_layout (pm_method (px_methods P ! k))) sh"
  using assms unfolding proxy_ok_def method_ok_def by metis

lemma proxy_codes_distinct:
  assumes "jit_ok gen v q s" "proxy_ok A t P s"
  shows "distinct (map codePtr (px_methods P))"
proof -
  have "codePtr (px_methods P ! i) \<noteq> codePtr (px_methods P ! j)"
    if ij: "i < length (px_methods P)" "j < length (px_methods P)" "i \<noteq> j" for i j
  proof
    assume e: "codePtr (px_methods P ! i) = codePtr (px_methods P ! j)"
    obtain a b where "jitBySh s a = Some (codePtr (px_methods P ! i))" "sh_index a = i"
      "jitBySh s b = Some (codePtr (px_methods P ! j))" "sh_index b = j"
      using proxy_code_shape [OF assms(2) ij(1)] proxy_code_shape [OF assms(2) ij(2)] by blast
    with e ij(3) jit_ok_inj [OF assms(1)] show False by metis
  qed
  then show ?thesis by (simp add: distinct_conv_nth)
qed

context code_generator
begin

lemma newMethod_ok:
  assumes F: "pf_gen F = gen" "mmap_fresh (pf_mmap F)" "stubs_ok (pf_arch F) (pf_stubs F) slotCount s"
    and ok: "jit_ok gen (pf_version F) (pf_quantum F) s" and i: "i < length (gi_methods t)" and tgt: "target_ok t tgt"
    and sh: "\<And>sh. sh_index sh = i \<Longrightarrow> words sh \<le> 60 \<Longrightarrow> shape_ok sh"
    and tTab: "tTab = (case tgt of None \<Rightarrow> None | Some g \<Rightarrow> targetITab g)"
  shows "case newMethod F t i tgt tTab s of
      Inr (m, s') \<Rightarrow> method_fits (pf_arch F) (snd (gi_methods t ! i)) i \<and>
        jit_ok gen (pf_version F) (pf_quantum F) s' \<and> jit_extends s s' \<and> method_ok (pf_arch F) t i m s' \<and>
        (\<forall>k. mmap_serves (pf_mmap F) (Suc k) (jmods s) \<longrightarrow> mmap_serves (pf_mmap F) k (jmods s'))
    | Inl e \<Rightarrow> \<not> method_fits (pf_arch F) (snd (gi_methods t ! i)) i \<or> \<not> mmap_serves (pf_mmap F) 1 (jmods s)"
proof -
  obtain name ty where m: "gi_methods t ! i = (name, ty)" by (cases "gi_methods t ! i")
  show ?thesis
  proof (cases "newABILayout (pf_arch F) ty")
    case (Inl e)
    then show ?thesis by (simp add: newMethod_def m method_fits_def)
  next
    case l: (Inr l)
    obtain ins outs v where ty: "ty = TFunc ins outs v" using newABILayout_func [OF l] by blast
    define fn where "fn = (case tgt of None \<Rightarrow> None | Some g \<Rightarrow> tg_method g name)"
    have "\<exists>tf td. (case (tTab, fn) of
                 (Some (tab, data), Some _) \<Rightarrow>
                   res_bind (itabFun tab (length (gi_methods t)) i)
                     (\<lambda>a. Inr (if a = 0 then None else Some (pf_code F a), data))
               | _ \<Rightarrow> Inr (None, 0)) = Inr (tf, td)"
      unfolding tTab by (rule target_fun_ok [OF tgt i])
    then obtain tf td where tf: "(case (tTab, fn) of
                 (Some (tab, data), Some _) \<Rightarrow>
                   res_bind (itabFun tab (length (gi_methods t)) i)
                     (\<lambda>a. Inr (if a = 0 then None else Some (pf_code F a), data))
               | _ \<Rightarrow> Inr (None, 0)) = Inr (tf, td)" by (elim exE)
    have run: "newMethod F t i tgt tTab s =
        res_bind (newTrampoline (pf_arch F) gen (pf_version F) (pf_quantum F) (pf_mmap F) (pf_stubs F) l i s)
          (\<lambda>(c, s'). Inr (\<lparr>pm_name = name, pm_index = i, pm_variadic = v,
             pm_method = \<lparr>pm_ins = ins, pm_outs = outs, pm_layout = l, targetFn = fn, targetFun = tf, targetData = td\<rparr>,
             codePtr = c\<rparr>, s'))"
      by (simp only: newMethod_def m F(1) Let_def prod.case fn_def [symmetric] l [unfolded ty] ty res_bind_Inr tf [unfolded prod.case] gotype.case)
    have fits: "method_fits (pf_arch F) ty i \<longleftrightarrow> layout_fits (pf_arch F) l i" using l by (simp add: method_fits_def)
    note nt = newTrampoline_ok [where idx = i, OF ok F(2,3) l [unfolded ty] sh]
    show ?thesis
    proof (cases "newTrampoline (pf_arch F) gen (pf_version F) (pf_quantum F) (pf_mmap F) (pf_stubs F) l i s")
      case (Inl e)
      then show ?thesis using nt by (simp add: run m fits del: mmap_serves.simps One_nat_def)
    next
      case (Inr r)
      then obtain p s' where r: "newTrampoline (pf_arch F) gen (pf_version F) (pf_quantum F) (pf_mmap F) (pf_stubs F) l i s = Inr (p, s')"
        by (cases r) simp
      then have k: "layout_fits (pf_arch F) l i" "jit_ok gen (pf_version F) (pf_quantum F) s'" "jit_extends s s'"
        "\<exists>sh. jitBySh s' sh = Some p \<and> sh_index sh = i \<and> describes l sh"
        "\<forall>k. mmap_serves (pf_mmap F) (Suc k) (jmods s) \<longrightarrow> mmap_serves (pf_mmap F) k (jmods s')"
        using nt by (simp_all del: mmap_serves.simps)
      let ?m = "\<lparr>pm_name = name, pm_index = i, pm_variadic = v,
             pm_method = \<lparr>pm_ins = ins, pm_outs = outs, pm_layout = l, targetFn = fn, targetFun = tf, targetData = td\<rparr>,
             codePtr = p\<rparr>"
      have "newMethod F t i tgt tTab s = Inr (?m, s')" by (simp add: run r)
      moreover have "method_ok (pf_arch F) t i ?m s'" using l k(4) by (simp add: method_ok_def m ty)
      ultimately show ?thesis using k fits by (simp add: m del: mmap_serves.simps)
    qed
  qed
qed

lemma new_methods_ok:
  assumes F: "pf_gen F = gen" "mmap_fresh (pf_mmap F)" "stubs_ok (pf_arch F) (pf_stubs F) slotCount s"
    and ok: "jit_ok gen (pf_version F) (pf_quantum F) s" and tgt: "target_ok t tgt"
    and sh: "\<And>sh. sh_index sh < length (gi_methods t) \<Longrightarrow> words sh \<le> 60 \<Longrightarrow> shape_ok sh"
  shows "n \<le> length (gi_methods t) \<Longrightarrow> case new_methods F t tgt n s of
      Inr (ms, s') \<Rightarrow> length ms = n \<and> jit_ok gen (pf_version F) (pf_quantum F) s' \<and> jit_extends s s' \<and>
        (\<forall>k<n. method_fits (pf_arch F) (snd (gi_methods t ! k)) k \<and> method_ok (pf_arch F) t k (ms ! k) s') \<and>
        (\<forall>k. mmap_serves (pf_mmap F) (n + k) (jmods s) \<longrightarrow> mmap_serves (pf_mmap F) k (jmods s'))
    | Inl e \<Rightarrow> (\<exists>k<n. \<not> method_fits (pf_arch F) (snd (gi_methods t ! k)) k) \<or> \<not> mmap_serves (pf_mmap F) n (jmods s)"
proof (induction n)
  case 0
  show ?case using ok by (simp add: new_methods_def)
next
  case (Suc n)
  let ?tTab = "case tgt of None \<Rightarrow> None | Some g \<Rightarrow> targetITab g"
  have step: "new_methods F t tgt (Suc n) s =
      res_bind (new_methods F t tgt n s) (\<lambda>(ms, s). res_bind (newMethod F t n tgt ?tTab s) (\<lambda>(m, s'). Inr (ms @ [m], s')))"
    by (simp add: new_methods_def res_fold_snoc)
  show ?case
  proof (cases "new_methods F t tgt n s")
    case (Inl e)
    then have "(\<exists>k<n. \<not> method_fits (pf_arch F) (snd (gi_methods t ! k)) k) \<or> \<not> mmap_serves (pf_mmap F) n (jmods s)"
      using Suc by simp
    then have "(\<exists>k<Suc n. \<not> method_fits (pf_arch F) (snd (gi_methods t ! k)) k) \<or>
        \<not> mmap_serves (pf_mmap F) (Suc n) (jmods s)"
      using mmap_serves_less [of "pf_mmap F" "Suc n" "jmods s" n] less_SucI by (metis le_add2 plus_1_eq_Suc)
    then show ?thesis using Inl by (simp add: step del: mmap_serves.simps)
  next
    case (Inr r)
    then obtain ms s1 where good: "new_methods F t tgt n s = Inr (ms, s1)" "length ms = n"
      "jit_ok gen (pf_version F) (pf_quantum F) s1" "jit_extends s s1"
      "\<forall>k<n. method_fits (pf_arch F) (snd (gi_methods t ! k)) k \<and> method_ok (pf_arch F) t k (ms ! k) s1"
      "\<And>k. mmap_serves (pf_mmap F) (n + k) (jmods s) \<Longrightarrow> mmap_serves (pf_mmap F) k (jmods s1)"
      using Suc by (cases r) auto
    have n: "n < length (gi_methods t)" using Suc.prems by simp
    have st: "stubs_ok (pf_arch F) (pf_stubs F) slotCount s1" using F(3) good(4) by (rule stubs_ok_mono)
    have nm: "case newMethod F t n tgt ?tTab s1 of
      Inr (m, s') \<Rightarrow> method_fits (pf_arch F) (snd (gi_methods t ! n)) n \<and>
        jit_ok gen (pf_version F) (pf_quantum F) s' \<and> jit_extends s1 s' \<and> method_ok (pf_arch F) t n m s' \<and>
        (\<forall>k. mmap_serves (pf_mmap F) (Suc k) (jmods s1) \<longrightarrow> mmap_serves (pf_mmap F) k (jmods s'))
    | Inl e \<Rightarrow> \<not> method_fits (pf_arch F) (snd (gi_methods t ! n)) n \<or> \<not> mmap_serves (pf_mmap F) 1 (jmods s1)"
      by (rule newMethod_ok [OF F(1,2) st good(3) n tgt _ refl]) (use sh n in simp)
    show ?thesis
    proof (cases "newMethod F t n tgt ?tTab s1")
      case (Inl e)
      then have "\<not> method_fits (pf_arch F) (snd (gi_methods t ! n)) n \<or> \<not> mmap_serves (pf_mmap F) (Suc n) (jmods s)"
        using nm good(6) [of 1] by (auto simp del: mmap_serves.simps)
      then show ?thesis using Inl good(1) by (auto simp: step simp del: mmap_serves.simps)
    next
      case (Inr r)
      then obtain m s2 where new: "newMethod F t n tgt ?tTab s1 = Inr (m, s2)"
        "method_fits (pf_arch F) (snd (gi_methods t ! n)) n" "jit_ok gen (pf_version F) (pf_quantum F) s2"
        "jit_extends s1 s2" "method_ok (pf_arch F) t n m s2"
        "\<And>k. mmap_serves (pf_mmap F) (Suc k) (jmods s1) \<Longrightarrow> mmap_serves (pf_mmap F) k (jmods s2)"
        using nm by (cases r) auto
      have "\<forall>k<Suc n. method_fits (pf_arch F) (snd (gi_methods t ! k)) k \<and> method_ok (pf_arch F) t k ((ms @ [m]) ! k) s2"
        using good(2,5) new method_ok_mono by (auto simp: nth_append less_Suc_eq)
      moreover have "jit_extends s s2" using good(4) new(4) by (rule jit_extends_trans)
      moreover have "mmap_serves (pf_mmap F) k (jmods s2)" if "mmap_serves (pf_mmap F) (Suc n + k) (jmods s)" for k
        using good(6) [of "Suc k"] new(6) [of k] that by (simp del: mmap_serves.simps)
      ultimately show ?thesis using good(1,2) new by (simp add: step del: mmap_serves.simps)
    qed
  qed
qed

text \<open>A built proxy: its methods, and an itab that leads to their trampolines.\<close>

lemma NewOf_run:
  assumes F: "pf_gen F = gen" "mmap_fresh (pf_mmap F)" "stubs_ok (pf_arch F) (pf_stubs F) slotCount s"
    and ok: "jit_ok gen (pf_version F) (pf_quantum F) s" and tgt: "target_ok t tgt"
    and sh: "\<And>sh. sh_index sh < length (gi_methods t) \<Longrightarrow> words sh \<le> 60 \<Longrightarrow> shape_ok sh"
  shows "case NewOf F t tgt ixs s of
      Inr (P, s') \<Rightarrow> proxy_ok (pf_arch F) t P s' \<and> gi_isInterface t \<and>
        (\<forall>k<length (gi_methods t). method_fits (pf_arch F) (snd (gi_methods t ! k)) k) \<and>
        jit_ok gen (pf_version F) (pf_quantum F) s' \<and> jit_extends s s'
    | Inl e \<Rightarrow> \<not> gi_isInterface t \<or> (\<exists>k<length (gi_methods t). \<not> method_fits (pf_arch F) (snd (gi_methods t ! k)) k) \<or>
        \<not> mmap_serves (pf_mmap F) (length (gi_methods t)) (jmods s)"
proof (cases "gi_isInterface t")
  case False
  then show ?thesis by (simp add: NewOf_def)
next
  case True
  note ms = new_methods_ok [OF F ok tgt sh order_refl]
  show ?thesis
  proof (cases "new_methods F t tgt (length (gi_methods t)) s")
    case (Inl e)
    then show ?thesis using True ms by (simp add: NewOf_def interfaceTypeOf_def del: mmap_serves.simps)
  next
    case (Inr r)
    then obtain ms s' where r: "new_methods F t tgt (length (gi_methods t)) s = Inr (ms, s')" by (cases r) simp
    then have k: "length ms = length (gi_methods t)" "jit_ok gen (pf_version F) (pf_quantum F) s'" "jit_extends s s'"
      "\<forall>k<length (gi_methods t). method_fits (pf_arch F) (snd (gi_methods t ! k)) k \<and> method_ok (pf_arch F) t k (ms ! k) s'"
      using ms by simp_all
    then have l: "length (map codePtr ms) = length (gi_methods t)" by simp
    obtain tab where tab: "forgeITab t (pf_proxyType F) (map codePtr ms) = Inr tab"
      "\<forall>k<length (map codePtr ms). itabFun tab (length (map codePtr ms)) k = Inr (map codePtr ms ! k)"
      by (rule forgeITab_words [OF l])
    have "NewOf F t tgt ixs s = Inr (\<lparr>px_typ = t, px_target = tgt, px_chain = ixs, px_methods = ms, px_itab = tab\<rparr>, s')"
      using True r tab(1) by (simp add: NewOf_def interfaceTypeOf_def)
    then show ?thesis using True k tab(2) by (simp add: proxy_ok_def)
  qed
qed

end

end
