(* ===== verification/JitProps.thy ===== *)
theory JitProps
  imports TrampAmd64 LayoutCorrect
begin

text \<open>
  The properties of the generated trampolines: the call of \<open>Dispatch\<close> they make, and the stack pointer
  tables that describe their frames to the runtime.
\<close>

section \<open>Calling Dispatch by its own signature\<close>

text \<open>
  \<open>Dispatch\<close> takes the method index, the register file and the address of the stack area; the register
  assignment of its own parameters is that of abi.go. The integer registers of the ABI, in order.
\<close>

definition dispatch_sig :: "arch \<Rightarrow> gotype list" where
  "dispatch_sig A = TInt # replicate (intArgRegs A) TUintptr @ replicate (floatArgRegs A) TFloat64 @ [TUnsafePointer]"

definition dispatch_steps :: "arch \<Rightarrow> step list" where
  "dispatch_steps A = (case addArgs A (dispatch_sig A) empty_seq of Inr q \<Rightarrow> seq_steps q)"

definition int_reg :: "nat \<Rightarrow> step" where
  "int_reg i = \<lparr>step_kind = StepIntReg, step_offset = 0, step_size = 8, stkOff = 0, ireg = i, freg = 0\<rparr>"

definition float_reg :: "nat \<Rightarrow> step" where
  "float_reg i = \<lparr>step_kind = StepFloatReg, step_offset = 0, step_size = 8, stkOff = 0, ireg = 0, freg = i\<rparr>"

definition stack_slot :: "nat \<Rightarrow> step" where
  "stack_slot off = \<lparr>step_kind = StepStack, step_offset = 0, step_size = 8, stkOff = off, ireg = 0, freg = 0\<rparr>"

lemma dispatch_steps_amd64:
  "dispatch_steps Amd64 = map int_reg [0..<9] @ [stack_slot 0] @ map float_reg [0..<15] @ [stack_slot 8]"
  by code_simp

definition goreg_amd64 :: "nat \<Rightarrow> nat" where
  "goreg_amd64 i = [0, 3, 1, 7, 6, 8, 9, 10, 11] ! i"

text \<open>The value a step finds at a call on amd64: registers, or the stack from the stack pointer up.\<close>

definition step_value_amd64 :: "xstate \<Rightarrow> step \<Rightarrow> 64 word" where
  "step_value_amd64 s st =
     (case step_kind st of
        StepStack \<Rightarrow> load64 (xm s) (xr s 4 + of_nat (stkOff st))
      | StepFloatReg \<Rightarrow> xf s (freg st)
      | _ \<Rightarrow> xr s (goreg_amd64 (ireg st)))"

text \<open>
  The state in which \<open>Dispatch\<close> is entered: its parameters are the index, the registers the caller
  passed, and the address of the caller's stack area; in that area the words the shape marks as result
  pointers are zero and nothing else has changed; nor has memory outside the frame and the area.
\<close>

definition enters_dispatch_amd64 :: "stubShape \<Rightarrow> xstate \<Rightarrow> xstate \<Rightarrow> bool" where
  "enters_dispatch_amd64 sh s c \<longleftrightarrow>
     map (step_value_amd64 c) (dispatch_steps Amd64) =
       of_nat (sh_index sh) # map (\<lambda>k. xr s (goreg_amd64 k)) [0..<9] @ map (xf s) [0..<15] @ [xr s 4 + 8] \<and>
     (\<forall>k<8 * words sh. xm c (xr s 4 + 8 + of_nat k) =
        (if argWords sh \<le> k div 8 \<and> bit (retPtrs sh) (k div 8 - argWords sh) then 0
         else xm s (xr s 4 + 8 + of_nat k))) \<and>
     (\<forall>x. 0xe0 + 8 * words sh \<le> unat (x - xr c 4) \<longrightarrow> xm c x = xm s x)"

text \<open>\<open>Dispatch\<close> returns with the stack pointer where it was and leaves the caller's frame alone.\<close>

definition keeps_frame_amd64 :: "xstate \<Rightarrow> xstate \<Rightarrow> bool" where
  "keeps_frame_amd64 c t \<longleftrightarrow>
     xr t 4 = xr c 4 \<and> load64 (xm t) (xr c 4 + 0xd0) = load64 (xm c) (xr c 4 + 0xd0) \<and>
     load64 (xm t) (xr c 4 + 0xd8) = load64 (xm c) (xr c 4 + 0xd8)"

definition call_state :: "stubShape \<Rightarrow> 64 word \<Rightarrow> xstate \<Rightarrow> xstate" where
  "call_state sh d s = s\<lparr>xr := call_regs sh d (xr s 4 - 0xd8) s, xm := call_mem sh (xr s 4 - 0xd8) s\<rparr>"

lemma enters_dispatch_amd64_call_state:
  assumes "words sh \<le> 2 ^ 20"
  shows "enters_dispatch_amd64 sh s (call_state sh d s)"
proof -
  let ?p = "xr s 4 - 0xd8"
  note m = call_mem_frame [OF assms, of ?p s]
  have a: "?p + 0xe0 = xr s 4 + 8" by simp
  have "[0..<9] = [0, 1, 2, 3, 4, 5, 6, 7, 8::nat]" by (simp add: upt_rec)
  then have "map (step_value_amd64 (call_state sh d s)) (dispatch_steps Amd64) =
      of_nat (sh_index sh) # map (\<lambda>k. xr s (goreg_amd64 k)) [0..<9] @ map (xf s) [0..<15] @ [xr s 4 + 8]"
    using m a
    by (simp add: dispatch_steps_amd64 step_value_amd64_def int_reg_def float_reg_def stack_slot_def
        call_state_def call_regs_def goreg_amd64_def)
  moreover have "xm (call_state sh d s) (xr s 4 + 8 + of_nat k) =
      (if argWords sh \<le> k div 8 \<and> bit (retPtrs sh) (k div 8 - argWords sh) then 0
         else xm s (xr s 4 + 8 + of_nat k))" if "k < 8 * words sh" for k
    using call_mem_area [OF assms that, of ?p s] unfolding a by (simp add: call_state_def)
  moreover have "xr (call_state sh d s) 4 = ?p" by (simp add: call_state_def call_regs_def)
  ultimately show ?thesis
    using call_mem_other [OF assms, of _ ?p s] by (auto simp: enters_dispatch_amd64_def call_state_def)
qed

lemma exec_epilogue:
  "fold (exec_x86 callee) epi_ins t =
     t\<lparr>xr := (xr t)(4 := xr t 4 + 0xe0, 5 := load64 (xm t) (xr t 4 + 0xd0))\<rparr>"
  by (simp add: epi_ins_def set_xr_def fun_upd_twist add.commute)

lemma run_stub:
  assumes "stub_fits sh d" and "n \<le> length (stub_ins sh d)"
  shows "run_code decode_x86 (exec_x86 callee) n (concat (stub_bytes sh d)) (0, s) =
    Some (length (concat (take n (stub_bytes sh d))), fold (exec_x86 callee) (take n (stub_ins sh d)) s)"
  by (rule amd64.run_prefix [OF stub_encodes [OF assms(1)] assms(2)])

lemma stub_run_amd64:
  assumes "stub_fits sh d" and "jitStubCode_amd64 sh d = Inr (code, tab)"
  shows "\<exists>c pc n. c = call_state sh d s \<and>
    (\<forall>callee. run_code decode_x86 (exec_x86 callee) n code (0, s) = Some (pc, c) \<and>
       decode_x86 (drop pc code) = Some (XCall 12, 3) \<and> xr c 12 = d \<and>
       (keeps_frame_amd64 c (callee d c) \<longrightarrow>
          (\<exists>t. run_code decode_x86 (exec_x86 callee) (n + 4) code (0, s) = Some (length code, t) \<and>
             xr t = (xr (callee d c))(4 := xr s 4 + 8, 5 := xr s 5) \<and> xf t = xf (callee d c) \<and>
             xm t = xm (callee d c) \<and> load64 (xm t) (xr s 4) = load64 (xm s) (xr s 4))))"
proof -
  let ?p = "xr s 4 - 0xd8" and ?c = "call_state sh d s" and ?n = "length (pro_ins @ mid_ins sh d)"
  have code: "code = concat (stub_bytes sh d)"
    using assms jitStubCode_amd64_bytes by simp
  have w: "words sh \<le> 2 ^ 20" "sh_index sh < 2 ^ 31" using assms(1) by (simp_all add: stub_fits_def)
  have len: "length (stub_bytes sh d) = length (stub_ins sh d)"
    using stub_encodes [OF assms(1)] by (rule list_all2_lengthD)
  have lb: "length (pro_bytes @ mid_bytes sh d) = ?n"
    by (simp add: pro_bytes_def pro_ins_def mid_bytes_def mid_ins_def)
  have tk: "take ?n (stub_ins sh d) = pro_ins @ mid_ins sh d" "take ?n (stub_bytes sh d) = pro_bytes @ mid_bytes sh d"
    "length (stub_ins sh d) = ?n + 4"
    using lb by (simp_all add: stub_ins_def stub_bytes_def epi_ins_def)
  let ?pc = "length (concat (pro_bytes @ mid_bytes sh d))"
  have "run_code decode_x86 (exec_x86 callee) ?n code (0, s) = Some (?pc, ?c)" for callee
    using run_stub [OF assms(1), of ?n callee s] run_to_call [OF w(2), of callee d s] tk
    by (simp add: code call_state_def)
  moreover have "decode_x86 (drop ?pc code) = Some (XCall 12, 3)"
    using amd64.dec_append [OF decode_consts(15)] by (simp add: code stub_bytes_def)
  moreover have "xr ?c 12 = d" "xr ?c 4 = ?p" by (simp_all add: call_state_def call_regs_def)
  moreover have "\<exists>t. run_code decode_x86 (exec_x86 callee) (?n + 4) code (0, s) = Some (length code, t) \<and>
       xr t = (xr (callee d ?c))(4 := xr s 4 + 8, 5 := xr s 5) \<and> xf t = xf (callee d ?c) \<and>
       xm t = xm (callee d ?c) \<and> load64 (xm t) (xr s 4) = load64 (xm s) (xr s 4)"
    if k: "keeps_frame_amd64 ?c (callee d ?c)" for callee
  proof -
    have "fold (exec_x86 callee) (stub_ins sh d) s = fold (exec_x86 callee) epi_ins (callee d ?c)"
      using run_to_call [OF w(2), of callee d s] \<open>xr ?c 12 = d\<close>
      by (simp add: stub_ins_def call_state_def)
    then have "run_code decode_x86 (exec_x86 callee) (?n + 4) code (0, s) =
        Some (length code, fold (exec_x86 callee) epi_ins (callee d ?c))"
      using run_stub [OF assms(1), of "?n + 4" callee s] tk(3) len by (simp add: code)
    moreover have "load64 (xm (callee d ?c)) (?p + 0xd0) = xr s 5" "xr (callee d ?c) 4 = ?p"
      "load64 (xm (callee d ?c)) (?p + 0xd8) = load64 (xm s) (?p + 0xd8)"
      using k call_mem_frame [OF w(1), of ?p s] \<open>xr ?c 4 = ?p\<close>
      by (simp_all add: keeps_frame_amd64_def call_state_def)
    ultimately show ?thesis by (simp add: exec_epilogue add.commute)
  qed
  ultimately show ?thesis by blast
qed

lemma stub_call_amd64:
  assumes "stub_fits sh d" and "jitStubCode_amd64 sh d = Inr (code, tab)"
  shows "\<exists>c pc n. enters_dispatch_amd64 sh s c \<and>
    (\<forall>callee. run_code decode_x86 (exec_x86 callee) n code (0, s) = Some (pc, c) \<and>
       decode_x86 (drop pc code) = Some (XCall 12, 3) \<and> xr c 12 = d \<and>
       (keeps_frame_amd64 c (callee d c) \<longrightarrow>
          (\<exists>t. run_code decode_x86 (exec_x86 callee) (n + 4) code (0, s) = Some (length code, t) \<and>
             xr t = (xr (callee d c))(4 := xr s 4 + 8, 5 := xr s 5) \<and> xf t = xf (callee d c) \<and>
             xm t = xm (callee d c) \<and> load64 (xm t) (xr s 4) = load64 (xm s) (xr s 4))))"
proof -
  have "words sh \<le> 2 ^ 20" using assms(1) by (simp add: stub_fits_def)
  from enters_dispatch_amd64_call_state [OF this] stub_run_amd64 [OF assms] show ?thesis by blast
qed

text \<open>
  The amd64 trampoline is right: from its entry, the bytes \<open>jitStubCode\<close> emits reach a call of the
  given address in a state where \<open>Dispatch\<close> finds the method index, the caller's registers and the
  address of the stack area as its parameters, with the pointer results cleared; and whatever
  \<open>Dispatch\<close> does with its own frame and the registers, the code then runs to its end, back to the
  caller's return address, stack and frame pointer, with the result registers \<open>Dispatch\<close> left.
\<close>
theorem trampoline_amd64:
  assumes "stub_fits sh d" and "jitStubCode_amd64 sh d = Inr (code, tab)"
  shows "\<exists>c pc n. enters_dispatch_amd64 sh s c \<and>
    (\<forall>callee. run_code decode_x86 (exec_x86 callee) n code (0, s) = Some (pc, c) \<and>
       decode_x86 (drop pc code) = Some (XCall 12, 3) \<and> xr c 12 = d \<and>
       (keeps_frame_amd64 c (callee d c) \<longrightarrow>
          (\<exists>t. run_code decode_x86 (exec_x86 callee) (n + 4) code (0, s) = Some (length code, t) \<and>
             xr t = (xr (callee d c))(4 := xr s 4 + 8, 5 := xr s 5) \<and> xf t = xf (callee d c) \<and>
             xm t = xm (callee d c) \<and> load64 (xm t) (xr s 4) = load64 (xm s) (xr s 4))))"
  using assms by (rule stub_call_amd64)

lemma trampoline_amd64_witness:
  "case jitStubCode_amd64 \<lparr>sh_index = 3, argWords = 2, retWords = 3, argPtrs = 0, retPtrs = 5\<rparr> 0x123456 of
     Inl _ \<Rightarrow> False
   | Inr (code, tab) \<Rightarrow>
       (\<exists>c pc n t.
         enters_dispatch_amd64 \<lparr>sh_index = 3, argWords = 2, retWords = 3, argPtrs = 0, retPtrs = 5\<rparr>
           \<lparr>xr = \<lambda>_. 0x1000, xf = \<lambda>_. 7, xm = \<lambda>_. 1\<rparr> c \<and>
         run_code decode_x86 (exec_x86 (\<lambda>_ c. c)) n code (0, \<lparr>xr = \<lambda>_. 0x1000, xf = \<lambda>_. 7, xm = \<lambda>_. 1\<rparr>) = Some (pc, c) \<and>
         run_code decode_x86 (exec_x86 (\<lambda>_ c. c)) (n + 4) code (0, \<lparr>xr = \<lambda>_. 0x1000, xf = \<lambda>_. 7, xm = \<lambda>_. 1\<rparr>) =
           Some (length code, t) \<and> xr t 4 = 0x1008 \<and> xr t 5 = 0x1000)"
proof -
  let ?sh = "\<lparr>sh_index = 3, argWords = 2, retWords = 3, argPtrs = 0, retPtrs = 5\<rparr> :: stubShape"
  let ?s = "\<lparr>xr = \<lambda>_. 0x1000, xf = \<lambda>_. 7, xm = \<lambda>_. 1\<rparr> :: xstate"
  have fits: "stub_fits ?sh 0x123456" by (simp add: stub_fits_def words_def)
  obtain code tab where j: "jitStubCode_amd64 ?sh 0x123456 = Inr (code, tab)"
    using jitStubCode_amd64_bytes [OF fits] by blast
  from trampoline_amd64 [OF fits j, of ?s] obtain c pc n where
    c: "enters_dispatch_amd64 ?sh ?s c" and
    r: "\<forall>callee. run_code decode_x86 (exec_x86 callee) n code (0, ?s) = Some (pc, c) \<and>
       decode_x86 (drop pc code) = Some (XCall 12, 3) \<and> xr c 12 = 0x123456 \<and>
       (keeps_frame_amd64 c (callee 0x123456 c) \<longrightarrow>
          (\<exists>t. run_code decode_x86 (exec_x86 callee) (n + 4) code (0, ?s) = Some (length code, t) \<and>
             xr t = (xr (callee 0x123456 c))(4 := xr ?s 4 + 8, 5 := xr ?s 5) \<and> xf t = xf (callee 0x123456 c) \<and>
             xm t = xm (callee 0x123456 c) \<and> load64 (xm t) (xr ?s 4) = load64 (xm ?s) (xr ?s 4)))"
    by blast
  from r [THEN spec, of "\<lambda>_ c. c"] obtain t where
    "run_code decode_x86 (exec_x86 (\<lambda>_ c. c)) (n + 4) code (0, ?s) = Some (length code, t)"
    "xr t 4 = 0x1008" "xr t 5 = 0x1000"
    by (auto simp: keeps_frame_amd64_def)
  with c r j show ?thesis by auto
qed

section \<open>The stack pointer table on amd64\<close>

lemma mid_keeps_sp: "i \<in> set (mid_ins sh d) \<Longrightarrow> xr (exec_x86 callee i s) 4 = xr s 4"
  by (auto simp: mid_ins_def set_xr_def)

lemma fold_keeps_sp:
  "(\<And>i t. i \<in> set is \<Longrightarrow> xr (exec_x86 callee i t) 4 = xr t 4) \<Longrightarrow> xr (fold (exec_x86 callee) is s) 4 = xr s 4"
  by (induction "is" arbitrary: s) auto

lemma pro_sp: "xr (fold (exec_x86 callee) pro_ins s) 4 = xr s 4 - 0xd8"
  by (simp add: pro_ins_def set_xr_def)

lemma length_zero_ins: "length (zero_ins n) \<le> 11"
  by (simp add: zero_ins_def dispEncoding_def imm32_def)

lemma length_mid_bytes: "length (concat (mid_bytes sh d)) \<le> 64 + 11 * words sh"
proof -
  have "length (concat (map (\<lambda>w. zero_ins (8 * w)) ws)) \<le> 11 * length ws" for ws
    using length_zero_ins by (induction ws) (auto intro: add_mono)
  moreover have "length (zeroed sh) \<le> words sh" using length_zeroed(1) [of sh] by (simp add: words_def)
  ultimately have "length (concat (map (\<lambda>w. zero_ins (8 * w)) (zeroed sh))) \<le> 11 * words sh"
    by (meson le_trans mult_le_mono2)
  then show ?thesis by (simp add: mid_bytes_def)
qed

text \<open>The instructions and bytes before a position of the trampoline.\<close>

lemma length_pro: "length pro_bytes = 3" "length pro_ins = 3"
  by (simp_all add: pro_bytes_def pro_ins_def)

lemma stub_pcsp_amd64:
  assumes fits: "stub_fits sh d" and jit: "jitStubCode_amd64 sh d = Inr (code, tab)"
    and callee: "\<forall>t. xr (callee d t) 4 = xr t 4" and n: "n < length (stub_ins sh d)"
    and run: "run_code decode_x86 (exec_x86 callee) n code (0, s) = Some (pc, t)"
  shows "pcvalue pcQuantum_amd64 tab pc = Some (ucast (xr s 4 - xr t 4))"
proof -
  let ?N = "length (concat (stub_bytes sh d))" and ?m = "length (mid_ins sh d)"
  let ?b = "length (concat (mid_bytes sh d))"
  have e: "Inr (code, tab) = Inr (concat (stub_bytes sh d), encodePCSP (stub_pcsp (int ?N)))"
    using jitStubCode_amd64_bytes [OF fits] unfolding jit by simp
  then have code: "code = concat (stub_bytes sh d)" "tab = encodePCSP (stub_pcsp (int ?N))"
    by simp_all
  have N: "?N = 23 + ?b" by (simp add: stub_bytes_def length_pro_bytes)
  have w: "words sh \<le> 2 ^ 20" using fits by (simp add: stub_fits_def)
  have big: "?N < 2 ^ 32" using N length_mid_bytes [of sh d] w by simp
  have "pcsp_ok 1 0 None (stub_pcsp (int ?N))" using big N by (simp add: stub_pcsp_def nat_less_iff)
  then have tab: "pcvalue pcQuantum_amd64 tab pc = sp_at 1 (stub_pcsp (int ?N)) pc"
    unfolding code(2) pcQuantum_amd64_def by (rule pcvalue_encodePCSP [rotated]) simp
  have "length (mid_bytes sh d) = ?m" by (simp add: mid_bytes_def mid_ins_def)
  note lb = this
  have tk: "k \<le> ?m \<Longrightarrow> take (3 + k) (stub_bytes sh d) = pro_bytes @ take k (mid_bytes sh d)"
    "take (Suc (3 + ?m + k)) (stub_bytes sh d) = pro_bytes @ mid_bytes sh d @ [0x41, 0xff, 0xd4] # take k epi_bytes"
    "k \<le> ?m \<Longrightarrow> take (3 + k) (stub_ins sh d) = pro_ins @ take k (mid_ins sh d)"
    "take (Suc (3 + ?m + k)) (stub_ins sh d) = pro_ins @ mid_ins sh d @ XCall 12 # take k epi_ins" for k
    using lb by (simp_all add: stub_bytes_def stub_ins_def length_pro)
  have pt: "pc = length (concat (take n (stub_bytes sh d)))" "t = fold (exec_x86 callee) (take n (stub_ins sh d)) s"
    using run_stub [OF fits, of n callee s] n run code(1) by simp_all
  have len: "length (stub_ins sh d) = ?m + 7" by (simp add: stub_ins_def pro_ins_def epi_ins_def)
  consider (pro) "n < 3" | (mid) k where "n = 3 + k" "k \<le> ?m" | (epi) k where "n = Suc (3 + ?m + k)" "k < 3"
  proof -
    have "n < 3 \<or> (\<exists>k. n = 3 + k \<and> k \<le> ?m) \<or> (\<exists>k. n = Suc (3 + ?m + k) \<and> k < 3)" using n len by presburger
    with that show thesis by blast
  qed
  then show ?thesis
  proof cases
    case pro
    then have n: "n = 0 \<or> n = 1 \<or> n = 2" by auto
    have pc: "pc = length (concat (take n pro_bytes))" and t: "t = fold (exec_x86 callee) (take n pro_ins) s"
      using pt pro by (simp_all add: stub_bytes_def stub_ins_def length_pro)
    have "(pc = 0 \<and> xr t 4 = xr s 4) \<or> (pc = 1 \<or> pc = 4) \<and> xr t 4 = xr s 4 - 8"
      using n unfolding pc t
      by (elim disjE) (simp_all add: pro_bytes_def pro_ins_def set_xr_def numeral_2_eq_2)
    then show ?thesis unfolding tab using N by (elim disjE) (auto simp: stub_pcsp_def)
  next
    case (mid k)
    have "t = fold (exec_x86 callee) (take k (mid_ins sh d)) (fold (exec_x86 callee) pro_ins s)"
      using pt(2) mid tk(3) by simp
    then have "xr t 4 = xr s 4 - 0xd8"
      using fold_keeps_sp [of "take k (mid_ins sh d)" callee] mid_keeps_sp pro_sp [of callee s]
      by (metis in_set_takeD)
    moreover have "length (concat (take k (mid_bytes sh d))) \<le> ?b"
      by (metis append_take_drop_id concat_append le_add1 length_append)
    then have "11 \<le> pc" "pc \<le> 11 + ?b" using pt(1) mid tk(1) length_pro_bytes(1) by simp_all
    ultimately show ?thesis unfolding tab using N by (simp add: stub_pcsp_def)
  next
    case (epi k)
    let ?t = "callee d (fold (exec_x86 callee) (pro_ins @ mid_ins sh d) s)"
    have d: "xr (fold (exec_x86 callee) (pro_ins @ mid_ins sh d) s) 12 = d"
      using fits run_to_call [of sh callee d s] by (simp add: stub_fits_def call_regs_def)
    have "t = fold (exec_x86 callee) (take k epi_ins) ?t"
      using pt(2) epi tk(4) d by simp
    moreover have "xr ?t 4 = xr s 4 - 0xd8"
      using callee fold_keeps_sp [of "mid_ins sh d" callee] mid_keeps_sp pro_sp [of callee s] by simp
    moreover have pc: "pc = 14 + ?b + length (concat (take k epi_bytes))"
      using pt(1) epi tk(2) length_pro_bytes(1) by simp
    moreover have "k = 0 \<or> k = 1 \<or> k = 2" using epi by auto
    ultimately have "(pc = 14 + ?b \<and> xr t 4 = xr s 4 - 0xd8) \<or> (pc = 21 + ?b \<and> xr t 4 = xr s 4 - 8) \<or>
        (pc = 22 + ?b \<and> xr t 4 = xr s 4)"
      by (elim disjE) (simp_all add: epi_bytes_def epi_ins_def set_xr_def numeral_2_eq_2)
    then show ?thesis unfolding tab using N by (elim disjE) (auto simp: stub_pcsp_def)
  qed
qed


text \<open>
  On amd64 the stack pointer table is exact: before every instruction of the trampoline, the
  runtime's reader finds at the program counter how far the stack pointer has moved since the entry,
  in the prologue and epilogue as well as at the call, so that the frame unwinds wherever the
  goroutine is preempted.
\<close>
theorem pcsp_tracks_sp_amd64:
  assumes fits: "stub_fits sh d" and jit: "jitStubCode_amd64 sh d = Inr (code, tab)"
    and callee: "\<forall>t. xr (callee d t) 4 = xr t 4" and n: "n < length (stub_ins sh d)"
    and run: "run_code decode_x86 (exec_x86 callee) n code (0, s) = Some (pc, t)"
  shows "pcvalue pcQuantum_amd64 tab pc = Some (ucast (xr s 4 - xr t 4))"
  using assms by (rule stub_pcsp_amd64)

lemma pcsp_tracks_sp_amd64_witness:
  "case jitStubCode_amd64 \<lparr>sh_index = 3, argWords = 2, retWords = 3, argPtrs = 0, retPtrs = 5\<rparr> 0x123456 of
     Inl _ \<Rightarrow> False
   | Inr (code, tab) \<Rightarrow>
       (case run_code decode_x86 (exec_x86 (\<lambda>_ c. c)) 3 code (0, \<lparr>xr = \<lambda>_. 0x1000, xf = \<lambda>_. 7, xm = \<lambda>_. 1\<rparr>) of
          None \<Rightarrow> False
        | Some (pc, t) \<Rightarrow> pcvalue pcQuantum_amd64 tab pc = Some (ucast (0x1000 - xr t 4)))"
proof -
  let ?sh = "\<lparr>sh_index = 3, argWords = 2, retWords = 3, argPtrs = 0, retPtrs = 5\<rparr> :: stubShape"
  let ?s = "\<lparr>xr = \<lambda>_. 0x1000, xf = \<lambda>_. 7, xm = \<lambda>_. 1\<rparr> :: xstate"
  have fits: "stub_fits ?sh 0x123456" by (simp add: stub_fits_def words_def)
  obtain code tab where j: "jitStubCode_amd64 ?sh 0x123456 = Inr (code, tab)"
    using jitStubCode_amd64_bytes [OF fits] by blast
  have n: "3 < length (stub_ins ?sh 0x123456)" by (simp add: stub_ins_def pro_ins_def epi_ins_def)
  have "code = concat (stub_bytes ?sh 0x123456)" using j jitStubCode_amd64_bytes [OF fits] by simp
  then obtain pc t where r: "run_code decode_x86 (exec_x86 (\<lambda>_ c. c)) 3 code (0, ?s) = Some (pc, t)"
    using run_stub [OF fits, of 3 "\<lambda>_ c. c" ?s] n by simp
  from pcsp_tracks_sp_amd64 [OF fits j _ n r] j r show ?thesis by simp
qed

section \<open>Stack pointer tables in general\<close>

text \<open>
  C20. The encoder and the runtime's reader are inverse: for change points in increasing order with
  no delta repeated, what \<open>encodePCSP\<close> writes is read back, at every program counter \<open>t\<close>, as the delta
  of the first change point after \<open>t\<close>, and as no value past the last one.
\<close>
theorem pcsp_roundtrip:
  assumes "0 < q" and "pcsp_ok q 0 None es"
  shows "pcvalue q (encodePCSP es) t = sp_at q es t"
  using assms by (rule pcvalue_encodePCSP)

lemma pcsp_roundtrip_witness:
  "map (pcvalue 1 (encodePCSP [\<lparr>pe_pc = 1, spdelta = 0\<rparr>, \<lparr>pe_pc = 300, spdelta = 8\<rparr>])) [0, 1, 299, 300] =
     [Some 0, Some 8, Some 8, None]"
  using pcsp_roundtrip [of 1 "[\<lparr>pe_pc = 1, spdelta = 0\<rparr>, \<lparr>pe_pc = 300, spdelta = 8\<rparr>]"] by simp

end
