(* ===== verification/JitArm64Props.thy ===== *)
theory JitArm64Props
  imports RunArm64 JitProps
begin

text \<open>
  The properties of the arm64 trampoline: the call of \<open>Dispatch\<close> it makes, the size of its code, and
  what its stack pointer table tells the runtime.
\<close>

section \<open>Calling Dispatch\<close>

lemma dispatch_steps_arm64:
  "dispatch_steps Arm64 = map int_reg [0..<16] @ [stack_slot 0] @ map float_reg [0..<16] @ [stack_slot 8]"
  by code_simp

text \<open>The value a step finds at a call on arm64: the stack words are above the saved link register.\<close>

definition step_value_arm64 :: "astate \<Rightarrow> step \<Rightarrow> 64 word" where
  "step_value_arm64 s st =
     (case step_kind st of
        StepStack \<Rightarrow> load64 (am s) (asp s + 8 + of_nat (stkOff st))
      | StepFloatReg \<Rightarrow> af s (freg st)
      | _ \<Rightarrow> ar s (ireg st))"

definition enters_dispatch_arm64 :: "stubShape \<Rightarrow> astate \<Rightarrow> astate \<Rightarrow> bool" where
  "enters_dispatch_arm64 sh s c \<longleftrightarrow>
     map (step_value_arm64 c) (dispatch_steps Arm64) =
       of_nat (sh_index sh) # map (ar s) [0..<16] @ map (af s) [0..<16] @ [asp s + 8] \<and>
     (\<forall>k<8 * words sh. am c (asp s + 8 + of_nat k) =
        (if argWords sh \<le> k div 8 \<and> bit (retPtrs sh) (k div 8 - argWords sh) then 0
         else am s (asp s + 8 + of_nat k))) \<and>
     (\<forall>x. 304 + 8 * words sh \<le> unat (x - (asp c - 8)) \<longrightarrow> am c x = am s x)"

definition keeps_frame_arm64 :: "astate \<Rightarrow> astate \<Rightarrow> bool" where
  "keeps_frame_arm64 c t \<longleftrightarrow>
     asp t = asp c \<and> load64 (am t) (asp c - 8) = load64 (am c) (asp c - 8) \<and>
     load64 (am t) (asp c) = load64 (am c) (asp c)"

lemma enters_dispatch_arm64_call_state:
  assumes "words sh \<le> 4096"
  shows "enters_dispatch_arm64 sh s (call_state_arm64 sh d s)"
proof -
  let ?b = "asp s - 296"
  note m = call_mem_arm64_frame [OF assms, of ?b s]
  have a: "?b + 304 = asp s + 8" "?b + 16 = asp s - 280" "?b + 24 = asp s - 272" by simp_all
  have u: "[0..<16] = [0, 1, 2, 3, 4, 5, 6, 7, 8, 9, 10, 11, 12, 13, 14, 15::nat]" by (simp add: upt_rec)
  have "map (step_value_arm64 (call_state_arm64 sh d s)) (dispatch_steps Arm64) =
      of_nat (sh_index sh) # map (ar s) [0..<16] @ map (af s) [0..<16] @ [asp s + 8]"
    using m unfolding a
    by (simp add: dispatch_steps_arm64 step_value_arm64_def int_reg_def float_reg_def stack_slot_def
        call_state_arm64_def call_regs_arm64_def u)
  moreover have "am (call_state_arm64 sh d s) (asp s + 8 + of_nat k) =
      (if argWords sh \<le> k div 8 \<and> bit (retPtrs sh) (k div 8 - argWords sh) then 0
         else am s (asp s + 8 + of_nat k))" if "k < 8 * words sh" for k
    using call_mem_arm64_area [OF assms that, of ?b s] unfolding a by (simp add: call_state_arm64_def)
  moreover have "asp (call_state_arm64 sh d s) - 8 = ?b" by (simp add: call_state_arm64_def)
  ultimately show ?thesis
    using call_mem_arm64_other [OF assms, of _ ?b s]
    by (auto simp: enters_dispatch_arm64_def call_state_arm64_def)
qed

lemma length_stub_a64: "length (stub_a64 sh d) = length (stub_words sh d)"
  by (simp add: stub_a64_def stub_words_def pro_a64_def pro_words_def mid_a64_def mid_words_def epi_a64_def epi_words_def)

lemma run_stub_arm64:
  assumes "fits_a64 sh" and "n \<le> length (stub_words sh d)"
  shows "run_code decode_a64 (exec_a64 callee) n (concat (map ins_bytes (stub_words sh d))) (0, s) =
    Some (4 * n, fold (exec_a64 callee) (take n (stub_a64 sh d)) s)"
proof -
  have "length (concat (take n (map ins_bytes (stub_words sh d)))) = 4 * n"
    unfolding take_map length_concat_ins_bytes using assms(2) by simp
  then show ?thesis
    using arm64.run_prefix [OF stub_encodes_arm64 [OF assms(1)], of n d callee s] assms(2) by (simp add: length_stub_a64)
qed

lemma stub_run_arm64:
  assumes "fits_a64 sh" and "jitStubCode_arm64 sh d = Inr (code, tab)"
  shows "\<exists>c pc n. c = call_state_arm64 sh d s \<and>
    (\<forall>callee. run_code decode_a64 (exec_a64 callee) n code (0, s) = Some (pc, c) \<and>
       decode_a64 (drop pc code) = Some (ABlr 16, 4) \<and> ar c 16 = d \<and>
       (keeps_frame_arm64 c (callee d c) \<longrightarrow>
          (\<exists>t. run_code decode_a64 (exec_a64 callee) (n + 4) code (0, s) = Some (length code, t) \<and>
             ar t = (ar (callee d c))(29 := ar s 29, 30 := ar s 30) \<and> asp t = asp s \<and>
             af t = af (callee d c) \<and> am t = am (callee d c))))"
proof -
  let ?c = "call_state_arm64 sh d s" and ?n = "length (pro_a64 @ mid_a64 sh d)"
  have code: "code = concat (map ins_bytes (stub_words sh d))"
    using assms jitStubCode_arm64_bytes by simp
  have w: "words sh \<le> 4096" using assms(1) by (simp add: fits_a64_def)
  have tk: "take ?n (stub_a64 sh d) = pro_a64 @ mid_a64 sh d" "length (stub_words sh d) = ?n + 4"
    by (simp_all add: stub_a64_def epi_a64_def flip: length_stub_a64)
  have lw: "length (pro_words @ mid_words sh d) = ?n"
    by (simp add: pro_a64_def pro_words_def mid_a64_def mid_words_def)
  have "run_code decode_a64 (exec_a64 callee) ?n code (0, s) = Some (4 * ?n, ?c)" for callee
    using run_stub_arm64 [OF assms(1), of ?n d callee s] run_to_call_arm64 [of callee sh d s] tk
    by (simp only: code)
  moreover have "decode_a64 (drop (4 * ?n) code) = Some (ABlr 16, 4)"
  proof -
    have "code = concat (map ins_bytes (pro_words @ mid_words sh d)) @ ins_bytes 0xd63f0200 @
        concat (map ins_bytes (epi_words @ [0xd65f03c0]))"
      by (simp add: code stub_words_def)
    moreover have "length (concat (map ins_bytes (pro_words @ mid_words sh d))) = 4 * ?n"
      unfolding length_concat_ins_bytes lw ..
    ultimately have "drop (4 * ?n) code = ins_bytes 0xd63f0200 @ concat (map ins_bytes (epi_words @ [0xd65f03c0]))"
      by simp
    moreover have "decode_a64 (ins_bytes 0xd63f0200) = Some (ABlr 16, 4)"
      using encodes_ins_bytes [of "0xd63f0200"] decode_word_consts(8) by (simp add: arm64.encodes_def)
    ultimately show ?thesis using arm64.dec_append by metis
  qed
  moreover have d: "ar ?c 16 = d" by (simp add: call_state_arm64_def call_regs_arm64_def)
  moreover have "\<exists>t. run_code decode_a64 (exec_a64 callee) (?n + 4) code (0, s) = Some (length code, t) \<and>
       ar t = (ar (callee d ?c))(29 := ar s 29, 30 := ar s 30) \<and> asp t = asp s \<and>
       af t = af (callee d ?c) \<and> am t = am (callee d ?c)"
    if k: "keeps_frame_arm64 ?c (callee d ?c)" for callee
  proof -
    have "stub_a64 sh d = (pro_a64 @ mid_a64 sh d) @ [ABlr 16] @ epi_a64 @ [ARet 30]" by (simp add: stub_a64_def)
    then have "fold (exec_a64 callee) (stub_a64 sh d) s = fold (exec_a64 callee) (epi_a64 @ [ARet 30]) (callee d ?c)"
      using run_to_call_arm64 [of callee sh d s] d by (simp add: rz_def)
    then have "run_code decode_a64 (exec_a64 callee) (?n + 4) code (0, s) =
        Some (length code, fold (exec_a64 callee) (epi_a64 @ [ARet 30]) (callee d ?c))"
      using run_stub_arm64 [OF assms(1), of "?n + 4" d callee s] tk(2)
      by (simp add: code length_stub_a64)
    moreover have "asp ?c = asp s - 288" "load64 (am ?c) (asp s - 296) = ar s 29" "load64 (am ?c) (asp s - 288) = ar s 30"
      using call_mem_arm64_frame [OF w, of "asp s - 296" s] by (simp_all add: call_state_arm64_def)
    ultimately show ?thesis using k by (simp add: exec_close keeps_frame_arm64_def)
  qed
  ultimately show ?thesis by blast
qed

lemma stub_call_arm64:
  assumes "fits_a64 sh" and "jitStubCode_arm64 sh d = Inr (code, tab)"
  shows "\<exists>c pc n. enters_dispatch_arm64 sh s c \<and>
    (\<forall>callee. run_code decode_a64 (exec_a64 callee) n code (0, s) = Some (pc, c) \<and>
       decode_a64 (drop pc code) = Some (ABlr 16, 4) \<and> ar c 16 = d \<and>
       (keeps_frame_arm64 c (callee d c) \<longrightarrow>
          (\<exists>t. run_code decode_a64 (exec_a64 callee) (n + 4) code (0, s) = Some (length code, t) \<and>
             ar t = (ar (callee d c))(29 := ar s 29, 30 := ar s 30) \<and> asp t = asp s \<and>
             af t = af (callee d c) \<and> am t = am (callee d c))))"
proof -
  have "words sh \<le> 4096" using assms(1) by (simp add: fits_a64_def)
  from enters_dispatch_arm64_call_state [OF this] stub_run_arm64 [OF assms] show ?thesis by blast
qed

text \<open>
  The arm64 trampoline is right: from its entry, the words \<open>jitStubCode\<close> puts reach a call of the
  given address in a state where \<open>Dispatch\<close> finds the method index, the caller's registers and the
  address of the stack area as its parameters, with the pointer results cleared; and whatever
  \<open>Dispatch\<close> does with its own frame and the registers, the code then runs to its end, with the
  caller's return address, stack and frame pointer back and the result registers \<open>Dispatch\<close> left.
\<close>
theorem trampoline_arm64:
  assumes "fits_a64 sh" and "jitStubCode_arm64 sh d = Inr (code, tab)"
  shows "\<exists>c pc n. enters_dispatch_arm64 sh s c \<and>
    (\<forall>callee. run_code decode_a64 (exec_a64 callee) n code (0, s) = Some (pc, c) \<and>
       decode_a64 (drop pc code) = Some (ABlr 16, 4) \<and> ar c 16 = d \<and>
       (keeps_frame_arm64 c (callee d c) \<longrightarrow>
          (\<exists>t. run_code decode_a64 (exec_a64 callee) (n + 4) code (0, s) = Some (length code, t) \<and>
             ar t = (ar (callee d c))(29 := ar s 29, 30 := ar s 30) \<and> asp t = asp s \<and>
             af t = af (callee d c) \<and> am t = am (callee d c))))"
  using assms by (rule stub_call_arm64)

lemma trampoline_arm64_witness:
  "case jitStubCode_arm64 \<lparr>sh_index = 3, argWords = 2, retWords = 3, argPtrs = 0, retPtrs = 5\<rparr> 0xffff123456789abc of
     Inl _ \<Rightarrow> False
   | Inr (code, tab) \<Rightarrow>
       (\<exists>c pc n t.
         enters_dispatch_arm64 \<lparr>sh_index = 3, argWords = 2, retWords = 3, argPtrs = 0, retPtrs = 5\<rparr>
           \<lparr>ar = \<lambda>r. of_nat r, asp = 0x1000, af = \<lambda>_. 7, am = \<lambda>_. 1\<rparr> c \<and>
         run_code decode_a64 (exec_a64 (\<lambda>_ c. c)) n code
           (0, \<lparr>ar = \<lambda>r. of_nat r, asp = 0x1000, af = \<lambda>_. 7, am = \<lambda>_. 1\<rparr>) = Some (pc, c) \<and>
         run_code decode_a64 (exec_a64 (\<lambda>_ c. c)) (n + 4) code
           (0, \<lparr>ar = \<lambda>r. of_nat r, asp = 0x1000, af = \<lambda>_. 7, am = \<lambda>_. 1\<rparr>) = Some (length code, t) \<and>
         asp t = 0x1000 \<and> ar t 29 = 29 \<and> ar t 30 = 30)"
proof -
  let ?sh = "\<lparr>sh_index = 3, argWords = 2, retWords = 3, argPtrs = 0, retPtrs = 5\<rparr> :: stubShape"
  let ?s = "\<lparr>ar = \<lambda>r. of_nat r, asp = 0x1000, af = \<lambda>_. 7, am = \<lambda>_. 1\<rparr> :: astate" and ?d = "0xffff123456789abc"
  have fits: "fits_a64 ?sh" by (simp add: fits_a64_def words_def)
  obtain code tab where j: "jitStubCode_arm64 ?sh ?d = Inr (code, tab)"
    using jitStubCode_arm64_bytes [OF fits] by blast
  from trampoline_arm64 [OF fits j, of ?s] obtain c pc n where
    c: "enters_dispatch_arm64 ?sh ?s c" and
    r: "\<And>callee. run_code decode_a64 (exec_a64 callee) n code (0, ?s) = Some (pc, c)" and
    k: "\<And>callee. keeps_frame_arm64 c (callee ?d c) \<Longrightarrow>
          (\<exists>t. run_code decode_a64 (exec_a64 callee) (n + 4) code (0, ?s) = Some (length code, t) \<and>
             ar t = (ar (callee ?d c))(29 := ar ?s 29, 30 := ar ?s 30) \<and> asp t = asp ?s \<and>
             af t = af (callee ?d c) \<and> am t = am (callee ?d c))"
    by blast
  from k [of "\<lambda>_ c. c"] obtain t where
    "run_code decode_a64 (exec_a64 (\<lambda>_ c. c)) (n + 4) code (0, ?s) = Some (length code, t)"
    "asp t = 0x1000" "ar t 29 = 29" "ar t 30 = 30"
    by (auto simp: keeps_frame_arm64_def)
  with c r [of "\<lambda>_ c. c"] j show ?thesis by auto
qed

section \<open>The buffer\<close>

text \<open>
  The buffer of 512 bytes is large enough for every shape, whatever its number of result words: the
  code of a shape with a 16-bit index and an area in reach of \<open>STR\<close> is assembled without a panic and
  takes 124 bytes and four more per pointer result, at most 380.
\<close>
theorem arm64_buffer_suffices:
  assumes "fits_a64 sh"
  shows "\<exists>code tab. jitStubCode_arm64 sh d = Inr (code, tab) \<and>
    length code = 124 + 4 * card {i. i < retWords sh \<and> bit (retPtrs sh) i} \<and> length code \<le> 380"
proof -
  have "card {i. i < retWords sh \<and> bit (retPtrs sh) i} = card (set (filter (\<lambda>i. bit (retPtrs sh) i) [0..<retWords sh]))"
    by (rule arg_cong [where f = card]) auto
  also have "\<dots> = length (zeroed sh)"
    unfolding zeroed_def length_map by (rule distinct_card) simp
  finally show ?thesis
    using jitStubCode_arm64_bytes [OF assms, of d] length_zeroed(2) [of sh] by (simp add: length_stub_words)
qed

lemma arm64_buffer_suffices_witness:
  "\<exists>code tab. jitStubCode_arm64 \<lparr>sh_index = 127, argWords = 0, retWords = 64, argPtrs = 0, retPtrs = - 1\<rparr> 0x1234 =
     Inr (code, tab) \<and> length code \<le> 380"
  using arm64_buffer_suffices [of "\<lparr>sh_index = 127, argWords = 0, retWords = 64, argPtrs = 0, retPtrs = - 1\<rparr>" "0x1234"]
  by (auto simp: fits_a64_def words_def)

section \<open>The stack pointer table on arm64\<close>

lemma fold_keeps_asp:
  "(\<And>i t. i \<in> set is \<Longrightarrow> asp (exec_a64 callee i t) = asp t) \<Longrightarrow> asp (fold (exec_a64 callee) is s) = asp s"
  by (induction "is" arbitrary: s) auto

lemma mid_keeps_asp: "i \<in> set (mid_a64 sh d) \<Longrightarrow> asp (exec_a64 callee i s) = asp s"
  by (auto simp: mid_a64_def set_rsp_def set_rz_def rsp_def rz_def)

text \<open>How far the stack pointer has moved before instruction \<open>n\<close>.\<close>

lemma asp_moved:
  assumes callee: "\<And>a t. asp (callee a t) = asp t" and n: "n < length (stub_a64 sh d)"
  shows "asp s - asp (fold (exec_a64 callee) (take n (stub_a64 sh d)) s) =
    (if 3 \<le> n \<and> n + 1 < length (stub_a64 sh d) then 288 else 0)"
proof -
  define b where "b = mid_a64 sh d @ [ABlr 16, ALdp 29 30 31 (- 1)]"
  let ?m = "length (mid_a64 sh d)"
  have lb: "length b = ?m + 2" by (simp add: b_def)
  have e: "stub_a64 sh d = pro_a64 @ b @ [AAddI 31 31 288, ARet 30]" by (simp add: stub_a64_def epi_a64_def b_def)
  have keep: "asp (fold (exec_a64 callee) (take k b) t) = asp t" for k t
    by (rule fold_keeps_asp) (auto dest!: in_set_takeD simp: mid_keeps_asp callee set_rz_def Let_def b_def)
  have l: "length (stub_a64 sh d) = ?m + 7" by (simp add: e pro_a64_def lb)
  have lp: "length pro_a64 = 3" by (simp add: pro_a64_def)
  have pro: "asp (fold (exec_a64 callee) pro_a64 s) = asp s - 288"
    by (simp add: pro_a64_def set_rsp_def rsp_def Let_def)
  consider (pro) "n = 0 \<or> n = 1 \<or> n = 2" | (body) k where "n = 3 + k" "k \<le> ?m + 2" | (ret) "n = ?m + 6"
  proof -
    have "n = 0 \<or> n = 1 \<or> n = 2 \<or> (\<exists>k. n = 3 + k \<and> k \<le> ?m + 2) \<or> n = ?m + 6" using n l by presburger
    with that show thesis by blast
  qed
  then show ?thesis
  proof cases
    case pro
    then show ?thesis by (elim disjE) (simp_all add: stub_a64_def pro_a64_def set_rsp_def Let_def numeral_2_eq_2)
  next
    case (body k)
    have "take n (stub_a64 sh d) = pro_a64 @ take k b" unfolding e using body lp lb by simp
    then show ?thesis using body l keep [of k] pro by simp
  next
    case ret
    have "take n (stub_a64 sh d) = pro_a64 @ take (?m + 2) b @ [AAddI 31 31 288]" unfolding e using ret lp lb by simp
    then show ?thesis using ret l keep [of "?m + 2"] pro by (simp add: set_rsp_def rsp_def del: take_append)
  qed
qed

text \<open>
  C18. What the stack pointer table says on arm64: at the call of \<open>Dispatch\<close>, where the frame is unwound
  during the call, the runtime reads the distance the stack pointer has moved. But the change points
  are recorded in bytes and the runtime reads them in units of \<open>PCQuantum\<close>, four: before the
  instructions at offsets 12 to 44 it reads 0 although the pointer has moved by 288, and before the
  final return it still reads 288 although the pointer is back.
\<close>
theorem pcsp_in_bytes_arm64:
  assumes fits: "fits_a64 sh" and jit: "jitStubCode_arm64 sh d = Inr (code, tab)"
    and callee: "\<forall>a t. asp (callee a t) = asp t" and n: "n < length code div 4"
    and run: "run_code decode_a64 (exec_a64 callee) n code (0, s) = Some (pc, t)"
  shows "pc = 4 * n \<and> pcvalue pcQuantum_arm64 tab pc = Some (if n < 12 then 0 else 288) \<and>
    asp s - asp t = (if 3 \<le> n \<and> n + 1 < length code div 4 then 288 else 0)"
proof -
  let ?L = "length (stub_words sh d)"
  have "Inr (code, tab) = (Inr (concat (map ins_bytes (stub_words sh d)),
      encodePCSP [\<lparr>pe_pc = 12, spdelta = 0\<rparr>, \<lparr>pe_pc = int (4 * ?L) - 4, spdelta = 288\<rparr>,
        \<lparr>pe_pc = int (4 * ?L), spdelta = 0\<rparr>]) :: (byte list \<times> byte list) res)"
    using jitStubCode_arm64_bytes [OF fits, of d] unfolding jit by simp
  then have code: "code = concat (map ins_bytes (stub_words sh d))"
    and tab: "tab = encodePCSP [\<lparr>pe_pc = 12, spdelta = 0\<rparr>, \<lparr>pe_pc = int (4 * ?L) - 4, spdelta = 288\<rparr>,
        \<lparr>pe_pc = int (4 * ?L), spdelta = 0\<rparr>]" by simp_all
  have L: "31 \<le> ?L" "?L \<le> 95" using length_stub_words [of sh d] length_zeroed(2) [of sh] by simp_all
  have len: "length code div 4 = ?L" unfolding code length_concat_ins_bytes by simp
  have r: "pc = 4 * n" "t = fold (exec_a64 callee) (take n (stub_a64 sh d)) s"
    using run run_stub_arm64 [OF fits, of n d callee s] n unfolding len code by simp_all
  have "pcvalue 4 tab pc = sp_at 4 [\<lparr>pe_pc = 12, spdelta = 0\<rparr>, \<lparr>pe_pc = int (4 * ?L) - 4, spdelta = 288\<rparr>,
        \<lparr>pe_pc = int (4 * ?L), spdelta = 0\<rparr>] pc"
    unfolding tab by (rule pcvalue_encodePCSP) (use L in \<open>auto simp: nat_diff_distrib\<close>)
  then have "pcvalue pcQuantum_arm64 tab pc = Some (if n < 12 then 0 else 288)"
    using n L unfolding r(1) len pcQuantum_arm64_def by (auto simp: nat_diff_distrib)
  with asp_moved [of callee n sh d s] callee n r L show ?thesis unfolding len by (simp add: length_stub_a64)
qed

lemma pcsp_in_bytes_arm64_witness:
  "case jitStubCode_arm64 \<lparr>sh_index = 3, argWords = 2, retWords = 0, argPtrs = 0, retPtrs = 0\<rparr> 0x1234 of
     Inl _ \<Rightarrow> False
   | Inr (code, tab) \<Rightarrow>
       (case run_code decode_a64 (exec_a64 (\<lambda>_ c. c)) 3 code (0, \<lparr>ar = \<lambda>r. of_nat r, asp = 0x1000, af = \<lambda>_. 7, am = \<lambda>_. 1\<rparr>) of
          None \<Rightarrow> False
        | Some (pc, t) \<Rightarrow> pcvalue pcQuantum_arm64 tab pc = Some 0 \<and> 0x1000 - asp t = 288)"
proof -
  let ?sh = "\<lparr>sh_index = 3, argWords = 2, retWords = 0, argPtrs = 0, retPtrs = 0\<rparr> :: stubShape"
  let ?s = "\<lparr>ar = \<lambda>r. of_nat r, asp = 0x1000, af = \<lambda>_. 7, am = \<lambda>_. 1\<rparr> :: astate"
  have fits: "fits_a64 ?sh" by (simp add: fits_a64_def words_def)
  have L: "length (stub_words ?sh 0x1234) = 31" using length_stub_words [of ?sh "0x1234"] by (simp add: zeroed_def)
  obtain code tab where j: "jitStubCode_arm64 ?sh 0x1234 = Inr (code, tab)" "code = concat (map ins_bytes (stub_words ?sh 0x1234))"
    using jitStubCode_arm64_bytes [OF fits, of "0x1234"] by blast
  have n: "length code div 4 = 31" unfolding j(2) length_concat_ins_bytes L by simp
  obtain pc t where r: "run_code decode_a64 (exec_a64 (\<lambda>_ c. c)) 3 code (0, ?s) = Some (pc, t)"
    using run_stub_arm64 [OF fits, of 3 "0x1234" "\<lambda>_ c. c" ?s] L unfolding j(2) by auto
  have "3 < length code div 4" unfolding n by simp
  from pcsp_in_bytes_arm64 [OF fits j(1) _ this r] n j(1) r show ?thesis by auto
qed

end
