(* ===== verification/ProxyProps.thy ===== *)
theory ProxyProps
  imports ProxyCorrect JitArm64Props
begin

text \<open>
  Proxies on a supported platform: the generator's contract for both architectures, operating systems
  on which mappings succeed, concrete platforms and interfaces for the witnesses, and, for a proxy built
  by \<open>NewOf\<close>, that the stack area of every method is described exactly to the garbage collector.
\<close>

section \<open>Supported platforms\<close>

text \<open>
  amd64 and arm64 with their code generators for the address \<open>d\<close> of \<open>Dispatch\<close>, for interfaces of up
  to \<open>n\<close> methods, on an operating system whose mappings are fresh.
\<close>

definition supported :: "platform \<Rightarrow> 64 word \<Rightarrow> nat \<Rightarrow> bool" where
  "supported F d n \<longleftrightarrow> mmap_fresh (pf_mmap F) \<and>
     (pf_arch F = Amd64 \<and> pf_gen F = (\<lambda>sh. jitStubCode_amd64 sh d) \<and> pf_quantum F = pcQuantum_amd64 \<and>
        uint d < 2 ^ 63 \<and> n \<le> 2 ^ 31 \<or>
      pf_arch F = Arm64 \<and> pf_gen F = (\<lambda>sh. jitStubCode_arm64 sh d) \<and> pf_quantum F = pcQuantum_arm64 \<and> n \<le> 2 ^ 16)"

text \<open>The state after \<open>init\<close> and any number of proxies.\<close>

definition ready :: "platform \<Rightarrow> jit \<Rightarrow> bool" where
  "ready F s \<longleftrightarrow> jit_ok (pf_gen F) (pf_version F) (pf_quantum F) s \<and> stubs_ok (pf_arch F) (pf_stubs F) slotCount s"

lemma shape_ok_amd64: "uint d < 2 ^ 63 \<Longrightarrow> n \<le> 2 ^ 31 \<Longrightarrow> sh_index sh < n \<Longrightarrow> words sh \<le> 60 \<Longrightarrow> stub_fits sh d"
  by (simp add: stub_fits_def)

lemma shape_ok_arm64: "n \<le> 2 ^ 16 \<Longrightarrow> sh_index sh < n \<Longrightarrow> words sh \<le> 60 \<Longrightarrow> fits_a64 sh"
  by (simp add: fits_a64_def)

lemma NewOf_supported:
  assumes "supported F d (length (gi_methods t))" "ready F s" "target_ok t tgt"
  shows "case NewOf F t tgt ixs s of
      Inr (P, s') \<Rightarrow> proxy_ok (pf_arch F) t P s' \<and> gi_isInterface t \<and>
        (\<forall>k<length (gi_methods t). method_fits (pf_arch F) (snd (gi_methods t ! k)) k) \<and>
        jit_ok (pf_gen F) (pf_version F) (pf_quantum F) s' \<and> jit_extends s s'
    | Inl e \<Rightarrow> \<not> gi_isInterface t \<or> (\<exists>k<length (gi_methods t). \<not> method_fits (pf_arch F) (snd (gi_methods t ! k)) k) \<or>
        \<not> mmap_serves (pf_mmap F) (length (gi_methods t)) (jmods s)"
proof -
  have mm: "mmap_fresh (pf_mmap F)" and r: "jit_ok (pf_gen F) (pf_version F) (pf_quantum F) s"
    "stubs_ok (pf_arch F) (pf_stubs F) slotCount s"
    using assms(1,2) by (simp_all add: supported_def ready_def)
  from assms(1) consider
    (amd) "pf_gen F = (\<lambda>sh. jitStubCode_amd64 sh d)" "uint d < 2 ^ 63" "length (gi_methods t) \<le> 2 ^ 31"
    | (arm) "pf_gen F = (\<lambda>sh. jitStubCode_arm64 sh d)" "length (gi_methods t) \<le> 2 ^ 16"
    by (auto simp: supported_def)
  then show ?thesis
  proof cases
    case amd
    show ?thesis
      unfolding amd(1)
      by (rule amd64_gen.NewOf_run [OF amd(1) mm r(2) r(1) [unfolded amd(1)] assms(3)]) (use amd shape_ok_amd64 in blast)
  next
    case arm
    show ?thesis
      unfolding arm(1)
      by (rule arm64_gen.NewOf_run [OF arm(1) mm r(2) r(1) [unfolded arm(1)] assms(3)]) (use arm shape_ok_arm64 in blast)
  qed
qed

lemma NewOf_built:
  assumes "supported F d (length (gi_methods t))" "ready F s" "target_ok t tgt" "NewOf F t tgt ixs s = Inr (P, s')"
  shows "proxy_ok (pf_arch F) t P s'" "ready F s'" "jit_extends s s'"
proof -
  have r: "proxy_ok (pf_arch F) t P s' \<and> jit_ok (pf_gen F) (pf_version F) (pf_quantum F) s' \<and> jit_extends s s'"
    using NewOf_supported [OF assms(1-3), of ixs] assms(4) by simp
  then show "proxy_ok (pf_arch F) t P s'" "jit_extends s s'" by simp_all
  show "ready F s'" using r assms(2) stubs_ok_mono unfolding ready_def by blast
qed

section \<open>A bump allocator for the witnesses\<close>

text \<open>Mappings one behind the other, above everything loaded.\<close>

definition bump_mmap :: mmap where
  "bump_mmap mods n =
     (let b = fold max (map (\<lambda>m. unat (md_maxpc m)) mods) 0x10000
      in if b + n \<le> 2 ^ 47 then Some (of_nat b) else None)"

lemma fold_max_ge: "x \<in> set xs \<Longrightarrow> (x :: nat) \<le> fold max xs b" and fold_max_base: "(b :: nat) \<le> fold max xs b"
proof -
  have base: "b \<le> fold max xs b" for b :: nat and xs by (induction xs arbitrary: b) (auto intro: le_trans [OF max.cobounded2])
  then show "b \<le> fold max xs b" .
  show "x \<in> set xs \<Longrightarrow> x \<le> fold max xs b"
    by (induction xs arbitrary: b) (auto intro: le_trans [OF max.cobounded1 base])
qed

lemma bump_fresh: "mmap_fresh bump_mmap"
  unfolding mmap_fresh_def
proof (intro allI impI)
  fix mods n b assume a: "bump_mmap mods n = Some b \<and> 0 < n"
  define B where "B = fold max (map (\<lambda>m. unat (md_maxpc m)) mods) 0x10000"
  have b: "b = of_nat B" "B + n \<le> 2 ^ 47" using a by (auto simp: bump_mmap_def B_def Let_def split: if_splits)
  then have u: "unat b = B" by simp
  have "\<not> in_text m pc" if m: "m \<in> set mods" "b \<le> pc" for m pc
  proof
    assume "in_text m pc"
    then have "unat pc < unat (md_maxpc m)" by (simp add: in_text_def word_less_nat_alt)
    moreover have "unat (md_maxpc m) \<le> B" unfolding B_def by (rule fold_max_ge) (use m(1) in auto)
    ultimately show False using m(2) u by (simp add: word_le_nat_alt)
  qed
  then show "unat b + n < 2 ^ 64 \<and> (\<forall>m\<in>set mods. \<forall>pc. b \<le> pc \<and> pc < b + of_nat n \<longrightarrow> \<not> in_text m pc)"
    using u b(2) by auto
qed

lemma bump_serves:
  "fold max (map (\<lambda>m. unat (md_maxpc m)) mods) 0x10000 + 4096 * k \<le> 2 ^ 47 \<Longrightarrow> mmap_serves bump_mmap k mods"
proof (induction k arbitrary: mods)
  case (Suc k)
  let ?B = "fold max (map (\<lambda>m. unat (md_maxpc m)) mods) 0x10000"
  show ?case
    unfolding mmap_serves.simps
  proof (intro allI impI)
    fix n :: nat assume n: "0 < n \<and> n \<le> 4096"
    have "mmap_serves bump_mmap k (mods @ [m])" if m: "md_minpc m = of_nat ?B" "md_maxpc m = of_nat ?B + of_nat n" for m
    proof (rule Suc.IH)
      have "unat (md_maxpc m) = ?B + n"
      proof -
        have e: "md_maxpc m = of_nat (?B + n)" using m(2) by simp
        show ?thesis unfolding e by (rule unat_of_nat_64) (use Suc.prems n in simp)
      qed
      then show "fold max (map (\<lambda>m. unat (md_maxpc m)) (mods @ [m])) 0x10000 + 4096 * k \<le> 2 ^ 47"
        using Suc.prems n by simp
    qed
    moreover have "bump_mmap mods n = Some (of_nat ?B)" using Suc.prems n by (simp add: bump_mmap_def Let_def)
    ultimately show "\<exists>b. bump_mmap mods n = Some b \<and> (\<forall>m. md_minpc m = b \<and> md_maxpc m = b + of_nat n \<longrightarrow> mmap_serves bump_mmap k (mods @ [m]))"
      by blast
  qed
qed simp

definition empty_jit :: jit where
  "empty_jit = \<lparr>jitBySh = (\<lambda>_. None), jmods = [], jitRoots = [], pages = (\<lambda>_. None)\<rparr>"

lemma empty_jit_ok: "jit_ok gen v q empty_jit"
  by (simp add: jit_ok_def empty_jit_def)

section \<open>Machines for the witnesses\<close>

lemma init_supported:
  assumes "supported F d n" "slotCount \<le> n" "jit_ok (pf_gen F) (pf_version F) (pf_quantum F) s"
  shows "case jit_init (pf_arch F) (pf_gen F) (pf_version F) (pf_quantum F) (pf_mmap F) s of
      Inr (stubs, s') \<Rightarrow> jit_ok (pf_gen F) (pf_version F) (pf_quantum F) s' \<and> jit_extends s s' \<and>
        stubs_ok (pf_arch F) stubs slotCount s' \<and>
        (\<forall>k. mmap_serves (pf_mmap F) (slotCount + k) (jmods s) \<longrightarrow> mmap_serves (pf_mmap F) k (jmods s'))
    | Inl e \<Rightarrow> \<not> mmap_serves (pf_mmap F) slotCount (jmods s)"
proof -
  have mm: "mmap_fresh (pf_mmap F)" using assms(1) by (simp add: supported_def)
  have g: "sh_index (generic_shape A i) < n" "words (generic_shape A i) \<le> 60" if "i < slotCount" for A i
    using that assms(2) by (cases A; simp add: generic_shape_def words_def ptrSize_def)+
  from assms(1) consider
    (amd) "pf_gen F = (\<lambda>sh. jitStubCode_amd64 sh d)" "uint d < 2 ^ 63" "n \<le> 2 ^ 31"
    | (arm) "pf_gen F = (\<lambda>sh. jitStubCode_arm64 sh d)" "n \<le> 2 ^ 16"
    by (auto simp: supported_def)
  then show ?thesis
  proof cases
    case amd
    show ?thesis
      unfolding amd(1)
      by (rule amd64_gen.jit_init_ok [OF assms(3) [unfolded amd(1)] mm]) (use amd shape_ok_amd64 g in blast)
  next
    case arm
    show ?thesis
      unfolding arm(1)
      by (rule arm64_gen.jit_init_ok [OF assms(3) [unfolded arm(1)] mm]) (use arm shape_ok_arm64 g in blast)
  qed
qed

definition demo_platform :: "arch \<Rightarrow> 64 word list \<Rightarrow> platform" where
  "demo_platform A stubs =
     \<lparr>pf_arch = A,
      pf_gen = (\<lambda>sh. if A = Amd64 then jitStubCode_amd64 sh 0x123456 else jitStubCode_arm64 sh 0x123456),
      pf_version = Go121, pf_quantum = (if A = Amd64 then pcQuantum_amd64 else pcQuantum_arm64), pf_mmap = bump_mmap,
      pf_stubs = stubs, pf_code = (\<lambda>_ m. Inr m), pf_proxyType = \<lparr>at_addr = 0x5000, at_hash = 0xabcd\<rparr>\<rparr>"

lemma demo_supported: "A \<noteq> OtherArch \<Longrightarrow> n \<le> 2 ^ 16 \<Longrightarrow> supported (demo_platform A stubs) 0x123456 n"
  using bump_fresh by (cases A) (simp_all add: supported_def demo_platform_def)

text \<open>After \<open>init\<close>, with mappings left for \<open>k\<close> more trampolines.\<close>

lemma demo_ready:
  assumes "A \<noteq> OtherArch" "k \<le> 1000"
  obtains stubs s where "ready (demo_platform A stubs) s" "mmap_serves bump_mmap k (jmods s)"
proof -
  let ?F = "demo_platform A []"
  have m: "mmap_serves bump_mmap (slotCount + k) (jmods empty_jit)"
    by (rule bump_serves) (use assms(2) in \<open>simp add: empty_jit_def slotCount_def\<close>)
  then have m0: "mmap_serves bump_mmap slotCount (jmods empty_jit)" by (rule mmap_serves_less) simp
  have pf: "pf_mmap ?F = bump_mmap" by (simp add: demo_platform_def)
  note i = init_supported [OF demo_supported [OF assms(1), of "2 ^ 16" "[]"] _ empty_jit_ok, unfolded pf]
  obtain stubs s where "jit_ok (pf_gen ?F) (pf_version ?F) (pf_quantum ?F) s" "stubs_ok (pf_arch ?F) stubs slotCount s"
    "mmap_serves bump_mmap k (jmods s)"
  proof (cases "jit_init (pf_arch ?F) (pf_gen ?F) (pf_version ?F) (pf_quantum ?F) bump_mmap empty_jit")
    case (Inl e)
    then show thesis using i m0 by (simp add: slotCount_def del: mmap_serves.simps)
  next
    case (Inr r)
    obtain stubs s where r: "r = (stubs, s)" by (cases r)
    show thesis
      by (rule that [of s stubs]) (use i m Inr r in \<open>simp_all add: slotCount_def del: mmap_serves.simps\<close>)
  qed
  then show thesis using that [of stubs s] by (simp add: ready_def demo_platform_def)
qed

text \<open>An interface with a method that passes strings on the stack, and one that does not.\<close>

definition demo_iface :: goIface where
  "demo_iface = \<lparr>gi_isInterface = True, gi_addr = 0x4000,
     gi_methods = [(''All'', TFunc many_strs [TString] False), (''Len'', TFunc [] [TInt] False)]\<rparr>"

lemma demo_methods:
  "method_fits Amd64 (TFunc many_strs [TString] False) 0" "method_fits Amd64 (TFunc [] [TInt] False) (Suc 0)"
  "method_fits Arm64 (TFunc many_strs [TString] False) 0" "method_fits Arm64 (TFunc [] [TInt] False) (Suc 0)"
  by code_simp+

lemma demo_proxy:
  assumes "A \<noteq> OtherArch" "ready (demo_platform A stubs) s" "mmap_serves bump_mmap 2 (jmods s)"
  obtains P s' where "NewOf (demo_platform A stubs) demo_iface None ixs s = Inr (P, s')"
proof -
  have n: "length (gi_methods demo_iface) = 2" by (simp add: demo_iface_def)
  have pf: "pf_mmap (demo_platform A stubs) = bump_mmap" "pf_arch (demo_platform A stubs) = A" by (simp_all add: demo_platform_def)
  have t: "target_ok demo_iface None" by (simp add: target_ok_def)
  have fits: "\<forall>k<2. method_fits A (snd (gi_methods demo_iface ! k)) k"
    using assms(1) demo_methods by (cases A) (auto simp: demo_iface_def less_2_cases_iff)
  have g: "gi_isInterface demo_iface" by (simp add: demo_iface_def)
  show thesis
  proof (cases "NewOf (demo_platform A stubs) demo_iface None ixs s")
    case (Inl e)
    then show thesis
      using NewOf_supported [OF demo_supported [OF assms(1)] assms(2) t, of ixs] fits g assms(3)
      unfolding n pf by (auto simp del: mmap_serves.simps)
  next
    case (Inr r)
    then show thesis using that by (cases r) simp
  qed
qed

section \<open>What the collector sees\<close>

text \<open>
  What the runtime makes of a program counter: the words of the argument area of the function there,
  and the pointers among them, agree with the layout of the method; there are no local pointers.
\<close>

definition area_seen :: "goversion \<Rightarrow> nat \<Rightarrow> moduledata list \<Rightarrow> abiLayout \<Rightarrow> 64 word \<Rightarrow> bool" where
  "area_seen v q mods l pc \<longleftrightarrow>
     (\<exists>md map n. findfunc mods pc = Some (md, 0) \<and> funcargs v md 0 = Some n \<and> stackBytes l \<le> n \<and>
       getStackMap v q md 0 pc 0 = Some map \<and> 8 * length map = n \<and>
       (\<forall>i<length map. map ! i \<longleftrightarrow> 8 * i \<in> set (stackPtrOffs l) \<union> set (retStackPtrOffs l)) \<and>
       getStackMap v q md 0 pc 1 = Some [])"

text \<open>Any program counter in a cached trampoline.\<close>

lemma cached_lookup:
  assumes ok: "jit_ok gen v q s" and c: "jitBySh s sh = Some p"
  obtains code pcsp where "gen sh = Inr (code, pcsp)" "pages s p = Some code" "code \<noteq> []"
    "\<forall>off<length code. \<exists>md. findfunc (jmods s) (p + of_nat off) = Some (md, 0) \<and> funcargs v md 0 = Some (8 * words sh) \<and>
       funcspdelta v q md 0 (p + of_nat off) = pcvalue q pcsp off \<and>
       getStackMap v q md 0 (p + of_nat off) 0 = Some (area_map sh) \<and> getStackMap v q md 0 (p + of_nat off) 1 = Some []"
proof -
  obtain code pcsp md where k: "gen sh = Inr (code, pcsp)" "0 < length code" "length code \<le> 4096"
    "unat p + length code < 2 ^ 64" "words sh \<le> 2 ^ 20" "pages s p = Some code"
    "md = buildJITModule v q p code pcsp sh" "md \<in> set (jmods s)"
    using ok c unfolding jit_ok_def cached_ok_def by blast
  obtain pre post where mods: "jmods s = pre @ md # post" using k(8) by (meson split_list)
  show thesis
  proof (rule that [OF k(1,6)])
    show "code \<noteq> []" using k(2) by simp
  next
    show "\<forall>off<length code. \<exists>md. findfunc (jmods s) (p + of_nat off) = Some (md, 0) \<and> funcargs v md 0 = Some (8 * words sh) \<and>
       funcspdelta v q md 0 (p + of_nat off) = pcvalue q pcsp off \<and>
       getStackMap v q md 0 (p + of_nat off) 0 = Some (area_map sh) \<and> getStackMap v q md 0 (p + of_nat off) 1 = Some []"
    proof (intro allI impI)
    fix off assume off: "off < length code"
    let ?pc = "p + of_nat off"
    have u: "unat ?pc = unat p + off" "unat (p + of_nat (length code)) = unat p + length code"
      using off k(4) by (simp_all add: unat_word_ariths)
    have pc: "p \<le> ?pc" "?pc < p + of_nat (length code)"
      unfolding word_le_nat_alt word_less_nat_alt u using off by simp_all
    have "in_text md ?pc" using pc by (simp add: k(7) module_text)
    then have first: "\<forall>m\<in>set pre. \<not> (md_minpc m \<le> ?pc \<and> ?pc < md_maxpc m)"
      using ok unfolding jit_ok_def mods by (auto simp: sorted_wrt_append disjoint_text_def in_text_def)
    have "unat (?pc - p) = off" using off k(4) by simp
    then show "\<exists>md. findfunc (jmods s) ?pc = Some (md, 0) \<and> funcargs v md 0 = Some (8 * words sh) \<and>
       funcspdelta v q md 0 ?pc = pcvalue q pcsp off \<and>
       getStackMap v q md 0 ?pc 0 = Some (area_map sh) \<and> getStackMap v q md 0 ?pc 1 = Some []"
      using module_lookup(1) [OF k(7,5,3,4) pc first, of post] module_lookup(2-5) [OF k(7,5,3,4) pc first] unfolding mods
      by (intro exI [of _ md]) simp
    qed
  qed
qed

lemma built_method:
  assumes "proxy_ok A t P s" "k < length (gi_methods t)" "newABILayout A (snd (gi_methods t ! k)) = Inr l"
  obtains sh where "jitBySh s sh = Some (codePtr (px_methods P ! k))" "sh_index sh = k" "describes l sh"
    "pm_layout (pm_method (px_methods P ! k)) = l" "itabFun (px_itab P) (length (gi_methods t)) k = Inr (codePtr (px_methods P ! k))"
    "k < length (px_methods P)"
proof -
  have m: "method_ok A t k (px_methods P ! k) s" "itabFun (px_itab P) (length (gi_methods t)) k = Inr (codePtr (px_methods P ! k))"
    "k < length (px_methods P)"
    using assms(1,2) by (simp_all add: proxy_ok_def)
  from m(1) assms(3) have "pm_layout (pm_method (px_methods P ! k)) = l" by (simp add: method_ok_def)
  moreover from this m(1) obtain sh where "jitBySh s sh = Some (codePtr (px_methods P ! k))" "sh_index sh = k" "describes l sh"
    by (auto simp: method_ok_def)
  ultimately show thesis using that m(2,3) by blast
qed

lemma demo_layout:
  "newABILayout A (snd (gi_methods demo_iface ! 0)) = Inr (layout_of A many_strs [TString])"
  "length (gi_methods demo_iface) = 2" "target_ok demo_iface None"
  using layout_of_eq by (simp_all add: demo_iface_def target_ok_def)

text \<open>
  C2. The garbage collector sees every method's stack area exactly: at any program counter in the
  trampoline of method \<open>k\<close> of a proxy, in a state any number of other trampolines share, the runtime's
  lookup finds the trampoline's own module; the area it describes covers the method's stack area, word
  \<open>i\<close> is a pointer in the map exactly when the method passes an argument or result pointer there, and
  the frame's own words are none.
\<close>
theorem collector_sees_the_stack_area:
  assumes "supported F d (length (gi_methods t))" "ready F s" "target_ok t tgt" "NewOf F t tgt ixs s = Inr (P, s')"
    and k: "k < length (gi_methods t)" and l: "newABILayout (pf_arch F) (snd (gi_methods t ! k)) = Inr l"
  shows "\<exists>p code. itabFun (px_itab P) (length (gi_methods t)) k = Inr p \<and> pages s' p = Some code \<and> code \<noteq> [] \<and>
    (\<forall>off<length code. area_seen (pf_version F) (pf_quantum F) (jmods s') l (p + of_nat off))"
proof -
  note built = NewOf_built [OF assms(1-4)]
  have ok: "jit_ok (pf_gen F) (pf_version F) (pf_quantum F) s'" using built(2) by (simp add: ready_def)
  obtain sh where sh: "jitBySh s' sh = Some (codePtr (px_methods P ! k))" "describes l sh"
    "itabFun (px_itab P) (length (gi_methods t)) k = Inr (codePtr (px_methods P ! k))"
    by (rule built_method [OF built(1) k l])
  let ?p = "codePtr (px_methods P ! k)"
  obtain code pcsp where c: "pf_gen F sh = Inr (code, pcsp)" "pages s' ?p = Some code" "code \<noteq> []"
    "\<forall>off<length code. \<exists>md. findfunc (jmods s') (?p + of_nat off) = Some (md, 0) \<and>
       funcargs (pf_version F) md 0 = Some (8 * words sh) \<and>
       funcspdelta (pf_version F) (pf_quantum F) md 0 (?p + of_nat off) = pcvalue (pf_quantum F) pcsp off \<and>
       getStackMap (pf_version F) (pf_quantum F) md 0 (?p + of_nat off) 0 = Some (area_map sh) \<and>
       getStackMap (pf_version F) (pf_quantum F) md 0 (?p + of_nat off) 1 = Some []"
    by (rule cached_lookup [OF ok sh(1)])
  have area: "8 * length (area_map sh) = 8 * words sh" "stackBytes l \<le> 8 * words sh"
    "\<forall>i<length (area_map sh). area_map sh ! i \<longleftrightarrow> 8 * i \<in> set (stackPtrOffs l) \<union> set (retStackPtrOffs l)"
    using sh(2) by (simp_all add: area_map_def describes_def)
  show ?thesis
  proof (intro exI [of _ ?p] exI [of _ code] conjI allI impI)
    fix off assume "off < length code"
    then obtain md where "findfunc (jmods s') (?p + of_nat off) = Some (md, 0)"
      "funcargs (pf_version F) md 0 = Some (8 * words sh)"
      "getStackMap (pf_version F) (pf_quantum F) md 0 (?p + of_nat off) 0 = Some (area_map sh)"
      "getStackMap (pf_version F) (pf_quantum F) md 0 (?p + of_nat off) 1 = Some []"
      using c(4) by blast
    with area show "area_seen (pf_version F) (pf_quantum F) (jmods s') l (?p + of_nat off)"
      unfolding area_seen_def by blast
  qed (rule sh(3) c(2,3))+
qed

text \<open>A proxy of the interface above on a machine of the given architecture.\<close>

lemma demo_built:
  assumes "A \<noteq> OtherArch"
  obtains stubs s P s' where "supported (demo_platform A stubs) 0x123456 (length (gi_methods demo_iface))"
    "ready (demo_platform A stubs) s" "mmap_serves bump_mmap 2 (jmods s)"
    "NewOf (demo_platform A stubs) demo_iface None ixs s = Inr (P, s')"
proof -
  obtain stubs s where r: "ready (demo_platform A stubs) s" "mmap_serves bump_mmap 2 (jmods s)"
    by (rule demo_ready [OF assms, of 2]) simp_all
  obtain P s' where n: "NewOf (demo_platform A stubs) demo_iface None ixs s = Inr (P, s')"
    by (rule demo_proxy [OF assms r])
  have "supported (demo_platform A stubs) 0x123456 (length (gi_methods demo_iface))"
    by (rule demo_supported [OF assms]) (simp add: demo_layout)
  then show thesis using that r n by blast
qed

lemma demo_fields:
  "pf_arch (demo_platform A stubs) = A" "pf_version (demo_platform A stubs) = Go121"
  "pf_quantum (demo_platform A stubs) = (if A = Amd64 then pcQuantum_amd64 else pcQuantum_arm64)"
  "pf_mmap (demo_platform A stubs) = bump_mmap" "at_addr (pf_proxyType (demo_platform A stubs)) = 0x5000"
  "at_hash (pf_proxyType (demo_platform A stubs)) = 0xabcd"
  by (simp_all add: demo_platform_def)

lemma collector_sees_the_stack_area_witness:
  "\<exists>stubs s P s' p md map. NewOf (demo_platform Amd64 stubs) demo_iface None [] s = Inr (P, s') \<and>
     itabFun (px_itab P) 2 0 = Inr p \<and> findfunc (jmods s') p = Some (md, 0) \<and>
     getStackMap Go121 pcQuantum_amd64 md 0 p 0 = Some map \<and> 24 \<le> length map \<and> map ! 0 \<and> \<not> map ! 1 \<and> map ! 2"
proof -
  let ?l = "layout_of Amd64 many_strs [TString]"
  obtain stubs s P s' where b: "supported (demo_platform Amd64 stubs) 0x123456 (length (gi_methods demo_iface))"
    "ready (demo_platform Amd64 stubs) s" "NewOf (demo_platform Amd64 stubs) demo_iface None [] s = Inr (P, s')"
    by (rule demo_built [of Amd64]) simp
  have l: "newABILayout (pf_arch (demo_platform Amd64 stubs)) (snd (gi_methods demo_iface ! 0)) = Inr ?l"
    unfolding demo_fields by (rule demo_layout)
  have k: "0 < length (gi_methods demo_iface)" by (simp add: demo_layout)
  note c = collector_sees_the_stack_area [OF b(1,2) demo_layout(3) b(3) k l, unfolded demo_fields demo_layout(2) simp_thms if_True]
  obtain p and code :: "byte list" where p: "itabFun (px_itab P) 2 0 = Inr p" "code \<noteq> []" and
    m: "\<forall>off<length code. area_seen Go121 pcQuantum_amd64 (jmods s') ?l (p + of_nat off)"
    using c by blast
  from m [rule_format, of 0] p(2) obtain md map n where md: "findfunc (jmods s') p = Some (md, 0)" "stackBytes ?l \<le> n"
    "getStackMap Go121 pcQuantum_amd64 md 0 p 0 = Some map" "8 * length map = n"
    "\<forall>i<length map. map ! i \<longleftrightarrow> 8 * i \<in> set (stackPtrOffs ?l) \<union> set (retStackPtrOffs ?l)"
    by (auto simp: area_seen_def)
  have st: "192 \<le> stackBytes ?l" "0 \<in> set (stackPtrOffs ?l)" "8 \<notin> set (stackPtrOffs ?l) \<union> set (retStackPtrOffs ?l)"
    "16 \<in> set (stackPtrOffs ?l)" by code_simp+
  have "24 \<le> length map" using md(2,4) st(1) by linarith
  then have "0 < length map" "1 < length map" "2 < length map" by linarith+
  from md(5) [rule_format, OF this(1)] md(5) [rule_format, OF this(2)] md(5) [rule_format, OF this(3)]
  have "map ! 0 \<and> \<not> map ! 1 \<and> map ! 2" using st by simp
  then show ?thesis using b(3) p(1) md(1,3) \<open>24 \<le> length map\<close> by blast
qed

end
