(* ===== verification/BuildProps.thy ===== *)
theory BuildProps
  imports ProxyProps
begin

text \<open>
  The properties of building trampolines and proxies: the invariant of the generator's state, the
  prefetched trampolines, which interfaces \<open>NewOf\<close> accepts, what it shares between proxies, and the
  words of a forged itab.
\<close>

section \<open>The state of jit.go\<close>

text \<open>
  C14. Asking for a trampoline keeps the state of jit.go well formed and takes nothing away: every cached
  pointer has a page with the code of its shape, a registered module that describes it and the roots
  that keep both alive, no two shapes share a pointer, the texts of all modules are disjoint. A failed
  mapping changes nothing; otherwise the shape is cached, and asking again gives the same pointer and
  changes nothing.
\<close>
theorem jitTrampoline_keeps_invariant:
  assumes "supported F d n" "jit_ok (pf_gen F) (pf_version F) (pf_quantum F) s" "sh_index sh < n" "words sh \<le> 60"
  shows "\<exists>c s'. jitTrampoline (pf_gen F) (pf_version F) (pf_quantum F) (pf_mmap F) sh s = Inr (c, s') \<and>
    jit_ok (pf_gen F) (pf_version F) (pf_quantum F) s' \<and> jit_extends s s' \<and>
    (case c of None \<Rightarrow> s' = s
     | Some p \<Rightarrow> {sh'. jitBySh s' sh' = Some p} = {sh} \<and>
         jitTrampoline (pf_gen F) (pf_version F) (pf_quantum F) (pf_mmap F) sh s' = Inr (Some p, s'))"
proof -
  have mm: "mmap_fresh (pf_mmap F)" using assms(1) by (simp add: supported_def)
  have run: "\<exists>c s'. jitTrampoline (pf_gen F) (pf_version F) (pf_quantum F) (pf_mmap F) sh s = Inr (c, s') \<and>
     jit_ok (pf_gen F) (pf_version F) (pf_quantum F) s' \<and> jit_extends s s' \<and>
    (case c of None \<Rightarrow> s' = s | Some p \<Rightarrow> jitBySh s' sh = Some p)"
  proof -
    from assms(1) consider
      (amd) "pf_gen F = (\<lambda>sh. jitStubCode_amd64 sh d)" "stub_fits sh d"
      | (arm) "pf_gen F = (\<lambda>sh. jitStubCode_arm64 sh d)" "fits_a64 sh"
      using assms(3,4) shape_ok_amd64 shape_ok_arm64 unfolding supported_def by blast
    then show ?thesis
    proof cases
      case amd
      from amd64_gen.jitTrampoline_ok [OF assms(2) [unfolded amd(1)] mm amd(2)] show ?thesis
        unfolding amd(1) by (elim exE conjE, intro exI conjI)
    next
      case arm
      from arm64_gen.jitTrampoline_ok [OF assms(2) [unfolded arm(1)] mm arm(2)] show ?thesis
        unfolding arm(1) by (elim exE conjE, intro exI conjI)
    qed
  qed
  then obtain c s' where r: "jitTrampoline (pf_gen F) (pf_version F) (pf_quantum F) (pf_mmap F) sh s = Inr (c, s')"
     "jit_ok (pf_gen F) (pf_version F) (pf_quantum F) s'" "jit_extends s s'"
    "case c of None \<Rightarrow> s' = s | Some p \<Rightarrow> jitBySh s' sh = Some p" by blast
  show ?thesis
  proof (cases c)
    case None
    then show ?thesis using r by auto
  next
    case (Some p)
    have "{sh'. jitBySh s' sh' = Some p} = {sh}" using jit_ok_inj [OF r(2)] r(4) Some by auto
    moreover have "jitTrampoline (pf_gen F) (pf_version F) (pf_quantum F) (pf_mmap F) sh s' = Inr (Some p, s')"
      using r(4) Some by (simp add: jitTrampoline_def)
    ultimately show ?thesis using r Some by auto
  qed
qed

lemma jitTrampoline_keeps_invariant_witness:
  "\<exists>s'. jitTrampoline (pf_gen (demo_platform Arm64 [])) Go121 pcQuantum_arm64 bump_mmap
       \<lparr>sh_index = 3, argWords = 2, retWords = 3, argPtrs = 1, retPtrs = 5\<rparr> empty_jit = Inr (Some 0x10000, s') \<and>
     jitTrampoline (pf_gen (demo_platform Arm64 [])) Go121 pcQuantum_arm64 bump_mmap
       \<lparr>sh_index = 3, argWords = 2, retWords = 3, argPtrs = 1, retPtrs = 5\<rparr> s' = Inr (Some 0x10000, s')"
proof -
  let ?sh = "\<lparr>sh_index = 3, argWords = 2, retWords = 3, argPtrs = 1, retPtrs = 5\<rparr> :: stubShape"
  let ?F = "demo_platform Arm64 []"
  let ?j = "jitTrampoline (pf_gen ?F) (pf_version ?F) (pf_quantum ?F) (pf_mmap ?F) ?sh"
  have F: "pf_version ?F = Go121" "pf_quantum ?F = pcQuantum_arm64" "pf_mmap ?F = bump_mmap" by (simp_all add: demo_fields)
  have sup: "supported ?F 0x123456 4" by (rule demo_supported) simp_all
  have sh: "sh_index ?sh < 4" "words ?sh \<le> 60" by (simp_all add: words_def)
  from jitTrampoline_keeps_invariant [OF sup empty_jit_ok sh] obtain c s' where r: "?j empty_jit = Inr (c, s')"
    "case c of None \<Rightarrow> s' = empty_jit | Some p \<Rightarrow> {sh'. jitBySh s' sh' = Some p} = {?sh} \<and> ?j s' = Inr (Some p, s')"
    by blast
  have "fits_a64 ?sh" by (simp add: fits_a64_def words_def)
  then obtain code tab where "jitStubCode_arm64 ?sh 0x123456 = Inr (code, tab)" "length code \<le> 4096"
    using arm64_gen.gen_code by blast
  then have "c = Some 0x10000"
    using r(1) by (auto simp: jitTrampoline_def jitExecAlloc_def empty_jit_def bump_mmap_def demo_platform_def Let_def)
  then show ?thesis using r unfolding F by auto
qed

text \<open>
  C16. After \<open>init\<close> there is a trampoline for every slot, unless a mapping failed: 128 distinct pointers,
  \<open>slotCode\<close> finds each at its index, and the page there holds the code generated for that index and
  the whole stack window, without pointers.
\<close>
theorem init_prefetches:
  assumes "supported F d n" "slotCount \<le> n" "jit_ok (pf_gen F) (pf_version F) (pf_quantum F) s"
  shows "case jit_init (pf_arch F) (pf_gen F) (pf_version F) (pf_quantum F) (pf_mmap F) s of
      Inl e \<Rightarrow> \<not> mmap_serves (pf_mmap F) 128 (jmods s)
    | Inr (stubs, s') \<Rightarrow> length stubs = 128 \<and> distinct stubs \<and> ready (F\<lparr>pf_stubs := stubs\<rparr>) s' \<and>
        (\<forall>i<128. slotCode (pf_arch F) stubs i = Inr (stubs ! i) \<and>
           (\<exists>code tab. pf_gen F \<lparr>sh_index = i, argWords = 60, retWords = 0, argPtrs = 0, retPtrs = 0\<rparr> = Inr (code, tab) \<and>
              pages s' (stubs ! i) = Some code))"
proof -
  note i = init_supported [OF assms]
  have A: "hasTrampoline (pf_arch F)" "stackWindow (pf_arch F) = 480"
    using assms(1) by (auto simp: supported_def hasTrampoline_def)
  show ?thesis
  proof (cases "jit_init (pf_arch F) (pf_gen F) (pf_version F) (pf_quantum F) (pf_mmap F) s")
    case (Inl e)
    then show ?thesis using i by (simp add: slotCount_def del: mmap_serves.simps)
  next
    case (Inr r)
    then obtain stubs s' where r: "jit_init (pf_arch F) (pf_gen F) (pf_version F) (pf_quantum F) (pf_mmap F) s = Inr (stubs, s')"
      by (cases r) simp
    then have ok: "jit_ok (pf_gen F) (pf_version F) (pf_quantum F) s'" and st: "stubs_ok (pf_arch F) stubs slotCount s'"
      using i by simp_all
    have c: "jitBySh s' (generic_shape (pf_arch F) j) = Some (stubs ! j)" if "j < 128" for j
      using st that by (simp add: stubs_ok_def slotCount_def)
    have len: "length stubs = 128" using st by (simp add: stubs_ok_def slotCount_def)
    have "stubs ! a \<noteq> stubs ! b" if "a < 128" "b < 128" "a \<noteq> b" for a b
    proof
      assume "stubs ! a = stubs ! b"
      with c [OF that(1)] c [OF that(2)] have "generic_shape (pf_arch F) a = generic_shape (pf_arch F) b"
        using jit_ok_inj [OF ok] by simp
      then show False using that(3) by (simp add: generic_shape_def)
    qed
    then have "distinct stubs" by (simp add: distinct_conv_nth len)
    moreover have "\<exists>code tab. pf_gen F \<lparr>sh_index = j, argWords = 60, retWords = 0, argPtrs = 0, retPtrs = 0\<rparr> = Inr (code, tab) \<and>
              pages s' (stubs ! j) = Some code" if "j < 128" for j
    proof -
      have "cached_ok (pf_gen F) (pf_version F) (pf_quantum F) s' (generic_shape (pf_arch F) j) (stubs ! j)"
        using ok c [OF that] by (simp add: jit_ok_def)
      then show ?thesis using A by (auto simp: cached_ok_def generic_shape_def ptrSize_def)
    qed
    moreover have "ready (F\<lparr>pf_stubs := stubs\<rparr>) s'" using ok st by (simp add: ready_def)
    ultimately show ?thesis using r len A by (simp add: slotCode_def slotCount_def)
  qed
qed

lemma init_prefetches_witness:
  "case jit_init Amd64 (pf_gen (demo_platform Amd64 [])) Go121 pcQuantum_amd64 bump_mmap empty_jit of
     Inl e \<Rightarrow> False | Inr (stubs, s') \<Rightarrow> length stubs = 128 \<and> distinct stubs"
proof -
  have "mmap_serves bump_mmap 128 (jmods empty_jit)"
    by (rule bump_serves) (simp add: empty_jit_def)
  with init_prefetches [OF demo_supported [of Amd64 128 "[]"] _ empty_jit_ok]
  show ?thesis by (auto simp: demo_fields slotCount_def simp del: mmap_serves.simps split: sum.splits)
qed

section \<open>Accepted interfaces\<close>

text \<open>
  C12. \<open>NewOf\<close> builds a proxy for an interface type exactly when every method has a layout of at most 480
  bytes of stack area, and passes pointers there or is one of the first 128; it panics otherwise.
\<close>
theorem NewOf_accepts_iff:
  assumes "supported F d (length (gi_methods t))" "ready F s" "target_ok t tgt"
    and "mmap_serves (pf_mmap F) (length (gi_methods t)) (jmods s)"
  shows "(\<exists>P s'. NewOf F t tgt ixs s = Inr (P, s')) \<longleftrightarrow>
    gi_isInterface t \<and>
    (\<forall>k<length (gi_methods t). \<exists>l. newABILayout (pf_arch F) (snd (gi_methods t ! k)) = Inr l \<and>
       stackBytes l \<le> 480 \<and> (stackPtrOffs l \<noteq> [] \<or> retStackPtrOffs l \<noteq> [] \<or> k < 128))"
proof -
  have A: "hasTrampoline (pf_arch F)" "stackWindow (pf_arch F) = 480"
    using assms(1) by (auto simp: supported_def hasTrampoline_def)
  have fits: "method_fits (pf_arch F) ty k \<longleftrightarrow>
      (\<exists>l. newABILayout (pf_arch F) ty = Inr l \<and> stackBytes l \<le> 480 \<and>
         (stackPtrOffs l \<noteq> [] \<or> retStackPtrOffs l \<noteq> [] \<or> k < 128))" for ty k
    using A by (auto simp: method_fits_def layout_fits_def stackPointers_def slotCount_def split: sum.splits)
  show ?thesis
    using NewOf_supported [OF assms(1-3), of ixs] assms(4) unfolding fits [symmetric]
    by (cases "NewOf F t tgt ixs s") (auto simp del: mmap_serves.simps)
qed

definition big_arg :: "gotype list" where
  "big_arg = [TArray 100 TInt]"

lemma NewOf_accepts_iff_witness:
  "\<exists>stubs s. (\<exists>P s'. NewOf (demo_platform Arm64 stubs) demo_iface None [] s = Inr (P, s')) \<and>
     (\<nexists>P s'. NewOf (demo_platform Arm64 stubs) (demo_iface\<lparr>gi_methods := [(''Big'', TFunc big_arg [] False)]\<rparr>)
        None [] s = Inr (P, s'))"
proof -
  let ?big = "demo_iface\<lparr>gi_methods := [(''Big'', TFunc big_arg [] False)]\<rparr>"
  obtain stubs s P s' where b: "supported (demo_platform Arm64 stubs) 0x123456 (length (gi_methods demo_iface))"
    "ready (demo_platform Arm64 stubs) s" "mmap_serves bump_mmap 2 (jmods s)"
    "NewOf (demo_platform Arm64 stubs) demo_iface None [] s = Inr (P, s')"
    by (rule demo_built [of Arm64]) simp
  have sup: "supported (demo_platform Arm64 stubs) 0x123456 (length (gi_methods ?big))"
    by (rule demo_supported) simp_all
  have t: "target_ok ?big None" by (simp add: target_ok_def)
  have m: "mmap_serves (pf_mmap (demo_platform Arm64 stubs)) (length (gi_methods ?big)) (jmods s)"
    unfolding demo_fields by (rule mmap_serves_less [OF b(3)]) simp
  have big: "480 < stackBytes (layout_of Arm64 big_arg [])" by code_simp
  have l: "newABILayout Arm64 (snd (gi_methods ?big ! 0)) = Inr (layout_of Arm64 big_arg [])"
    using layout_of_eq by simp
  have "\<not> (\<forall>k<length (gi_methods ?big). \<exists>l. newABILayout Arm64 (snd (gi_methods ?big ! k)) = Inr l \<and>
       stackBytes l \<le> 480 \<and> (stackPtrOffs l \<noteq> [] \<or> retStackPtrOffs l \<noteq> [] \<or> k < 128))"
  proof
    assume a: "\<forall>k<length (gi_methods ?big). \<exists>l. newABILayout Arm64 (snd (gi_methods ?big ! k)) = Inr l \<and>
       stackBytes l \<le> 480 \<and> (stackPtrOffs l \<noteq> [] \<or> retStackPtrOffs l \<noteq> [] \<or> k < 128)"
    have "0 < length (gi_methods ?big)" by simp
    from a [rule_format, OF this] l big show False by auto
  qed
  then have "\<nexists>P s'. NewOf (demo_platform Arm64 stubs) ?big None [] s = Inr (P, s')"
    unfolding NewOf_accepts_iff [OF sup b(2) t m] demo_fields by blast
  with b(4) show ?thesis by blast
qed

section \<open>Sharing\<close>

text \<open>What \<open>newMethod\<close> asks of the trampoline generator, and that the generator remembers it.\<close>

definition has_trampoline :: "platform \<Rightarrow> goIface \<Rightarrow> nat \<Rightarrow> 64 word \<Rightarrow> jit \<Rightarrow> bool" where
  "has_trampoline F t k p s \<longleftrightarrow>
     (\<exists>l. newABILayout (pf_arch F) (snd (gi_methods t ! k)) = Inr l \<and>
       newTrampoline (pf_arch F) (pf_gen F) (pf_version F) (pf_quantum F) (pf_mmap F) (pf_stubs F) l k s = Inr (p, s))"

lemma jitTrampoline_grows: "jitTrampoline gen v q mm sh s = Inr (c, s') \<Longrightarrow> jitBySh s \<subseteq>\<^sub>m jitBySh s'"
  by (auto simp: jitTrampoline_def jitExecAlloc_def registerModule_def Let_def map_le_def res_bind_eq_Inr_iff
      split: option.splits if_splits)

lemma newTrampoline_grows: "newTrampoline A gen v q mm stubs l i s = Inr (p, s') \<Longrightarrow> jitBySh s \<subseteq>\<^sub>m jitBySh s'"
  by (auto simp: newTrampoline_def res_bind_eq_Inr_iff split: option.splits if_splits dest: jitTrampoline_grows)

lemma newTrampoline_again:
  assumes "newTrampoline A gen v q mm stubs l i s = Inr (p, s1)" "jitBySh s1 \<subseteq>\<^sub>m jitBySh s2"
  shows "newTrampoline A gen v q mm stubs l i s2 = Inr (p, s2)"
proof (cases "stackPointers l")
  case False
  then show ?thesis using assms(1) by (auto simp: newTrampoline_def res_bind_eq_Inr_iff split: if_splits)
next
  case True
  then obtain sh where sh: "hasTrampoline A" "stackBytes l \<le> stackWindow A" "shape l i = Inr sh"
    "jitTrampoline gen v q mm sh s = Inr (Some p, s1)"
    using assms(1) by (auto simp: newTrampoline_def res_bind_eq_Inr_iff split: option.splits if_splits)
  have "jitBySh s2 sh = Some p"
    using jitTrampoline_caches [OF sh(4)] assms(2) by (auto simp: map_le_def dom_def)
  then show ?thesis using True sh(1-3) by (simp add: newTrampoline_def jitTrampoline_def)
qed

lemma newMethod_trampoline:
  assumes "newMethod F t i tgt tTab s = Inr (m, s1)"
  shows "has_trampoline F t i (codePtr m) s1" "jitBySh s \<subseteq>\<^sub>m jitBySh s1"
proof -
  obtain name ty where ty: "gi_methods t ! i = (name, ty)" by (cases "gi_methods t ! i")
  then obtain l where l: "newABILayout (pf_arch F) ty = Inr l"
    using assms by (auto simp: newMethod_def res_bind_eq_Inr_iff)
  then obtain ins outs v where "ty = TFunc ins outs v" using newABILayout_func by blast
  with ty l assms have "newTrampoline (pf_arch F) (pf_gen F) (pf_version F) (pf_quantum F) (pf_mmap F) (pf_stubs F) l i s = Inr (codePtr m, s1)"
    by (auto simp: newMethod_def Let_def res_bind_eq_Inr_iff)
  moreover have "newABILayout (pf_arch F) (snd (gi_methods t ! i)) = Inr l" using ty l by simp
  ultimately show "has_trampoline F t i (codePtr m) s1" "jitBySh s \<subseteq>\<^sub>m jitBySh s1"
    using newTrampoline_again newTrampoline_grows unfolding has_trampoline_def by (metis map_le_refl)+
qed

lemma has_trampoline_mono: "has_trampoline F t k p s \<Longrightarrow> jitBySh s \<subseteq>\<^sub>m jitBySh s' \<Longrightarrow> has_trampoline F t k p s'"
  unfolding has_trampoline_def using newTrampoline_again by blast

lemma new_methods_trampolines:
  "new_methods F t tgt n s = Inr (ms, s') \<Longrightarrow>
     length ms = n \<and> jitBySh s \<subseteq>\<^sub>m jitBySh s' \<and> (\<forall>k<n. has_trampoline F t k (codePtr (ms ! k)) s')"
proof (induction n arbitrary: ms s')
  case 0
  then show ?case by (simp add: new_methods_def)
next
  case (Suc n)
  then obtain ms1 s1 m where "new_methods F t tgt n s = Inr (ms1, s1)" and ms: "ms = ms1 @ [m]" and
    m: "newMethod F t n tgt (case tgt of None \<Rightarrow> None | Some g \<Rightarrow> targetITab g) s1 = Inr (m, s')"
    by (auto simp: new_methods_def res_fold_snoc res_bind_eq_Inr_iff)
  with Suc.IH newMethod_trampoline [OF m] has_trampoline_mono map_le_trans show ?case
    by (fastforce simp: nth_append less_Suc_eq)
qed

lemma newMethod_again:
  assumes "has_trampoline F t k p s" "target_ok t tgt" "k < length (gi_methods t)"
  shows "\<exists>m. newMethod F t k tgt (case tgt of None \<Rightarrow> None | Some g \<Rightarrow> targetITab g) s = Inr (m, s) \<and> codePtr m = p"
proof -
  obtain name ty where ty: "gi_methods t ! k = (name, ty)" by (cases "gi_methods t ! k")
  obtain l where l: "newABILayout (pf_arch F) ty = Inr l"
    "newTrampoline (pf_arch F) (pf_gen F) (pf_version F) (pf_quantum F) (pf_mmap F) (pf_stubs F) l k s = Inr (p, s)"
    using assms(1) ty by (auto simp: has_trampoline_def)
  obtain ins outs v where f: "ty = TFunc ins outs v" using newABILayout_func [OF l(1)] by blast
  obtain tf td where tf: "(case (case tgt of None \<Rightarrow> None | Some g \<Rightarrow> targetITab g,
                           case tgt of None \<Rightarrow> None | Some g \<Rightarrow> tg_method g name) of
                 (Some (tab, data), Some _) \<Rightarrow>
                   res_bind (itabFun tab (length (gi_methods t)) k)
                     (\<lambda>a. Inr (if a = 0 then None else Some (pf_code F a), data))
               | _ \<Rightarrow> Inr (None, 0)) = Inr (tf, td)"
    using target_fun_ok [OF assms(2,3), of F "case tgt of None \<Rightarrow> None | Some g \<Rightarrow> tg_method g name"] by (elim exE)
  show ?thesis
    by (simp only: newMethod_def ty Let_def prod.case l(1) res_bind_Inr tf [unfolded prod.case])
      (simp add: l(2) f)
qed

lemma new_methods_again:
  assumes "\<forall>k<length (gi_methods t). has_trampoline F t k (ps ! k) s" "target_ok t tgt"
  shows "n \<le> length (gi_methods t) \<Longrightarrow>
    \<exists>ms. new_methods F t tgt n s = Inr (ms, s) \<and> length ms = n \<and> (\<forall>k<n. codePtr (ms ! k) = ps ! k)"
proof (induction n)
  case 0
  show ?case by (simp add: new_methods_def)
next
  case (Suc n)
  then obtain ms where ms: "new_methods F t tgt n s = Inr (ms, s)" "length ms = n" "\<forall>k<n. codePtr (ms ! k) = ps ! k"
    by auto
  have n: "n < length (gi_methods t)" using Suc.prems by simp
  obtain m where m: "newMethod F t n tgt (case tgt of None \<Rightarrow> None | Some g \<Rightarrow> targetITab g) s = Inr (m, s)"
    "codePtr m = ps ! n"
    using newMethod_again [OF assms(1) [rule_format, OF n] assms(2) n] by blast
  have "new_methods F t tgt (Suc n) s = Inr (ms @ [m], s)"
    using ms(1) m(1) by (simp add: new_methods_def res_fold_snoc)
  with ms m(2) show ?case by (auto simp: nth_append less_Suc_eq)
qed

lemma NewOf_InrD:
  assumes "NewOf F t tgt ixs s = Inr (P, s')"
  shows "gi_isInterface t" "new_methods F t tgt (length (gi_methods t)) s = Inr (px_methods P, s')"
    "forgeITab t (pf_proxyType F) (map codePtr (px_methods P)) = Inr (px_itab P)"
    "px_typ P = t" "px_target P = tgt" "px_chain P = ixs"
  using assms by (auto simp: NewOf_def interfaceTypeOf_def res_bind_eq_Inr_iff split: if_splits)

text \<open>
  C15. Proxies of one interface share everything: building a second proxy, for another target and other
  interceptors, generates no code, maps no memory and registers no module; it succeeds and its forged
  itab holds the same words, while its own target and chain are in the proxy value.
\<close>
theorem second_proxy_adds_nothing:
  assumes "NewOf F t tgt ixs s = Inr (P, s')" and "target_ok t tgt'"
  shows "\<exists>Q. NewOf F t tgt' ixs' s' = Inr (Q, s') \<and> px_itab Q = px_itab P \<and>
    map codePtr (px_methods Q) = map codePtr (px_methods P) \<and> px_target Q = tgt' \<and> px_chain Q = ixs'"
proof -
  note P = NewOf_InrD [OF assms(1)]
  have len: "length (px_methods P) = length (gi_methods t)"
    and tr: "\<forall>k<length (gi_methods t). has_trampoline F t k (codePtr (px_methods P ! k)) s'"
    using new_methods_trampolines [OF P(2)] by simp_all
  then have "\<forall>k<length (gi_methods t). has_trampoline F t k (map codePtr (px_methods P) ! k) s'" by simp
  from new_methods_again [OF this assms(2) order_refl] obtain ms where ms:
    "new_methods F t tgt' (length (gi_methods t)) s' = Inr (ms, s')" "length ms = length (gi_methods t)"
    "\<forall>k<length (gi_methods t). codePtr (ms ! k) = map codePtr (px_methods P) ! k" by blast
  have "map codePtr ms = map codePtr (px_methods P)"
    by (rule nth_equalityI) (use ms(2,3) len in simp_all)
  then show ?thesis using P(1,3) ms(1) by (simp add: NewOf_def interfaceTypeOf_def)
qed

lemma second_proxy_adds_nothing_witness:
  "\<exists>stubs s P s' Q. NewOf (demo_platform Arm64 stubs) demo_iface None [] s = Inr (P, s') \<and>
     NewOf (demo_platform Arm64 stubs) demo_iface None [Return (Some [])] s' = Inr (Q, s') \<and> px_itab Q = px_itab P \<and> px_chain Q = [Return (Some [])]"
proof -
  obtain stubs s P s' where b: "NewOf (demo_platform Arm64 stubs) demo_iface None [] s = Inr (P, s')"
    by (rule demo_built [of Arm64]) simp
  from second_proxy_adds_nothing [OF b demo_layout(3), of "[Return (Some [])]"] b show ?thesis by blast
qed

section \<open>The forged itab\<close>

text \<open>
  C13. The forged itab is the dispatch table the runtime expects: the descriptor of the interface, the
  descriptor of \<open>*Proxy\<close>, its hash in the low half of the third word, then, from the offset of \<open>Fun\<close>
  on, one code pointer per method in the order of the interface's methods; the pointers are pairwise
  distinct, and \<open>Dispatch\<close> finds the descriptor of method \<open>k\<close> at index \<open>k\<close>.
\<close>
theorem forged_itab:
  assumes "supported F d (length (gi_methods t))" "ready F s" "target_ok t tgt" "NewOf F t tgt ixs s = Inr (P, s')"
  shows "length (px_itab P) = 3 + length (gi_methods t) \<and> px_itab P ! 0 = gi_addr t \<and>
    px_itab P ! 1 = at_addr (pf_proxyType F) \<and> px_itab P ! 2 = ucast (at_hash (pf_proxyType F)) \<and>
    distinct (drop 3 (px_itab P)) \<and>
    (\<forall>k<length (gi_methods t). \<exists>m. method_at P k = Inr m \<and> pm_name m = fst (gi_methods t ! k) \<and> pm_index m = k \<and>
       itabFun (px_itab P) (length (gi_methods t)) k = Inr (codePtr m) \<and>
       newABILayout (pf_arch F) (snd (gi_methods t ! k)) = Inr (pm_layout (pm_method m)))"
proof -
  note built = NewOf_built [OF assms]
  have len: "length (px_methods P) = length (gi_methods t)" using built(1) by (simp add: proxy_ok_def)
  have l: "length (map codePtr (px_methods P)) = length (gi_methods t)" by (simp add: len)
  obtain tab where tab: "forgeITab t (pf_proxyType F) (map codePtr (px_methods P)) = Inr tab"
    "length tab = 3 + length (map codePtr (px_methods P))" "tab ! 0 = gi_addr t" "tab ! 1 = at_addr (pf_proxyType F)"
    "tab ! 2 = ucast (at_hash (pf_proxyType F))"
    "\<forall>k<length (map codePtr (px_methods P)). itabFun tab (length (map codePtr (px_methods P))) k = Inr (map codePtr (px_methods P) ! k)"
    by (rule forgeITab_words [OF l])
  have px: "px_itab P = tab" using tab(1) NewOf_InrD(3) [OF assms(4)] by simp
  have "drop 3 tab = map codePtr (px_methods P)"
  proof (rule nth_equalityI)
    fix i assume "i < length (drop 3 tab)"
    then have "i < length (px_methods P)" using tab(2) by simp
    with tab(6) have "itabFun tab (length (px_methods P)) i = Inr (codePtr (px_methods P ! i))" by simp
    then show "drop 3 tab ! i = map codePtr (px_methods P) ! i"
      using \<open>i < length (px_methods P)\<close> by (simp add: itabFun_def fun_offset tab(2))
  qed (simp add: tab(2))
  moreover have "distinct (map codePtr (px_methods P))"
    using built(1,2) proxy_codes_distinct by (auto simp: ready_def)
  moreover have "\<exists>m. method_at P k = Inr m \<and> pm_name m = fst (gi_methods t ! k) \<and> pm_index m = k \<and>
       itabFun tab (length (gi_methods t)) k = Inr (codePtr m) \<and>
       newABILayout (pf_arch F) (snd (gi_methods t ! k)) = Inr (pm_layout (pm_method m))"
    if "k < length (gi_methods t)" for k
    using built(1) that len px by (auto simp: proxy_ok_def method_ok_def method_at_def)
  ultimately show ?thesis using tab(2-5) len unfolding px by simp
qed

lemma forged_itab_witness:
  "\<exists>stubs s P s'. NewOf (demo_platform Arm64 stubs) demo_iface None [] s = Inr (P, s') \<and>
     length (px_itab P) = 5 \<and> px_itab P ! 0 = 0x4000 \<and> px_itab P ! 1 = 0x5000 \<and> px_itab P ! 2 = 0xabcd \<and>
     px_itab P ! 3 \<noteq> px_itab P ! 4"
proof -
  obtain stubs s P s' where b: "supported (demo_platform Arm64 stubs) 0x123456 (length (gi_methods demo_iface))"
    "ready (demo_platform Arm64 stubs) s" "NewOf (demo_platform Arm64 stubs) demo_iface None [] s = Inr (P, s')"
    by (rule demo_built [of Arm64]) simp
  from forged_itab [OF b(1,2) demo_layout(3) b(3)]
  have f: "length (px_itab P) = 5" "px_itab P ! 0 = 0x4000" "px_itab P ! 1 = 0x5000" "px_itab P ! 2 = 0xabcd"
    "distinct (drop 3 (px_itab P))"
    by (simp_all add: demo_layout(2) demo_fields demo_iface_def)
  from f(5) have "drop 3 (px_itab P) ! 0 \<noteq> drop 3 (px_itab P) ! 1"
    using f(1) by (subst nth_eq_iff_index_eq) simp_all
  then show ?thesis using f(1-4) b(3) by (auto simp: numeral_eq_Suc)
qed

end
