(* ===== verification/InvocationProps.thy ===== *)
theory InvocationProps
  imports Invocation LayoutProps
begin

text \<open>
  The properties of a call: the interceptor chain against its documented meaning, the transparent
  proxy, the two ways of reaching the target, the arguments and results in registers and stack.
\<close>

section \<open>The documented meaning of a chain\<close>

text \<open>
  Every \<open>Proceed\<close> of an interceptor runs the remaining chain and the target, as the documentation of
  \<open>Invocation.Proceed\<close> says.
\<close>

primrec ideal :: "goruntime \<Rightarrow> proxyMethod \<Rightarrow> ix list \<Rightarrow> callState \<Rightarrow> (rets \<times> callState) res" where
  "ideal R M [] s = callTarget R M s"
| "ideal R M (h # hs) s = run_ix R M (ideal R M hs) h s"

primrec no_next :: "ix \<Rightarrow> bool" where
  "no_next (Return r) = True"
| "no_next (TakeArgs k) = (\<forall>vs. no_next (k vs))"
| "no_next (ReadVal v k) = (\<forall>bs. no_next (k bs))"
| "no_next (PutArg i v p) = no_next p"
| "no_next (Next k) = False"
| "no_next (Crash e) = True"

text \<open>An interceptor that proceeds at most once, whatever it reads.\<close>

primrec once :: "ix \<Rightarrow> bool" where
  "once (Return r) = True"
| "once (TakeArgs k) = (\<forall>vs. once (k vs))"
| "once (ReadVal v k) = (\<forall>bs. once (k bs))"
| "once (PutArg i v p) = once p"
| "once (Next k) = (\<forall>r. no_next (k r))"
| "once (Crash e) = True"

definition clear :: "callState \<Rightarrow> callState" where
  "clear s = s\<lparr>nexti := 0\<rparr>"

definition clr :: "('a \<times> callState) res \<Rightarrow> ('a \<times> callState) res" where
  "clr x = (case x of Inl e \<Rightarrow> Inl e | Inr (r, s) \<Rightarrow> Inr (r, clear s))"

lemma clr_simps [simp]: "clr (Inl e) = Inl e" "clr (Inr (r, s)) = Inr (r, clear s)"
  by (simp_all add: clr_def)

lemma clear_fields [simp]:
  "live (clear s) = live s" "args (clear s) = args s" "hasSnap (clear s) = hasSnap s"
  "saved (clear s) = saved s" "direct (clear s) = direct s"
  "buf_mem (clear s) b = buf_mem s b" "val_bytes (clear s) v = val_bytes s v"
  "argRegs (clear s) = argRegs s" "clear (s\<lparr>nexti := k\<rparr>) = clear s"
  by (simp_all add: clear_def buf_mem_def val_bytes_def argRegs_def split: buf.split vmem.split)

lemma materializeArgs_clear [simp]: "materializeArgs R l ins (clear s) = materializeArgs R l ins s"
  by (simp add: materializeArgs_def)

lemma clr_Args: "clr (Args R l ins s) = Args R l ins (clear s)"
  using materializeArgs_clear [of R l ins s]
  by (cases "args s"; cases "materializeArgs R l ins s") (simp_all add: Args_def clear_def)

lemma SetArg_clear:
  "SetArg R l ins i v (clear s) = (case SetArg R l ins i v s of Inl e \<Rightarrow> Inl e | Inr s' \<Rightarrow> Inr (clear s'))"
  unfolding SetArg_def clr_Args [symmetric]
  by (cases "Args R l ins s") (auto simp: clear_def)

lemma clr_call_fn: "clr (call_fn R M f s) = call_fn R M f (clear s)"
  unfolding call_fn_def clr_Args [symmetric]
  by (cases "Args R (pm_layout M) (pm_ins M) s") (auto simp: res_bind_def split: sum.splits)

lemma fast_path_clear:
  "fast_path M code (clear s) = res_bind (fast_path M code s) (\<lambda>s'. Inr (clear s'))"
  by (cases "hasSnap s") (auto simp: fast_path_def clear_def Let_def mirror_ptr_def set_live_def res_bind_def
      split: sum.split)

lemma clr_fast_path:
  "clr (res_bind (fast_path M code s) (\<lambda>s'. Inr (r, s'))) = res_bind (fast_path M code (clear s)) (\<lambda>s'. Inr (r, s'))"
  by (cases "fast_path M code s") (simp_all add: fast_path_clear)

lemma clr_callTarget: "clr (callTarget R M s) = callTarget R M (clear s)"
  by (simp add: callTarget_def clr_call_fn clr_fast_path split: option.split)

lemma no_next_run: "no_next p \<Longrightarrow> clr (run_ix R M h p s) = run_ix R M g p (clear s)"
proof (induction p arbitrary: s)
  case (TakeArgs k)
  then show ?case by (auto simp flip: clr_Args split: sum.splits)
next
  case (PutArg i v p)
  then show ?case by (auto simp: SetArg_clear split: sum.splits)
qed auto

lemma once_run:
  assumes h: "\<And>s. nexti s = j \<Longrightarrow> clr (h s) = g (clear s)"
  shows "once p \<Longrightarrow> nexti s = j \<Longrightarrow> clr (run_ix R M h p s) = run_ix R M g p (clear s)"
proof (induction p arbitrary: s)
  case (TakeArgs k)
  show ?case
  proof (cases "Args R (pm_layout M) (pm_ins M) s")
    case (Inl e)
    with clr_Args [of R "pm_layout M" "pm_ins M" s, symmetric] show ?thesis by simp
  next
    case (Inr r)
    then obtain vs s1 where a: "Args R (pm_layout M) (pm_ins M) s = Inr (vs, s1)" by (cases r) auto
    with nexti_Args TakeArgs.prems have "nexti s1 = j" by fastforce
    moreover from a have "Args R (pm_layout M) (pm_ins M) (clear s) = Inr (vs, clear s1)"
      by (simp flip: clr_Args)
    ultimately show ?thesis using TakeArgs a by simp
  qed
next
  case (PutArg i v p)
  show ?case
  proof (cases "SetArg R (pm_layout M) (pm_ins M) i v s")
    case (Inr s1)
    with nexti_SetArg PutArg.prems have "nexti s1 = j" by fastforce
    with PutArg Inr show ?thesis by (auto simp: SetArg_clear)
  qed (simp add: SetArg_clear)
next
  case (Next k)
  show ?case
  proof (cases "h s")
    case (Inl e)
    with h [OF Next.prems(2)] show ?thesis by (metis clr_simps(1) old.sum.simps(5) run_ix.simps(5))
  next
    case (Inr r)
    obtain r1 s1 where r: "r = (r1, s1)" by (cases r)
    with Inr h [OF Next.prems(2)] have "g (clear s) = Inr (r1, clear s1)" by simp
    moreover have "no_next (k r1)" using Next.prems(1) by simp
    ultimately show ?thesis using Inr r no_next_run [of "k r1" R M h s1 g] by simp
  qed
qed auto

lemma Proceed_ideal:
  "\<forall>p\<in>set chain. once p \<Longrightarrow> clr (Proceed R M chain s) = ideal R M (drop (nexti s) chain) (clear s)"
proof (induction "length chain - nexti s" arbitrary: s)
  case 0
  then show ?case by (simp add: Proceed_unfold clr_callTarget)
next
  case (Suc n)
  then have lt: "nexti s < length chain" by simp
  let ?s = "s\<lparr>nexti := nexti s + 1\<rparr>"
  have "clr (run_ix R M (Proceed R M chain) (chain ! nexti s) ?s) =
      run_ix R M (ideal R M (drop (nexti s + 1) chain)) (chain ! nexti s) (clear ?s)"
  proof (rule once_run [where j = "nexti s + 1"])
    fix t assume "nexti (t :: callState) = nexti s + 1"
    with Suc show "clr (Proceed R M chain t) = ideal R M (drop (nexti s + 1) chain) (clear t)"
      by (metis Suc.hyps(1) Suc_eq_plus1 diff_Suc_1 diff_Suc_eq_diff_pred diff_commute)
  qed (use Suc.prems lt in auto)
  with lt show ?case
    by (simp add: Proceed_unfold [of R M chain s] Cons_nth_drop_Suc [symmetric])
qed

section \<open>Pass-through chains and the fast path\<close>

definition pass :: ix where
  "pass = Next Return"

lemma once_pass [simp]: "once pass"
  by (simp add: pass_def)

lemma run_pass [simp]: "run_ix R M h pass s = h s"
  by (auto simp: pass_def split: sum.splits)

lemma ideal_pass: "\<forall>p\<in>set chain. p = pass \<Longrightarrow> ideal R M chain s = callTarget R M s"
  by (induction chain arbitrary: s) simp_all

lemma clr_eq_InrD: "clr x = Inr (r, s) \<Longrightarrow> \<exists>s'. x = Inr (r, s') \<and> clear s' = s"
  by (auto simp: clr_def split: sum.splits)

lemma Proceed_InrD:
  assumes "\<forall>p\<in>set chain. once p" "nexti s = 0" "ideal R M chain s = Inr (r, s1)"
  shows "\<exists>s'. Proceed R M chain s = Inr (r, s') \<and> clear s' = s1"
proof -
  have "clear s = s" using assms(2) by (simp add: clear_def)
  with Proceed_ideal [OF assms(1), of R M s] assms(2,3) have "clr (Proceed R M chain s) = Inr (r, s1)"
    by simp
  then show ?thesis by (rule clr_eq_InrD)
qed

text \<open>The registers the fast path replays: those of the call with the receiver rebound.\<close>

definition replayed :: "proxyMethod \<Rightarrow> mem \<Rightarrow> mem" where
  "replayed M m = wr (AInts, 0) (le_bytes 8 (targetData M)) m"

lemma fast_path_cases:
  "fast_path M code s = (case redial code (replayed M (buf_mem s (argRegs s))) of
     Inl e \<Rightarrow> Inl e
   | Inr m \<Rightarrow> Inr (s\<lparr>live := m, direct := True, hasSnap := True,
       ptrs_mirror := (ptrs_mirror s)(0 := targetData M),
       saved := if hasSnap s then saved s else live s\<rparr>))"
  by (auto simp: fast_path_def Let_def mirror_ptr_def set_live_def buf_mem_def argRegs_def copy_regs_def
      redial_def replayed_def res_bind_def split: sum.split)

lemma redial_stack: "redial code m = Inr m' \<Longrightarrow> m' AStack = m AStack"
  by (auto simp: redial_def res_bind_eq_Inr_iff)

lemma fast_path_InrD:
  assumes "fast_path M code s = Inr s'"
  shows "direct s'" "hasSnap s'" "args s' = args s" "nexti s' = nexti s"
    and "redial code (replayed M (buf_mem s (argRegs s))) = Inr (live s')"
    and "buf_mem s' (argRegs s') = buf_mem s (argRegs s)"
proof -
  from assms obtain m where m: "redial code (replayed M (buf_mem s (argRegs s))) = Inr m"
    and s': "s' = s\<lparr>live := m, direct := True, hasSnap := True,
       ptrs_mirror := (ptrs_mirror s)(0 := targetData M), saved := if hasSnap s then saved s else live s\<rparr>"
    by (auto simp: fast_path_cases split: sum.splits)
  show "direct s'" "hasSnap s'" "args s' = args s" "nexti s' = nexti s" by (simp_all add: s')
  show "redial code (replayed M (buf_mem s (argRegs s))) = Inr (live s')" using m by (simp add: s')
  have "m AStack = live s AStack"
    using redial_stack [OF m] by (auto simp: replayed_def wr_def buf_mem_def split: buf.split)
  then show "buf_mem s' (argRegs s') = buf_mem s (argRegs s)"
    by (auto simp: s' buf_mem_def argRegs_def fun_eq_iff)
qed

lemma redial_replayed_stack:
  "redial code (replayed M (m(AStack := x))) =
     res_bind (redial code (replayed M m)) (\<lambda>m'. Inr (m'(AStack := x)))"
  by (auto simp: redial_def replayed_def wr_def fun_upd_twist res_bind_def cong: if_cong split: sum.split)

section \<open>A concrete runtime\<close>

text \<open>
  The values used by the concrete instances: itabs and type words are small numbers, and a float32
  widens by four zero bytes.
\<close>

definition demo_rt :: goruntime where
  "demo_rt = \<lparr>rt_empty = (\<lambda>n. n = ''any''), rt_word1 = (\<lambda>w. w - 100),
     rt_is_type = (\<lambda>w. 0 < w \<and> w < 2 ^ 63), rt_itab = (\<lambda>n w. w + 100),
     rt_type = (\<lambda>t. 7), rt_data = (\<lambda>t bs. word_of bs), rt_code = (\<lambda>w. w + 1), rt_assignable = (=),
     rt_widen = (\<lambda>bs. bs @ [0, 0, 0, 0]), rt_narrow = take 4\<rparr>"

definition demo_method :: "gotype list \<Rightarrow> gotype list \<Rightarrow> proxyMethod" where
  "demo_method ins outs =
     \<lparr>pm_ins = ins, pm_outs = outs, pm_layout = layout_of Amd64 ins outs, targetFn = None,
      targetFun = None, targetData = 0\<rparr>"

definition demo_state :: callState where
  "demo_state =
     \<lparr>live = (\<lambda>_ _. 0), ptrs_mirror = (\<lambda>_. 0), stackPtrs_mirror = (\<lambda>_. 0), saved = (\<lambda>_ _. 0),
      hasSnap = False, direct = False, args = None, nexti = 0\<rparr>"

section \<open>Properties of the chain\<close>

text \<open>
  C11. \<open>Proceed\<close> always comes back when the interceptors do: the nesting of calls is bounded by what is
  left of the chain, any fuel above it gives the same result, and that result satisfies the recursive
  equation of the source.
\<close>
theorem Proceed_terminates:
  assumes "length chain - nexti s < n"
  shows "proceed_fuel n R M chain s = Proceed R M chain s \<and>
         Proceed R M chain s =
           (if nexti s < length chain
            then run_ix R M (Proceed R M chain) (chain ! nexti s) (s\<lparr>nexti := nexti s + 1\<rparr>)
            else callTarget R M s)"
  using proceed_fuel_enough [OF assms, of "length chain - nexti s + 1" R M] Proceed_unfold [of R M chain s]
  by (simp add: Proceed_def)

theorem Proceed_terminates_witness:
  "proceed_fuel 3 demo_rt (demo_method [] []) [pass, pass] demo_state =
     Proceed demo_rt (demo_method [] []) [pass, pass] demo_state"
  using Proceed_terminates [of "[pass, pass]" demo_state 3 demo_rt "demo_method [] []"]
  by (simp add: demo_state_def)

text \<open>
  C6. A chain whose interceptors each proceed at most once does what the documentation of
  \<open>Invocation.Proceed\<close> says: the first interceptor runs around the rest of the chain, and so on down
  to the target; results, registers, arguments and panics are those of the nested calls.
\<close>
theorem chain_runs_as_documented:
  assumes "\<forall>p\<in>set chain. once p" and "nexti s = 0"
  shows "clr (Proceed R M chain s) = ideal R M chain s"
proof -
  have "clear s = s" using assms(2) by (simp add: clear_def)
  with Proceed_ideal [OF assms(1), of R M s] assms(2) show ?thesis by simp
qed

theorem chain_runs_as_documented_witness:
  "clr (Proceed demo_rt (demo_method [] [TInt]) [TakeArgs (\<lambda>_. pass), Return None] demo_state) =
     Inr (None, demo_state\<lparr>args := Some []\<rparr>)"
proof -
  let ?c = "[TakeArgs (\<lambda>_. pass), Return None]"
  have "ideal demo_rt (demo_method [] [TInt]) ?c demo_state = Inr (None, demo_state\<lparr>args := Some []\<rparr>)"
    by (simp add: Args_def materializeArgs_def demo_state_def demo_method_def)
  with chain_runs_as_documented [of ?c demo_state demo_rt "demo_method [] [TInt]"]
  show ?thesis by (simp add: demo_state_def)
qed

text \<open>
  A second \<open>Proceed\<close> does not re-execute the remaining chain, against its documentation: \<open>next\<close>
  has reached the end, so it calls the target. With an interceptor that retries before one that
  replaces the results, a mock's caller gets the target's zero values, not the replacement.
\<close>
theorem second_Proceed_skips:
  assumes "targetFun M = None" and "targetFn M = None" and "nexti s = 0"
  shows "Proceed R M [Next (\<lambda>_. Next Return), Next (\<lambda>_. Return r)] s =
           Inr (zeros M, s\<lparr>nexti := 2\<rparr>) \<and>
         ideal R M [Next (\<lambda>_. Next Return), Next (\<lambda>_. Return r)] s = Inr (r, s)"
  using assms by (simp add: Proceed_unfold callTarget_def)

theorem second_Proceed_skips_witness:
  "Proceed demo_rt (demo_method [] []) [Next (\<lambda>_. Next Return), Next (\<lambda>_. Return (Some []))] demo_state =
     Inr (None, demo_state\<lparr>nexti := 2\<rparr>)"
  using second_Proceed_skips [of "demo_method [] []" demo_state demo_rt "Some []"]
  by (simp add: demo_method_def demo_state_def zeros_def)

section \<open>Storing results does not look at the chain\<close>

lemma clear_ops [simp]:
  "set_live f (clear s) = clear (set_live f s)" "mirror_ptr i x (clear s) = clear (mirror_ptr i x s)"
  "mirror_stack i x (clear s) = clear (mirror_stack i x s)" "(clear s)\<lparr>live := m\<rparr> = clear (s\<lparr>live := m\<rparr>)"
  by (simp_all add: clear_def set_live_def mirror_ptr_def mirror_stack_def)

lemma mirrorStackPtrs_clear [simp]: "mirrorStackPtrs off t (clear s) = clear (mirrorStackPtrs off t s)"
proof -
  have "fold (\<lambda>o' s. mirror_stack ((off + o') div ptrSize) (word_of (rd (live s) (AStack, off + o') 8)) s) os (clear s) =
      clear (fold (\<lambda>o' s. mirror_stack ((off + o') div ptrSize) (word_of (rd (live s) (AStack, off + o') 8)) s) os s)" for os
    by (induction os arbitrary: s) simp_all
  then show ?thesis by (simp add: mirrorStackPtrs_def)
qed

lemma mirrorStepPtr_clear [simp]: "mirrorStepPtr st (clear s) = clear (mirrorStepPtr st s)"
  by (simp add: mirrorStepPtr_def Let_def split: stepKind.split)

lemma copy_steps_clear [simp]: "fold (copy_step bs) steps (clear s) = clear (fold (copy_step bs) steps s)"
  by (induction steps arbitrary: s) (simp_all add: copy_step_def Let_def)

abbreviation keep_clear :: "callState res \<Rightarrow> callState res" where
  "keep_clear x \<equiv> res_bind x (\<lambda>s. Inr (clear s))"

lemma write_at_clear: "write_at st x (clear s) = keep_clear (write_at st x s)"
  by (auto simp: write_at_def res_bind_def split: sum.split)

lemma res_fold_clear:
  "(\<And>x s. f x (clear s) = keep_clear (f x s)) \<Longrightarrow> res_fold f xs (clear s) = keep_clear (res_fold f xs s)"
  by (induction xs arbitrary: s) (auto simp: res_bind_def split: sum.split)

lemma write_words_clear: "write_words bs steps (clear s) = keep_clear (write_words bs steps s)"
  unfolding write_words_def by (rule res_fold_clear) (rule write_at_clear)

lemma scatter_one_clear: "scatter_one R vt t bs st (clear s) = keep_clear (scatter_one R vt t bs st s)"
  by (auto simp: scatter_one_def write_at_clear res_bind_def split: stepKind.split sum.split)

lemma scatterValue_clear: "scatterValue R v t steps (clear s) = keep_clear (scatterValue R v t steps s)"
proof (cases "\<exists>n. t = TInterface n")
  case True
  then show ?thesis by (auto simp: scatterValue_def scatterIface_def Let_def split: prod.split)
next
  case False
  then show ?thesis
    by (cases t) (auto simp: scatterValue_def scatter_one_clear write_words_clear Let_def res_bind_def
        split: sum.split prod.split)
qed

lemma storeResults_clear: "storeResults R l outs rets (clear s) = keep_clear (storeResults R l outs rets s)"
proof -
  have "res_bind (stepsForValue (l_ret l) i) (\<lambda>steps. scatterValue R v (outs ! i) steps (clear s)) =
      keep_clear (res_bind (stepsForValue (l_ret l) i) (\<lambda>steps. scatterValue R v (outs ! i) steps s))" for i v s
    by (auto simp: scatterValue_clear res_bind_def split: sum.split)
  then show ?thesis
    by (simp add: storeResults_def) (auto intro: res_fold_clear)
qed

text \<open>\<open>Dispatch\<close> depends on what \<open>Proceed\<close> gives up to the position in the chain.\<close>

definition deliver :: "goruntime \<Rightarrow> proxyMethod \<Rightarrow> mem \<Rightarrow> rets \<times> callState \<Rightarrow> mem res" where
  "deliver R M m = (\<lambda>(rets, s).
     res_bind (storeResults R (pm_layout M) (pm_outs M) rets s) (\<lambda>s'.
       let l = pm_layout M in
       Inr ((live s')(AStack := (\<lambda>x. if retOffset l \<le> x \<and> x < stackBytes l then live s' AStack x
                                     else m AStack x)))))"

lemma Dispatch_deliver: "Dispatch R M chain pooled m = res_bind (Proceed R M chain (entry_state M pooled m)) (deliver R M m)"
  by (simp add: Dispatch_def deliver_def)

lemma deliver_clear: "deliver R M m (r, clear s) = deliver R M m (r, s)"
  by (auto simp: deliver_def storeResults_clear res_bind_def Let_def split: sum.split cong: if_cong)

lemma deliver_clr: "res_bind (clr x) (deliver R M m) = res_bind x (deliver R M m)"
  by (cases x) (auto simp: deliver_clear)

lemma Dispatch_clr:
  assumes "clr (Proceed R M chain (entry_state M pooled m)) = clr (Proceed R M chain' (entry_state M pooled m))"
  shows "Dispatch R M chain pooled m = Dispatch R M chain' pooled m"
  unfolding Dispatch_deliver using assms by (metis deliver_clr)

lemma Dispatch_ideal:
  assumes "\<forall>p\<in>set chain. once p"
  shows "Dispatch R M chain pooled m = res_bind (ideal R M chain (entry_state M pooled m)) (deliver R M m)"
proof -
  have "clr (Proceed R M chain (entry_state M pooled m)) = ideal R M chain (entry_state M pooled m)"
    using Proceed_ideal [OF assms, of R M "entry_state M pooled m"] by (simp add: entry_state_def clear_def)
  then show ?thesis unfolding Dispatch_deliver by (metis deliver_clr)
qed

section \<open>Properties of the fast path\<close>

text \<open>
  A call that took the register path for a method without stack words is the target's code on the
  caller's registers, receiver rebound, its panics included.
\<close>

lemma Dispatch_fast:
  assumes P: "clr (Proceed R M chain (entry_state M pooled m)) =
      res_bind (fast_path M code (entry_state M pooled m)) (\<lambda>s'. Inr (None, clear s'))"
    and sb: "stackBytes (pm_layout M) = 0"
  shows "Dispatch R M chain pooled m = redial code (replayed M m)"
proof -
  let ?s = "entry_state M pooled m"
  have buf: "buf_mem ?s (argRegs ?s) = m(AStack := live ?s AStack)"
    by (simp add: entry_state_def argRegs_def buf_mem_def)
  show ?thesis
  proof (cases "redial code (replayed M m)")
    case (Inl e)
    then have "fast_path M code ?s = Inl e" by (simp add: fast_path_cases buf redial_replayed_stack)
    with P have "Proceed R M chain ?s = Inl e" by (auto simp: clr_def split: sum.splits)
    with Inl show ?thesis by (simp add: Dispatch_def)
  next
    case (Inr m')
    then obtain s' where s': "fast_path M code ?s = Inr s'" "direct s'" "live s' = m'(AStack := live ?s AStack)"
      by (simp add: fast_path_cases buf redial_replayed_stack)
    with P obtain u where u: "Proceed R M chain ?s = Inr (None, u)" "clear u = clear s'"
      by (auto dest: clr_eq_InrD)
    then have "direct u" "live u = live s'" by (metis clear_fields(5) s'(2), metis clear_fields(1))
    moreover have "m' AStack = m AStack" using redial_stack [OF Inr] by (simp add: replayed_def wr_def)
    ultimately show ?thesis
      using u(1) s'(3) sb Inr by (auto simp: Dispatch_def storeResults_def Let_def fun_eq_iff)
  qed
qed

lemma pass_chain_clr:
  assumes "\<forall>p\<in>set chain. p = pass" and "nexti s = 0"
  shows "clr (Proceed R M chain s) = callTarget R M s"
proof -
  have "clear s = s" using assms(2) by (simp add: clear_def)
  moreover have "\<forall>p\<in>set chain. once p" using assms(1) by (metis once_pass)
  ultimately show ?thesis using Proceed_ideal [of chain R M s] assms by (simp add: ideal_pass)
qed

lemma transparent_chain:
  assumes "\<forall>p\<in>set chain. p = pass"
  shows "Dispatch R M chain pooled m = Dispatch R M [] pooled m"
    and "targetFun M = Some code \<Longrightarrow> stackBytes (pm_layout M) = 0 \<Longrightarrow>
         Dispatch R M chain pooled m = redial code (replayed M m)"
proof -
  let ?s = "entry_state M pooled m"
  have s: "nexti ?s = 0" "clear ?s = ?s" by (simp_all add: entry_state_def clear_def)
  show "Dispatch R M chain pooled m = Dispatch R M [] pooled m"
    by (rule Dispatch_clr) (simp add: pass_chain_clr [OF assms s(1)] pass_chain_clr [of "[]"] s(1))
  assume M: "targetFun M = Some code" "stackBytes (pm_layout M) = 0"
  have "callTarget R M ?s = res_bind (fast_path M code ?s) (\<lambda>s'. Inr (None, s'))"
    using M by (simp add: callTarget_def entry_state_def)
  moreover have "fast_path M code ?s = keep_clear (fast_path M code ?s)"
    using fast_path_clear [of M code ?s] s(2) by simp
  ultimately show "Dispatch R M chain pooled m = redial code (replayed M m)"
    using pass_chain_clr [OF assms s(1), of R M] M(2)
    by (intro Dispatch_fast) (cases "fast_path M code ?s"; simp)+
qed

text \<open>
  C9. A proxy whose interceptors only pass the call on is transparent: whatever the pooled buffer
  held, every call of every method goes as if there were no interceptor at all; and for a method
  without stack words whose target implements the interface it is the target's own code on the
  caller's registers with the receiver rebound, its results and its panics included. (A method with
  words on the stack, and a target that has only the method, are called through \<open>reflect\<close>: C5, C7 and
  C8 say when that delivers the same.)
\<close>
theorem transparent_proxy:
  assumes "\<forall>p\<in>set chain. p = pass"
  shows "Dispatch R M chain pooled m = Dispatch R M [] pooled m \<and>
    (targetFun M = Some code \<and> stackBytes (pm_layout M) = 0 \<longrightarrow>
       Dispatch R M chain pooled m = redial code (wr (AInts, 0) (le_bytes 8 (targetData M)) m))"
  using transparent_chain [OF assms] by (auto simp: replayed_def)

definition echo_code :: "mem \<Rightarrow> mem res" where
  "echo_code m = Inr (wr (AInts, 0) (rd m (AInts, 8) 8) m)"

lemma demo_stackBytes: "stackBytes (layout_of Amd64 [TPointer TInt] [TPointer TInt]) = 0"
  by code_simp

definition echo_method :: proxyMethod where
  "echo_method = (demo_method [TPointer TInt] [TPointer TInt])
     \<lparr>targetFun := Some echo_code, targetFn := Some Inr, targetData := 5\<rparr>"

theorem transparent_proxy_witness:
  "Dispatch demo_rt echo_method [pass, pass] demo_state (\<lambda>_ _. 1) =
     redial echo_code (wr (AInts, 0) (le_bytes 8 5) (\<lambda>_ _. 1))"
  using transparent_proxy [of "[pass, pass]" demo_rt echo_method demo_state "\<lambda>_ _. 1" echo_code, THEN conjunct2]
  by (simp add: echo_method_def demo_method_def demo_stackBytes)

text \<open>
  Although the target's results land in the argument registers, the fast path loses nothing: the
  registers arguments are read from afterwards are those of the call, and taking it again gives the
  same result registers as the first time.
\<close>
theorem fast_path_keeps_arguments:
  assumes "fast_path M code s = Inr s'"
  shows "buf_mem s' (argRegs s') = buf_mem s (argRegs s) \<and>
         (\<exists>s''. fast_path M code s' = Inr s'' \<and> live s'' = live s')"
  using fast_path_InrD(5,6) [OF assms] by (simp add: fast_path_cases [of M code s'])

end
