(* ===== verification/CallProps.thy ===== *)
theory CallProps
  imports InvocationProps
begin

text \<open>
  Arguments and results of a call in registers and stack: what interceptors and the target see of
  the arguments, where the results land, and that the register fast path and the reflect path of
  \<open>callTarget\<close> deliver the same results.
\<close>

section \<open>Arguments\<close>

text \<open>The bytes of a value that its registers or slots hold.\<close>

definition arg_sees :: "mem \<Rightarrow> gotype \<Rightarrow> step list \<Rightarrow> byte list \<Rightarrow> bool" where
  "arg_sees m t steps bs \<longleftrightarrow>
     length bs = size_of t \<and> (\<forall>st\<in>set steps. step_part bs st = rd m (stepAddr st) (step_size st))"

definition iface_data :: "mem \<Rightarrow> step list \<Rightarrow> byte list" where
  "iface_data m steps =
     (if length steps = 1 then rd m (fst (stepAddr (steps ! 0)), snd (stepAddr (steps ! 0)) + 8) 8
      else rd m (stepAddr (steps ! 1)) 8)"

text \<open>
  The two words of an interface value as Go lays them out: a nil value is two zero words; a value of an
  interface with methods starts with the itab of the interface and its dynamic type; a value of an
  empty interface starts with the type descriptor itself, whose second word, \<open>PtrBytes\<close>, is a size and
  no descriptor.
\<close>

definition itab_word :: "goruntime \<Rightarrow> string \<Rightarrow> 64 word \<Rightarrow> byte list \<Rightarrow> bool" where
  "itab_word R n w d \<longleftrightarrow>
     (if w = 0 then d = replicate 8 0
      else if rt_empty R n then rt_is_type R w \<and> \<not> rt_is_type R (rt_word1 R w)
      else rt_word1 R w \<noteq> 0 \<and> rt_is_type R (rt_word1 R w) \<and> rt_itab R n (rt_word1 R w) = w)"

definition itab_ok :: "goruntime \<Rightarrow> mem \<Rightarrow> gotype \<Rightarrow> step list \<Rightarrow> bool" where
  "itab_ok R m t steps \<longleftrightarrow>
     (\<forall>n. t = TInterface n \<longrightarrow> itab_word R n (word_of (rd m (stepAddr (steps ! 0)) 8)) (iface_data m steps))"

text \<open>An argument of an empty interface type that is not nil.\<close>

definition nonnil_any :: "goruntime \<Rightarrow> mem \<Rightarrow> gotype \<Rightarrow> step list \<Rightarrow> bool" where
  "nonnil_any R m t steps \<longleftrightarrow>
     (\<exists>n. t = TInterface n \<and> rt_empty R n \<and> word_of (rd m (stepAddr (steps ! 0)) 8) \<noteq> 0)"

lemma rd_append: "rd m (a, p) (i + j) = rd m (a, p) i @ rd m (a, p + i) j"
  by (auto simp: rd_def add.assoc nth_append intro!: nth_equalityI)

lemma iface_steps_cases:
  assumes "value_steps (TInterface n) steps"
  obtains (stk) st where "steps = [st]" "is_stack st" "step_offset st = 0" "step_size st = 16"
  | (regs) x y where "steps = [x, y]" "step_offset x = 0" "step_size x = 8" "step_offset y = 8" "step_size y = 8"
  using assms by (auto simp: value_steps_def map_eq_Cons_conv piece_of_def)

lemma word_of_zero: "length bs = 8 \<Longrightarrow> word_of bs = 0 \<Longrightarrow> bs = replicate 8 0"
proof -
  assume "length bs = 8" "word_of bs = 0"
  then have "bs = le_bytes 8 0" using le_bytes_word_of [of bs 8] by simp
  then show ?thesis by (simp add: le_bytes_def map_replicate_const)
qed

text \<open>An interface value read back is the two words of its registers or its slot.\<close>

lemma materializeIface_words:
  assumes ok: "itab_ok R m (TInterface n) steps" and "\<not> nonnil_any R m (TInterface n) steps"
  shows "materializeIface R n steps m =
    Inr \<lparr>rv_type = TInterface n, rv_mem = Own (rd m (stepAddr (steps ! 0)) 8 @ iface_data m steps)\<rparr>"
proof -
  let ?a = "rd m (stepAddr (steps ! 0)) 8"
  show ?thesis
  proof (cases "word_of ?a = 0")
    case True
    with word_of_zero [of ?a] have "?a = replicate 8 0" by simp
    with True ok show ?thesis
      by (simp add: materializeIface_def zero_val_def itab_ok_def itab_word_def replicate_add [symmetric])
  next
    case False
    with assms le_bytes_word_of [of ?a 8] show ?thesis
      by (simp add: materializeIface_def itab_ok_def itab_word_def nonnil_any_def iface_word_def iface_data_def
          ptrSize_def Let_def)
  qed
qed

text \<open>Except for an empty interface: then the second word of the type descriptor is taken for the type.\<close>

lemma materializeIface_any:
  "itab_ok R m (TInterface n) steps \<Longrightarrow> nonnil_any R m (TInterface n) steps \<Longrightarrow>
   \<exists>e. materializeIface R n steps m = Inl e"
  by (auto simp: materializeIface_def itab_ok_def itab_word_def nonnil_any_def Let_def)

lemma length_iface_data [simp]: "length (iface_data m steps) = 8"
  by (simp add: iface_data_def)

lemma iface_words_seen:
  assumes "value_steps (TInterface n) steps"
  shows "arg_sees m (TInterface n) steps (rd m (stepAddr (steps ! 0)) 8 @ iface_data m steps)"
  using assms
proof (cases rule: iface_steps_cases)
  case (stk st)
  with rd_append [of m "fst (stepAddr st)" "snd (stepAddr st)" 8 8]
  show "arg_sees m (TInterface n) steps (rd m (stepAddr (steps ! 0)) 8 @ iface_data m steps)"
    by (simp add: arg_sees_def step_part_def iface_data_def)
next
  case (regs x y)
  then show "arg_sees m (TInterface n) steps (rd m (stepAddr (steps ! 0)) 8 @ iface_data m steps)"
    by (simp add: arg_sees_def step_part_def iface_data_def)
qed

lemma materializeArg_sees:
  assumes st: "value_steps t steps" and ok: "itab_ok R (buf_mem s b) t steps"
    and any: "\<not> nonnil_any R (buf_mem s b) t steps"
  shows "materializeArg R b (buf_mem s b) t steps = Inr (arg_value R b (buf_mem s b) t steps)"
    and "arg_sees (buf_mem s b) t steps (val_bytes s (arg_value R b (buf_mem s b) t steps))"
proof -
  have "materializeArg R b (buf_mem s b) t steps = Inr (arg_value R b (buf_mem s b) t steps) \<and>
        arg_sees (buf_mem s b) t steps (val_bytes s (arg_value R b (buf_mem s b) t steps))"
  proof (cases "\<exists>n. t = TInterface n")
    case True
    then obtain n where t: "t = TInterface n" by auto
    with materializeIface_words ok any iface_words_seen [of n steps "buf_mem s b"] st show ?thesis
      by (simp add: materializeArg_def arg_value_def val_bytes_def)
  next
    case False
    then have ok: "materializeArg R b (buf_mem s b) t steps = Inr (arg_value R b (buf_mem s b) t steps)"
      by (simp add: materializeArg_value)
    show ?thesis
    proof (cases "size_of t = 0")
      case True
      with st ok show ?thesis
        by (simp add: value_steps_def materializeArg_def arg_value_def zero_val_def val_bytes_def arg_sees_def)
    next
      case sz: False
      with materializeArg_parts [OF st sz, of s R b] False ok show ?thesis by (simp add: Let_def arg_sees_def)
    qed
  qed
  then show "materializeArg R b (buf_mem s b) t steps = Inr (arg_value R b (buf_mem s b) t steps)"
    and "arg_sees (buf_mem s b) t steps (val_bytes s (arg_value R b (buf_mem s b) t steps))" by simp_all
qed

lemma materializeArg_any:
  "itab_ok R m t steps \<Longrightarrow> nonnil_any R m t steps \<Longrightarrow> \<exists>e. materializeArg R b m t steps = Inl e"
  using materializeIface_any by (fastforce simp: nonnil_any_def materializeArg_def)

text \<open>All arguments: each is read from its own steps, and one that panics is a panic of all.\<close>

definition arg_vals :: "goruntime \<Rightarrow> gotype list \<Rightarrow> step list list \<Rightarrow> callState \<Rightarrow> rval list" where
  "arg_vals R ins avs s =
     map (\<lambda>i. arg_value R (argRegs s) (buf_mem s (argRegs s)) (ins ! i) (avs ! i)) [0..<length ins]"

definition readable :: "goruntime \<Rightarrow> gotype list \<Rightarrow> step list list \<Rightarrow> callState \<Rightarrow> bool" where
  "readable R ins avs s \<longleftrightarrow>
     (\<forall>i<length ins. \<exists>v. materializeArg R (argRegs s) (buf_mem s (argRegs s)) (ins ! i) (avs ! i) = Inr v)"

lemma length_arg_vals [simp]: "length (arg_vals R ins avs s) = length ins"
  by (simp add: arg_vals_def)

lemma call_steps:
  assumes "layout_rel A ins outs l avs rvs" "i < length ins"
  shows "stepsForValue (l_call l) (Suc i) = Inr (avs ! i)" "value_steps (ins ! i) (avs ! i)"
  using assms stepsForValue_vals [of "l_call l" "rcvr_steps A # avs" "Suc i"]
  by (auto simp: layout_rel_def seq_inv_def list_all2_conv_all_nth)

lemma materializeArgs_eq:
  assumes rel: "layout_rel A ins outs l avs rvs"
  shows "readable R ins avs s \<Longrightarrow> materializeArgs R l ins s = Inr (arg_vals R ins avs s)"
    and "\<not> readable R ins avs s \<Longrightarrow> \<exists>e. materializeArgs R l ins s = Inl e"
proof -
  let ?arg = "\<lambda>i. materializeArg R (argRegs s) (buf_mem s (argRegs s)) (ins ! i) (avs ! i)"
  let ?body = "\<lambda>i out. res_bind (stepsForValue (l_call l) (i + 1))
        (\<lambda>steps. res_bind (materializeArg R (argRegs s) (buf_mem s (argRegs s)) (ins ! i) steps)
           (\<lambda>v. Inr (out @ [v])))"
  have step: "?body i out = res_bind (?arg i) (\<lambda>v. Inr (out @ [v]))" if "i < length ins" for i out
    using call_steps(1) [OF rel that] by simp
  show "materializeArgs R l ins s = Inr (arg_vals R ins avs s)" if ok: "readable R ins avs s"
  proof -
    have "res_fold ?body [0..<n] [] =
        Inr (map (\<lambda>i. arg_value R (argRegs s) (buf_mem s (argRegs s)) (ins ! i) (avs ! i)) [0..<n])"
      if "n \<le> length ins" for n
      using that
    proof (induction n)
      case (Suc n)
      then have "n < length ins" by simp
      with ok obtain v where "?arg n = Inr v" unfolding readable_def by blast
      with Suc step [of n] show ?case by (simp add: res_fold_append arg_value_def)
    qed simp
    then show ?thesis by (simp add: materializeArgs_def arg_vals_def)
  qed
  show "\<exists>e. materializeArgs R l ins s = Inl e" if bad: "\<not> readable R ins avs s"
  proof -
    from bad obtain i where i: "i < length ins" "\<nexists>v. ?arg i = Inr v" by (auto simp: readable_def)
    then obtain e where "?arg i = Inl e" by (cases "?arg i") auto
    with step [OF i(1)] have "?body i out = Inl e" for out by simp
    then show ?thesis
      unfolding materializeArgs_def using i(1) by (intro res_fold_Inl [of i]) auto
  qed
qed

lemma Args_fresh:
  "layout_rel A ins outs l avs rvs \<Longrightarrow> readable R ins avs s \<Longrightarrow> args s = None \<Longrightarrow>
   Args R l ins s = Inr (arg_vals R ins avs s, s\<lparr>args := Some (arg_vals R ins avs s)\<rparr>)"
  by (simp add: Args_def materializeArgs_eq(1))

lemma Args_unreadable:
  "layout_rel A ins outs l avs rvs \<Longrightarrow> \<not> readable R ins avs s \<Longrightarrow> args s = None \<Longrightarrow> \<exists>e. Args R l ins s = Inl e"
  using materializeArgs_eq(2) by (fastforce simp: Args_def)

section \<open>Results\<close>

text \<open>
  Every result is found at the registers or slot of its type. The result part of the stack area is
  what \<open>Dispatch\<close> copies back to the caller.
\<close>

definition results_at :: "mem \<Rightarrow> abiLayout \<Rightarrow> gotype list \<Rightarrow> (nat \<Rightarrow> byte list) \<Rightarrow> bool" where
  "results_at m l outs img \<longleftrightarrow>
     (\<forall>i<length outs. \<exists>steps. stepsForValue (l_ret l) i = Inr steps \<and>
        (\<forall>st\<in>set steps. rd m (stepAddr st) (step_size st) = step_part (img i) st))"

lemma rd_cong: "(\<And>k. k < n \<Longrightarrow> m a (p + k) = m' a (p + k)) \<Longrightarrow> rd m (a, p) n = rd m' (a, p) n"
  by (simp add: rd_def)

lemma ret_step_in_area:
  assumes rel: "layout_rel A ins outs l avs rvs" and st: "i < length outs" "st \<in> set (rvs ! i)" "is_stack st"
  shows "retOffset l \<le> stkOff st \<and> stkOff st + step_size st \<le> stackBytes l"
proof -
  from rel have len: "length rvs = length outs" and inv: "seq_inv A (retOffset l) (l_ret l) rvs"
    and le: "seq_stackBytes (l_ret l) \<le> stackBytes l"
    by (auto simp: layout_rel_def align_up_ge dest: list_all2_lengthD)
  have "rvs ! i \<in> set rvs" using len st(1) by simp
  then have "st \<in> set (concat rvs)" using st(2) by auto
  with inv st(3) slots_ok_bounds [of "retOffset l" "filter is_stack (seq_steps (l_ret l))" "seq_stackBytes (l_ret l)"] le
  show ?thesis by (fastforce simp: seq_inv_def seq_vals_def stack_ok_def)
qed

lemma arg_step_in_area:
  assumes rel: "layout_rel A ins outs l avs rvs" and st: "i < length ins" "st \<in> set (avs ! i)"
  shows "(is_stack st \<longrightarrow> stkOff st + step_size st \<le> stackCallArgsSize l) \<and>
         (is_int st \<and> A \<noteq> OtherArch \<longrightarrow> 0 < ireg st)"
proof -
  from rel have len: "length avs = length ins" and inv: "seq_inv A 0 (l_call l) (rcvr_steps A # avs)"
    and le: "stackCallArgsSize l = seq_stackBytes (l_call l)"
    by (auto simp: layout_rel_def dest: list_all2_lengthD)
  have "avs ! i \<in> set avs" using len st(1) by simp
  then have mem: "st \<in> set (concat avs)" using st(2) by auto
  then have "st \<in> set (seq_steps (l_call l))" using inv by (auto simp: seq_inv_def seq_vals_def)
  then have "is_stack st \<longrightarrow> stkOff st + step_size st \<le> stackCallArgsSize l"
    using inv le slots_ok_bounds [of 0 "filter is_stack (seq_steps (l_call l))" "seq_stackBytes (l_call l)"]
    by (auto simp: seq_inv_def stack_ok_def)
  moreover have "0 < ireg st" if "is_int st" "A \<noteq> OtherArch"
  proof -
    have rc: "filter is_int (rcvr_steps A) = rcvr_steps A" "map ireg (rcvr_steps A) = [0]"
      using that(2) by (cases A; simp add: rcvr_steps_def is_int_def)+
    have "seq_vals (l_call l) (rcvr_steps A # avs)" "regs_in_order (l_call l)"
      using inv by (simp_all add: seq_inv_def)
    then have sq: "seq_steps (l_call l) = rcvr_steps A @ concat avs"
      "map ireg (filter is_int (seq_steps (l_call l))) = [0..<iregs (l_call l)]"
      unfolding seq_vals_def regs_in_order_def by (simp, blast)
    from sq(2) have "0 # map ireg (filter is_int (concat avs)) = [0..<iregs (l_call l)]"
      unfolding sq(1) using rc by simp
    then have "sorted_wrt (<) (0 # map ireg (filter is_int (concat avs)))" by simp
    then show ?thesis using mem that(1) by auto
  qed
  ultimately show ?thesis by blast
qed

lemma deliver_results:
  assumes rel: "layout_rel A ins outs l avs rvs" and M: "pm_outs M = outs" "pm_layout M = l"
    and run: "\<not> (direct s \<and> rets = None)"
    and v: "\<And>i. i < length outs \<Longrightarrow>
       pick_result R outs (case rets of None \<Rightarrow> [] | Some vs \<Rightarrow> vs) i = v i \<and> rv_mem (v i) = Own (bs i) \<and>
       (length (bs i) = size_of (outs ! i) \<or> (\<exists>n. outs ! i = TInterface n)) \<and>
       (size_of (outs ! i) = 0 \<or> scatterable R (outs ! i) (rv_type (v i)) (bs i) (rvs ! i))"
  shows "\<exists>m'. deliver R M m (rets, s) = Inr m' \<and>
           results_at m' l outs (\<lambda>i. wire_image R (outs ! i) (rv_type (v i)) (bs i))"
proof -
  let ?img = "\<lambda>i. wire_image R (outs ! i) (rv_type (v i)) (bs i)"
  from storeResults_live [OF rel run, of R v bs] v obtain s' where
    s': "storeResults R l outs rets s = Inr s'"
      "live s' = frame_mem.puts (concat (map (result_chunks R outs v bs rvs) [0..<length outs])) (live s)"
    by blast
  let ?m' = "(live s')(AStack := (\<lambda>x. if retOffset l \<le> x \<and> x < stackBytes l then live s' AStack x else m AStack x))"
  have D: "deliver R M m (rets, s) = Inr ?m'"
    using s'(1) by (simp add: deliver_def M Let_def)
  have "rd ?m' (stepAddr st) (step_size st) = step_part (?img i) st" if i: "i < length outs" "st \<in> set (rvs ! i)" for i st
  proof -
    have "rd ?m' (stepAddr st) (step_size st) = rd (live s') (stepAddr st) (step_size st)"
    proof (cases "is_stack st")
      case True
      with ret_step_in_area [OF rel i] show ?thesis
        by (auto simp: stepAddr_def is_stack_def intro!: rd_cong)
    qed (auto simp: rd_def stepAddr_def is_stack_def split: stepKind.split)
    also have "\<dots> = step_part (?img i) st"
      unfolding s'(2) by (rule result_chunks_read [OF rel _ i]) (use v in blast)
    finally show ?thesis .
  qed
  moreover have "stepsForValue (l_ret l) i = Inr (rvs ! i)" if "i < length outs" for i
    using rel that by (intro stepsForValue_vals) (auto simp: layout_rel_def seq_inv_def dest: list_all2_lengthD)
  ultimately show ?thesis unfolding results_at_def D by blast
qed

section \<open>Interceptors that only look\<close>

primrec looks :: "ix \<Rightarrow> bool" where
  "looks (Return r) = False"
| "looks (TakeArgs k) = (\<forall>vs. looks (k vs))"
| "looks (ReadVal v k) = (\<forall>bs. looks (k bs))"
| "looks (PutArg i v p) = False"
| "looks (Next k) = (\<forall>r. k r = Return r)"
| "looks (Crash e) = False"

lemma looks_once: "looks p \<Longrightarrow> once p"
  by (induction p) auto

text \<open>An interceptor that only looks runs the rest, with the arguments materialised or not.\<close>

lemma run_looks:
  assumes A: "Args R (pm_layout M) (pm_ins M) s = Inr (vs, s\<lparr>args := Some vs\<rparr>)"
  shows "looks p \<Longrightarrow> t = s \<or> t = s\<lparr>args := Some vs\<rparr> \<Longrightarrow>
     run_ix R M h p t = h s \<or> run_ix R M h p t = h (s\<lparr>args := Some vs\<rparr>)"
proof (induction p arbitrary: t)
  case (TakeArgs k)
  have "Args R (pm_layout M) (pm_ins M) t = Inr (vs, s\<lparr>args := Some vs\<rparr>)"
    using TakeArgs.prems(2) A by (auto simp: Args_def)
  with TakeArgs show ?case by simp
next
  case (Next k)
  then have "run_ix R M h (Next k) t = h t" by (auto split: sum.splits)
  with Next.prems(2) show ?case by auto
qed auto

lemma ideal_looks:
  assumes A: "Args R (pm_layout M) (pm_ins M) s = Inr (vs, s\<lparr>args := Some vs\<rparr>)"
  shows "\<forall>p\<in>set chain. looks p \<Longrightarrow> t = s \<or> t = s\<lparr>args := Some vs\<rparr> \<Longrightarrow>
     ideal R M chain t = callTarget R M s \<or> ideal R M chain t = callTarget R M (s\<lparr>args := Some vs\<rparr>)"
proof (induction chain arbitrary: t)
  case (Cons p chain)
  from run_looks [OF A, of p t "ideal R M chain"] Cons.prems
  obtain u where "ideal R M (p # chain) t = ideal R M chain u" "u = s \<or> u = s\<lparr>args := Some vs\<rparr>" by auto
  with Cons.IH [of u] Cons.prems(1) show ?case by simp
qed auto

section \<open>Both ways to the target agree\<close>

text \<open>A result the code delivers unchanged: see \<open>scatterable\<close>; interface words as above.\<close>

definition go_result :: "goruntime \<Rightarrow> gotype \<Rightarrow> step list \<Rightarrow> byte list \<Rightarrow> bool" where
  "go_result R t steps bs \<longleftrightarrow>
     length bs = size_of t \<and> (size_of t = 0 \<or> scatterable R t t bs steps) \<and>
     (\<forall>n. t = TInterface n \<longrightarrow> itab_word R n (word_of (take 8 bs)) (drop 8 bs))"

lemma wire_image_go_result: "go_result R t steps bs \<Longrightarrow> wire_image R t t bs = bs"
proof (cases "\<exists>n. t = TInterface n")
  case True
  assume g: "go_result R t steps bs"
  from True obtain n where t: "t = TInterface n" by auto
  with g have len: "length bs = 16" and i: "itab_word R n (word_of (take 8 bs)) (drop 8 bs)"
    by (auto simp: go_result_def)
  have split: "take 8 bs @ drop 8 bs = bs" by simp
  show ?thesis
  proof (cases "word_of (take 8 bs) = 0")
    case True
    with i len word_of_zero [of "take 8 bs"] have "take 8 bs = replicate 8 0" "drop 8 bs = replicate 8 0"
      by (auto simp: itab_word_def)
    with split True show ?thesis
      by (simp add: t wire_image_def box_words_def le_bytes_def map_replicate_const)
  next
    case False
    with i len split show ?thesis
      by (simp add: t wire_image_def box_words_def itab_word_def iface_word_def iface_dyn_def Let_def
          le_bytes_word_of)
  qed
next
  case False
  then show ?thesis by (cases t) (simp_all add: wire_image_def)
qed

text \<open>
  \<open>code\<close> is the machine code of \<open>f\<close>: on registers that hold the arguments it leaves the results of
  \<open>f\<close> in the result registers, and panics when \<open>f\<close> does. (A method with a stack area never takes the
  register path.)
\<close>

definition implements ::
  "goruntime \<Rightarrow> abiLayout \<Rightarrow> gotype list \<Rightarrow> gotype list \<Rightarrow> (mem \<Rightarrow> mem res) \<Rightarrow> (govalue list \<Rightarrow> govalue list res) \<Rightarrow> bool" where
  "implements R l ins outs code f \<longleftrightarrow>
     (\<forall>m vals. length vals = length ins \<and>
        (\<forall>i<length ins. fst (vals ! i) = ins ! i \<and>
           (\<exists>steps. stepsForValue (l_call l) (i + 1) = Inr steps \<and> arg_sees m (ins ! i) steps (snd (vals ! i)))) \<longrightarrow>
        (case f vals of
           Inl e \<Rightarrow> stackBytes l = 0 \<longrightarrow> redial code m = Inl e
         | Inr outv \<Rightarrow> map fst outv = outs \<and>
             (\<forall>i<length outs. \<exists>steps. stepsForValue (l_ret l) i = Inr steps \<and>
                go_result R (outs ! i) steps (snd (outv ! i))) \<and>
             (stackBytes l = 0 \<longrightarrow>
                (\<exists>m'. redial code m = Inr m' \<and> results_at m' l outs (\<lambda>i. snd (outv ! i))))))"

definition ifaces_ok :: "goruntime \<Rightarrow> abiLayout \<Rightarrow> gotype list \<Rightarrow> mem \<Rightarrow> bool" where
  "ifaces_ok R l ins m \<longleftrightarrow>
     (\<forall>i<length ins. \<forall>steps. stepsForValue (l_call l) (i + 1) = Inr steps \<longrightarrow> itab_ok R m (ins ! i) steps)"

lemma rd_entry:
  assumes rel: "layout_rel A ins outs l avs rvs" and M: "pm_layout M = l" and i: "i < length ins" "st \<in> set (avs ! i)"
  shows "rd (live (entry_state M pooled m)) (stepAddr st) (step_size st) = rd m (stepAddr st) (step_size st)"
proof (cases "is_stack st")
  case True
  with arg_step_in_area [OF rel i] show ?thesis
    by (auto simp: entry_state_def M stepAddr_def is_stack_def intro!: rd_cong)
qed (auto simp: entry_state_def rd_def stepAddr_def is_stack_def split: stepKind.split)

lemma itab_ok_cong:
  assumes st: "value_steps t steps" and eq: "\<And>st. st \<in> set steps \<Longrightarrow> rd m (stepAddr st) (step_size st) = rd m' (stepAddr st) (step_size st)"
  shows "itab_ok R m t steps = itab_ok R m' t steps" "nonnil_any R m t steps = nonnil_any R m' t steps"
proof -
  have "itab_ok R m t steps = itab_ok R m' t steps \<and> nonnil_any R m t steps = nonnil_any R m' t steps"
  proof (cases "\<exists>n. t = TInterface n")
    case True
    then obtain n where t: "t = TInterface n" by auto
    have "rd m (stepAddr (steps ! 0)) 8 = rd m' (stepAddr (steps ! 0)) 8 \<and> iface_data m steps = iface_data m' steps"
      using st unfolding t
    proof (cases rule: iface_steps_cases)
      case (stk st)
      with eq [of st] rd_append [of m "fst (stepAddr st)" "snd (stepAddr st)" 8 8]
        rd_append [of m' "fst (stepAddr st)" "snd (stepAddr st)" 8 8]
      show ?thesis by (simp add: iface_data_def)
    next
      case (regs x y)
      with eq [of x] eq [of y] show ?thesis by (simp add: iface_data_def)
    qed
    then show ?thesis by (simp add: itab_ok_def nonnil_any_def t)
  qed (simp add: itab_ok_def nonnil_any_def)
  then show "itab_ok R m t steps = itab_ok R m' t steps" "nonnil_any R m t steps = nonnil_any R m' t steps" by simp_all
qed

text \<open>Some argument is of an empty interface type and not nil.\<close>

definition any_args :: "goruntime \<Rightarrow> abiLayout \<Rightarrow> gotype list \<Rightarrow> mem \<Rightarrow> bool" where
  "any_args R l ins m \<longleftrightarrow>
     (\<exists>i<length ins. \<exists>steps. stepsForValue (l_call l) (i + 1) = Inr steps \<and> nonnil_any R m (ins ! i) steps)"

lemma readable_iff:
  assumes rel: "layout_rel A ins outs l avs rvs" and ok: "ifaces_ok R l ins (buf_mem s (argRegs s))"
  shows "readable R ins avs s \<longleftrightarrow> \<not> any_args R l ins (buf_mem s (argRegs s))"
proof -
  have "(\<exists>v. materializeArg R (argRegs s) (buf_mem s (argRegs s)) (ins ! i) (avs ! i) = Inr v) \<longleftrightarrow>
      \<not> nonnil_any R (buf_mem s (argRegs s)) (ins ! i) (avs ! i)" if i: "i < length ins" for i
  proof -
    have it: "itab_ok R (buf_mem s (argRegs s)) (ins ! i) (avs ! i)"
      using ok i call_steps(1) [OF rel i] by (simp add: ifaces_ok_def)
    show ?thesis
    proof (cases "nonnil_any R (buf_mem s (argRegs s)) (ins ! i) (avs ! i)")
      case True
      with materializeArg_any [OF it True, of "argRegs s"] show ?thesis by auto
    qed (use materializeArg_sees(1) [OF call_steps(2) [OF rel i] it] in simp)
  qed
  then show ?thesis using call_steps(1) [OF rel] by (auto simp: readable_def any_args_def)
qed

lemma arg_vals_nth:
  assumes rel: "layout_rel A ins outs l avs rvs" and ok: "ifaces_ok R l ins (buf_mem s (argRegs s))"
    and any: "\<not> any_args R l ins (buf_mem s (argRegs s))" and i: "i < length ins"
  shows "stepsForValue (l_call l) (i + 1) = Inr (avs ! i) \<and> rv_type (arg_vals R ins avs s ! i) = ins ! i \<and>
    arg_sees (buf_mem s (argRegs s)) (ins ! i) (avs ! i) (val_bytes s (arg_vals R ins avs s ! i))"
proof -
  have "itab_ok R (buf_mem s (argRegs s)) (ins ! i) (avs ! i)" "\<not> nonnil_any R (buf_mem s (argRegs s)) (ins ! i) (avs ! i)"
    using ok any i call_steps(1) [OF rel i] by (auto simp: ifaces_ok_def any_args_def)
  with call_steps [OF rel i] materializeArg_sees(2) [of "ins ! i" "avs ! i" R s "argRegs s"] i show ?thesis
    by (simp add: arg_vals_def)
qed

lemma call_fn_fresh:
  assumes rel: "layout_rel A (pm_ins M) outs (pm_layout M) avs rvs"
    and s: "args s = None \<and> readable R (pm_ins M) avs s \<or> args s = Some (arg_vals R (pm_ins M) avs s)"
    and f: "f (map (\<lambda>v. (rv_type v, val_bytes s v)) (arg_vals R (pm_ins M) avs s)) = Inr outv"
  shows "call_fn R M f s = Inr (Some (map (\<lambda>(t, bs). Some \<lparr>rv_type = t, rv_mem = Own bs\<rparr>) outv),
     s\<lparr>args := Some (arg_vals R (pm_ins M) avs s)\<rparr>)"
proof -
  let ?vs = "arg_vals R (pm_ins M) avs s"
  have "Args R (pm_layout M) (pm_ins M) s = Inr (?vs, s\<lparr>args := Some ?vs\<rparr>)"
    using s Args_fresh [OF rel, of R s] by (auto simp: Args_def)
  moreover have "val_bytes (s\<lparr>args := Some ?vs\<rparr>) v = val_bytes s v" for v
    by (simp add: val_bytes_def buf_mem_def split: vmem.split buf.split)
  ultimately show ?thesis using f by (simp add: call_fn_def)
qed

text \<open>The interface words the entry state holds are those of the caller.\<close>

lemma ifaces_entry:
  assumes rel: "layout_rel A ins outs l avs rvs" and M: "pm_layout M = l"
  shows "ifaces_ok R l ins (live (entry_state M pooled m)) = ifaces_ok R l ins m"
    and "any_args R l ins (live (entry_state M pooled m)) = any_args R l ins m"
proof -
  have "itab_ok R (live (entry_state M pooled m)) (ins ! i) (avs ! i) = itab_ok R m (ins ! i) (avs ! i) \<and>
      nonnil_any R (live (entry_state M pooled m)) (ins ! i) (avs ! i) = nonnil_any R m (ins ! i) (avs ! i)"
    if i: "i < length ins" for i
    using itab_ok_cong [OF call_steps(2) [OF rel i] rd_entry [OF rel M i]] by blast
  then show "ifaces_ok R l ins (live (entry_state M pooled m)) = ifaces_ok R l ins m"
    "any_args R l ins (live (entry_state M pooled m)) = any_args R l ins m"
    using call_steps(1) [OF rel] by (simp_all add: ifaces_ok_def any_args_def) (metis Inr_inject)+
qed

text \<open>Arguments described by one memory are described by every memory with the same argument steps.\<close>

definition same_args :: "gotype list \<Rightarrow> step list list \<Rightarrow> mem \<Rightarrow> mem \<Rightarrow> bool" where
  "same_args ins avs m m' \<longleftrightarrow>
     (\<forall>i<length ins. \<forall>st\<in>set (avs ! i). rd m (stepAddr st) (step_size st) = rd m' (stepAddr st) (step_size st))"

text \<open>What a call of \<open>f\<close> leaves for the caller: its panic, or its results where the caller looks.\<close>

definition answers :: "abiLayout \<Rightarrow> gotype list \<Rightarrow> govalue list res \<Rightarrow> mem res \<Rightarrow> bool" where
  "answers l outs r x \<longleftrightarrow>
     (case r of
        Inl e \<Rightarrow> x = Inl e
      | Inr outv \<Rightarrow> \<exists>m'. x = Inr m' \<and> results_at m' l outs (\<lambda>i. snd (outv ! i)))"

definition go_results :: "goruntime \<Rightarrow> abiLayout \<Rightarrow> gotype list \<Rightarrow> govalue list \<Rightarrow> bool" where
  "go_results R l outs outv \<longleftrightarrow> map fst outv = outs \<and>
     (\<forall>i<length outs. \<exists>steps. stepsForValue (l_ret l) i = Inr steps \<and> go_result R (outs ! i) steps (snd (outv ! i)))"

lemma implements_call:
  assumes impl: "implements R l ins outs code f" and rel: "layout_rel A ins outs l avs rvs"
    and ok: "ifaces_ok R l ins (live s)" "\<not> any_args R l ins (live s)" and s: "buf_mem s (argRegs s) = live s"
    and same: "same_args ins avs m' (live s)"
    and r: "f (map (\<lambda>v. (rv_type v, val_bytes s v)) (arg_vals R ins avs s)) = r"
  shows "(\<forall>outv. r = Inr outv \<longrightarrow> go_results R l outs outv) \<and>
      (stackBytes l = 0 \<longrightarrow> answers l outs r (redial code m'))"
proof -
  let ?vals = "map (\<lambda>v. (rv_type v, val_bytes s v)) (arg_vals R ins avs s)"
  have "fst (?vals ! i) = ins ! i \<and>
      (\<exists>steps. stepsForValue (l_call l) (i + 1) = Inr steps \<and> arg_sees m' (ins ! i) steps (snd (?vals ! i)))"
    if "i < length ins" for i
    using arg_vals_nth [OF rel _ _ that, of R s] s ok same that by (simp add: same_args_def arg_sees_def)
  then show ?thesis
    using impl [unfolded implements_def, rule_format, of ?vals m'] r
    by (auto simp: answers_def go_results_def split: sum.splits)
qed

lemma same_args_entry:
  assumes rel: "layout_rel A ins outs l avs rvs" and M: "pm_layout M = l"
  shows "same_args ins avs m (live (entry_state M pooled m))"
    and "A \<noteq> OtherArch \<Longrightarrow> same_args ins avs (wr (AInts, 0) (le_bytes 8 d) m) (live (entry_state M pooled m))"
proof -
  show "same_args ins avs m (live (entry_state M pooled m))"
    using rd_entry [OF rel M] by (simp add: same_args_def)
  moreover have "rd (wr (AInts, 0) (le_bytes 8 d) m) (stepAddr st) (step_size st) = rd m (stepAddr st) (step_size st)"
    if "A \<noteq> OtherArch" "i < length ins" "st \<in> set (avs ! i)" for i st
    using arg_step_in_area [OF rel that(2,3)] that(1)
    by (intro rd_wr_apart) (auto simp: apart_def stepAddr_def is_int_def split: stepKind.split)
  ultimately show "A \<noteq> OtherArch \<Longrightarrow> same_args ins avs (wr (AInts, 0) (le_bytes 8 d) m) (live (entry_state M pooled m))"
    by (simp add: same_args_def)
qed

text \<open>The values the target method returned, stored for the caller.\<close>

lemma deliver_values:
  assumes rel: "layout_rel A ins outs l avs rvs" and M: "pm_outs M = outs" "pm_layout M = l"
    and out: "go_results R l outs outv" and asg: "\<forall>t. rt_assignable R t t"
  shows "answers l outs (Inr outv)
    (deliver R M m (Some (map (\<lambda>(t, bs). Some \<lparr>rv_type = t, rv_mem = Own bs\<rparr>) outv), s))"
proof -
  let ?rets = "Some (map (\<lambda>(t, bs). Some \<lparr>rv_type = t, rv_mem = Own bs\<rparr>) outv)"
  let ?v = "\<lambda>i. \<lparr>rv_type = outs ! i, rv_mem = Own (snd (outv ! i))\<rparr>"
  have v: "pick_result R outs (case ?rets of None \<Rightarrow> [] | Some vs \<Rightarrow> vs) i = ?v i \<and>
      rv_mem (?v i) = Own (snd (outv ! i)) \<and> (length (snd (outv ! i)) = size_of (outs ! i) \<or> (\<exists>n. outs ! i = TInterface n)) \<and>
      (size_of (outs ! i) = 0 \<or> scatterable R (outs ! i) (rv_type (?v i)) (snd (outv ! i)) (rvs ! i))"
    if i: "i < length outs" for i
  proof -
    have st: "stepsForValue (l_ret l) i = Inr (rvs ! i)"
      using rel i by (intro stepsForValue_vals) (auto simp: layout_rel_def seq_inv_def dest: list_all2_lengthD)
    have lo: "length outv = length outs" using out by (auto simp: go_results_def)
    then have "fst (outv ! i) = outs ! i" using out i by (metis go_results_def nth_map)
    moreover have "go_result R (outs ! i) (rvs ! i) (snd (outv ! i))"
      using out i st by (auto simp: go_results_def)
    ultimately show ?thesis
      using i lo asg by (auto simp: pick_result_def case_prod_unfold go_result_def Let_def)
  qed
  from deliver_results [OF rel M _ v]
  obtain m' where m': "deliver R M m (?rets, s) = Inr m'"
    "results_at m' l outs (\<lambda>i. wire_image R (outs ! i) (outs ! i) (snd (outv ! i)))" by auto
  have "wire_image R (outs ! i) (outs ! i) (snd (outv ! i)) = snd (outv ! i)" if "i < length outs" for i
    using out that wire_image_go_result by (auto simp: go_results_def)
  with m' show ?thesis by (auto simp: answers_def results_at_def)
qed

section \<open>Properties of arguments and results\<close>


text \<open>\<open>Arg\<close> answers for the method's parameters and panics for any other index.\<close>

lemma Arg_in_range:
  assumes "newABILayout A (TFunc ins outs v) = Inr l" and "args s = None"
    and "ifaces_ok R l ins (buf_mem s (argRegs s))" and "\<not> any_args R l ins (buf_mem s (argRegs s))"
  shows "(\<exists>r. Arg R l ins i s = Inr r) \<longleftrightarrow> i < length ins"
proof -
  from assms(1) obtain avs rvs where rel: "layout_rel A ins outs l avs rvs" by (rule layout_relE)
  with Args_fresh [OF rel _ assms(2), of R] readable_iff [OF rel assms(3)] assms(4) show ?thesis by (simp add: Arg_def)
qed

text \<open>
  Concrete instances: registers full of ones, the method \<open>func(*int) *int\<close>, and an \<open>any\<close> whose type
  descriptor is at 7.
\<close>

lemma ones_ifaces_ok:
  assumes "TInterface ''any'' \<notin> set ins"
  shows "ifaces_ok demo_rt l ins (\<lambda>_ _. 1)" "\<not> any_args demo_rt l ins (\<lambda>_ _. 1)"
proof -
  have "rd (\<lambda>_ _. 1) ap 8 = replicate 8 1" for ap by (simp add: rd_def map_replicate_const)
  moreover have "word_of (replicate 8 1) = 0x0101010101010101" by code_simp
  ultimately have "itab_ok demo_rt (\<lambda>_ _. 1) t steps \<and> \<not> nonnil_any demo_rt (\<lambda>_ _. 1) t steps" if "t \<in> set ins" for t steps
    using assms that by (auto simp: itab_ok_def itab_word_def nonnil_any_def demo_rt_def)
  then show "ifaces_ok demo_rt l ins (\<lambda>_ _. 1)" "\<not> any_args demo_rt l ins (\<lambda>_ _. 1)"
    by (auto simp: ifaces_ok_def any_args_def)
qed

definition sevens :: mem where
  "sevens = (\<lambda>_ x. if x mod 8 = 0 then 7 else 0)"

lemma sevens_any:
  "ifaces_ok demo_rt (layout_of Amd64 [TInterface ''any''] []) [TInterface ''any''] sevens"
  "any_args demo_rt (layout_of Amd64 [TInterface ''any''] []) [TInterface ''any''] sevens"
proof -
  have st: "stepsForValue (l_call (layout_of Amd64 [TInterface ''any''] [])) 1 =
     Inr [\<lparr>step_kind = StepIntReg, step_offset = 0, step_size = 8, stkOff = 0, ireg = 1, freg = 0\<rparr>,
          \<lparr>step_kind = StepPointer, step_offset = 8, step_size = 8, stkOff = 0, ireg = 2, freg = 0\<rparr>]"
    by code_simp
  have w: "word_of (rd sevens (AInts, 8) 8) = 7"
    by code_simp
  show "ifaces_ok demo_rt (layout_of Amd64 [TInterface ''any''] []) [TInterface ''any''] sevens"
    "any_args demo_rt (layout_of Amd64 [TInterface ''any''] []) [TInterface ''any''] sevens"
    using st w by (simp_all add: ifaces_ok_def any_args_def itab_ok_def itab_word_def nonnil_any_def stepAddr_def demo_rt_def)
qed



lemma demo_assignable: "rt_assignable demo_rt t t"
  by (simp add: demo_rt_def)

abbreviation ptr_sig :: "gotype list" where
  "ptr_sig \<equiv> [TPointer TInt]"

lemma ptr_sig_steps:
  "stepsForValue (l_call (layout_of Amd64 ptr_sig ptr_sig)) 1 =
     Inr [\<lparr>step_kind = StepPointer, step_offset = 0, step_size = 8, stkOff = 0, ireg = 1, freg = 0\<rparr>]"
  "stepsForValue (l_ret (layout_of Amd64 ptr_sig ptr_sig)) 0 =
     Inr [\<lparr>step_kind = StepPointer, step_offset = 0, step_size = 8, stkOff = 0, ireg = 0, freg = 0\<rparr>]"
  by code_simp+

lemma echo_implements: "implements demo_rt (layout_of Amd64 ptr_sig ptr_sig) ptr_sig ptr_sig echo_code Inr"
  unfolding implements_def
proof (intro allI impI)
  fix m :: mem and vals :: "govalue list"
  let ?l = "layout_of Amd64 ptr_sig ptr_sig"
  assume "length vals = length ptr_sig \<and> (\<forall>i<length ptr_sig. fst (vals ! i) = ptr_sig ! i \<and>
    (\<exists>steps. stepsForValue (l_call ?l) (i + 1) = Inr steps \<and> arg_sees m (ptr_sig ! i) steps (snd (vals ! i))))"
  then obtain bs where v: "vals = [(TPointer TInt, bs)]" "length bs = 8" "bs = rd m (AInts, 8) 8"
    using ptr_sig_steps(1)
    by (cases vals) (auto simp: arg_sees_def step_part_def stepAddr_def)
  obtain m' where m': "redial echo_code m = Inr m'" "rd m' (AInts, 0) 8 = rd m (AInts, 8) 8"
    by (simp add: redial_def echo_code_def rd_def wr_def)
  with v ptr_sig_steps(2) show "case Inr vals of
      Inl e \<Rightarrow> stackBytes ?l = 0 \<longrightarrow> redial echo_code m = Inl e
    | Inr outv \<Rightarrow> map fst outv = ptr_sig \<and>
        (\<forall>i<length ptr_sig. \<exists>steps. stepsForValue (l_ret ?l) i = Inr steps \<and> go_result demo_rt (ptr_sig ! i) steps (snd (outv ! i))) \<and>
        (stackBytes ?l = 0 \<longrightarrow> (\<exists>m'. redial echo_code m = Inr m' \<and> results_at m' ?l ptr_sig (\<lambda>i. snd (outv ! i))))"
    by (simp add: go_result_def scatterable_def results_at_def step_part_def stepAddr_def is_stack_def)
qed


section \<open>Results of interceptors and mocks\<close>

text \<open>A result with its own storage that \<open>scatterValue\<close> delivers.\<close>

definition deliverable :: "goruntime \<Rightarrow> gotype \<Rightarrow> step list \<Rightarrow> rval \<Rightarrow> bool" where
  "deliverable R t steps v \<longleftrightarrow>
     (\<exists>bs. rv_mem v = Own bs \<and> (length bs = size_of t \<or> (\<exists>n. t = TInterface n)) \<and>
        (size_of t = 0 \<or> scatterable R t (rv_type v) bs steps))"

lemma ret_steps:
  assumes "layout_rel A ins outs l avs rvs" "i < length outs"
  shows "stepsForValue (l_ret l) i = Inr (rvs ! i)"
  using assms by (intro stepsForValue_vals) (auto simp: layout_rel_def seq_inv_def dest: list_all2_lengthD)

lemma deliver_returned:
  assumes rel: "layout_rel A ins outs l avs rvs" and M: "pm_outs M = outs" "pm_layout M = l"
    and ok: "\<forall>i<length outs. \<forall>steps. stepsForValue (l_ret l) i = Inr steps \<longrightarrow>
      deliverable R (outs ! i) steps (pick_result R outs rets i)"
  shows "\<exists>m'. deliver R M m (Some rets, s) = Inr m' \<and>
    results_at m' l outs (\<lambda>i. wire_image R (outs ! i) (rv_type (pick_result R outs rets i))
                                (val_bytes s (pick_result R outs rets i)))"
proof -
  let ?v = "pick_result R outs rets" and ?bs = "\<lambda>i. val_bytes s (pick_result R outs rets i)"
  have v: "pick_result R outs (case Some rets of None \<Rightarrow> [] | Some vs \<Rightarrow> vs) i = ?v i \<and> rv_mem (?v i) = Own (?bs i) \<and>
     (length (?bs i) = size_of (outs ! i) \<or> (\<exists>n. outs ! i = TInterface n)) \<and>
     (size_of (outs ! i) = 0 \<or> scatterable R (outs ! i) (rv_type (?v i)) (?bs i) (rvs ! i))"
    if i: "i < length outs" for i
  proof -
    have "deliverable R (outs ! i) (rvs ! i) (?v i)" using ok ret_steps [OF rel i] i by blast
    then show ?thesis by (auto simp: deliverable_def val_bytes_def)
  qed
  show ?thesis by (rule deliver_results [OF rel M _ v]) simp_all
qed

lemma returned_results:
  assumes "newABILayout A (TFunc ins outs v) = Inr l" and "pm_outs M = outs" and "pm_layout M = l"
    and "Proceed R M chain (entry_state M pooled m) = Inr (Some rets, s)"
    and "\<forall>i<length outs. \<forall>steps. stepsForValue (l_ret l) i = Inr steps \<longrightarrow>
      deliverable R (outs ! i) steps (pick_result R outs rets i)"
  shows "\<exists>m'. Dispatch R M chain pooled m = Inr m' \<and>
    results_at m' l outs (\<lambda>i. wire_image R (outs ! i) (rv_type (pick_result R outs rets i))
                                (val_bytes s (pick_result R outs rets i)))"
proof -
  from assms(1) obtain avs rvs where rel: "layout_rel A ins outs l avs rvs" by (rule layout_relE)
  from deliver_returned [OF rel assms(2,3,5), of m s] assms(4) show ?thesis by (simp add: Dispatch_deliver)
qed

lemma deliver_refused:
  assumes rel: "layout_rel A ins outs l avs rvs" and M: "pm_outs M = outs" "pm_layout M = l"
    and i: "i < length outs" "refused (outs ! i) (rvs ! i)"
    and ty: "rv_type (pick_result R outs (case rets of None \<Rightarrow> [] | Some vs \<Rightarrow> vs) i) = outs ! i"
    and run: "\<not> (direct s \<and> rets = None)"
  shows "\<exists>e. deliver R M m (rets, s) = Inl e"
proof -
  have "\<exists>e. storeResults R l outs rets s = Inl e"
    unfolding storeResults_def if_not_P [OF run]
    by (rule res_fold_Inl [of i]) (use i ret_steps [OF rel i(1)] refused_scatter [OF i(2) ty] in auto)
  then show ?thesis by (auto simp: deliver_def M)
qed


definition lit :: "gotype \<Rightarrow> byte list \<Rightarrow> rval" where
  "lit t bs = \<lparr>rv_type = t, rv_mem = Own bs\<rparr>"

lemma str_err_steps:
  "stepsForValue (l_ret (layout_of Arm64 [] [TBool, TPointer TInt])) 0 =
     Inr [\<lparr>step_kind = StepIntReg, step_offset = 0, step_size = 1, stkOff = 0, ireg = 0, freg = 0\<rparr>]"
  "stepsForValue (l_ret (layout_of Arm64 [] [TBool, TPointer TInt])) 1 =
     Inr [\<lparr>step_kind = StepPointer, step_offset = 0, step_size = 8, stkOff = 0, ireg = 1, freg = 0\<rparr>]"
  by code_simp+


text \<open>
  A mock whose interceptors only look returns zero values: every result register and slot is zero
  at its size, for every method without a result the code gets wrong and every call without a
  non-nil argument of an empty interface type.
\<close>
theorem mock_returns_zeros:
  assumes "newABILayout A (TFunc ins outs v) = Inr l" and M: "pm_ins M = ins" "pm_outs M = outs" "pm_layout M = l"
    "targetFun M = None" "targetFn M = None" and chain: "\<forall>p\<in>set chain. looks p"
    and ok: "ifaces_ok R l ins m" "\<not> any_args R l ins m"
    and out: "\<forall>i<length outs. \<forall>steps. stepsForValue (l_ret l) i = Inr steps \<longrightarrow>
      size_of (outs ! i) = 0 \<or> scatterable R (outs ! i) (outs ! i) (replicate (size_of (outs ! i)) 0) steps"
  shows "\<exists>m'. Dispatch R M chain pooled m = Inr m' \<and>
    results_at m' l outs (\<lambda>i. replicate (size_of (outs ! i)) 0)"
proof -
  from assms(1) obtain avs rvs where rel: "layout_rel A ins outs l avs rvs" by (rule layout_relE)
  let ?s = "entry_state M pooled m"
  let ?bs = "\<lambda>i. replicate (size_of (outs ! i)) (0::byte)"
  have s: "args ?s = None" "direct ?s = False" "buf_mem ?s (argRegs ?s) = live ?s"
    by (simp_all add: entry_state_def argRegs_def buf_mem_def)
  have "readable R ins avs ?s"
    using readable_iff [OF rel, of R ?s] s(3) ifaces_entry [OF rel M(3)] ok by simp
  then have A: "Args R (pm_layout M) (pm_ins M) ?s = Inr (arg_vals R ins avs ?s, ?s\<lparr>args := Some (arg_vals R ins avs ?s)\<rparr>)"
    using Args_fresh [OF rel _ s(1)] M by simp
  have "\<exists>t. direct t = False \<and> ideal R M chain ?s = Inr (zeros M, t)"
    using ideal_looks [OF A chain, of ?s] M(4,5) s(2) by (auto simp: callTarget_def)
  then obtain t where t: "direct t = False" "ideal R M chain ?s = Inr (zeros M, t)" by blast
  have v: "pick_result R outs (case zeros M of None \<Rightarrow> [] | Some vs \<Rightarrow> vs) i = zero_val (outs ! i) \<and>
     rv_mem (zero_val (outs ! i)) = Own (?bs i) \<and> (length (?bs i) = size_of (outs ! i) \<or> (\<exists>n. outs ! i = TInterface n)) \<and>
     (size_of (outs ! i) = 0 \<or> scatterable R (outs ! i) (rv_type (zero_val (outs ! i))) (?bs i) (rvs ! i))"
    if "i < length outs" for i
    using M(2) out ret_steps [OF rel that] that by (auto simp: pick_result_def zeros_def zero_val_def Let_def)
  have img: "wire_image R t (rv_type (zero_val t)) (replicate (size_of t) 0) = replicate (size_of t) 0" for t
    by (cases t) (simp_all add: wire_image_def zero_val_def box_words_def word_of_def eval_nat_numeral le_bytes_def)
  have "Dispatch R M chain pooled m = deliver R M m (zeros M, t)"
    using Dispatch_ideal [of chain R M pooled m] chain looks_once t(2) by simp
  with deliver_results [OF rel M(2,3) _ v, where s = t and m = m] t(1) show ?thesis by (auto simp: img)
qed

theorem mock_returns_zeros_witness:
  "\<exists>m'. Dispatch demo_rt ((demo_method [] [TBool, TPointer TInt])\<lparr>pm_layout := layout_of Arm64 [] [TBool, TPointer TInt]\<rparr>)
      [TakeArgs (\<lambda>_. pass)] demo_state (\<lambda>_ _. 9) = Inr m' \<and> rd m' (AInts, 8) 8 = replicate 8 0"
proof -
  let ?outs = "[TBool, TPointer TInt]"
  let ?l = "layout_of Arm64 [] ?outs"
  have "\<exists>m'. Dispatch demo_rt ((demo_method [] ?outs)\<lparr>pm_layout := ?l\<rparr>) [TakeArgs (\<lambda>_. pass)] demo_state (\<lambda>_ _. 9) = Inr m' \<and>
    results_at m' ?l ?outs (\<lambda>i. replicate (size_of (?outs ! i)) 0)"
    by (rule mock_returns_zeros [OF layout_of_eq])
       (use str_err_steps in \<open>auto simp: demo_method_def less_Suc_eq scatterable_def pass_def ifaces_ok_def any_args_def\<close>)
  then show ?thesis
    using str_err_steps by (auto simp: results_at_def less_Suc_eq step_part_def stepAddr_def)
qed

lemma materializeArgs_nexti [simp]: "materializeArgs R l ins (s\<lparr>nexti := k\<rparr>) = materializeArgs R l ins s"
  by (simp add: materializeArgs_def argRegs_def buf_mem_def)

lemma val_bytes_fields [simp]: "val_bytes (s\<lparr>nexti := k\<rparr>) v = val_bytes s v" "val_bytes (s\<lparr>args := a\<rparr>) v = val_bytes s v"
  by (simp_all add: buf_mem_def val_bytes_def split: vmem.split buf.split)

text \<open>
  C19. A rewritten argument is what the target receives. \<open>SetArg(i, x)\<close> reads the arguments first and
  panics when that does (C7 says when). Otherwise the call goes through \<open>reflect\<close> with the arguments of
  the registers, except the i'th, which is \<open>x\<close>; an index that is not a parameter's panics.
\<close>
theorem rewritten_argument_reaches_target:
  assumes "newABILayout A (TFunc ins outs v) = Inr l" and "pm_ins M = ins" and "pm_layout M = l"
    and "targetFn M = Some f" and "args s = None" and "nexti s = 0"
  shows "case Args R l ins s of
      Inl e \<Rightarrow> Proceed R M [PutArg i x pass] s = Inl e
    | Inr (vs, s') \<Rightarrow> s' = s\<lparr>args := Some vs\<rparr> \<and> length vs = length ins \<and>
        Proceed R M [PutArg i x pass] s =
          (if i < length ins
           then res_bind (f ((map (\<lambda>v. (rv_type v, val_bytes s v)) vs)[i := (rv_type x, val_bytes s x)]))
             (\<lambda>outs. Inr (Some (map (\<lambda>(t, bs). Some \<lparr>rv_type = t, rv_mem = Own bs\<rparr>) outs),
                           s\<lparr>nexti := 1, args := Some (vs[i := x])\<rparr>))
           else Inl ''index out of range'')"
proof -
  from assms(1) obtain avs rvs where rel: "layout_rel A ins outs l avs rvs" by (rule layout_relE)
  let ?vs = "arg_vals R ins avs s" and ?s = "s\<lparr>nexti := 1\<rparr>"
  show ?thesis
  proof (cases "readable R ins avs s")
    case False
    then obtain e where e: "materializeArgs R l ins s = Inl e" using materializeArgs_eq(2) [OF rel] by blast
    then have "Args R l ins s = Inl e" "SetArg R l ins i x ?s = Inl e"
      using assms(5) by (simp_all add: Args_def SetArg_def)
    with assms(2,3,6) show ?thesis by (simp add: Proceed_unfold)
  next
    case True
    then have vs: "materializeArgs R l ins s = Inr ?vs" by (rule materializeArgs_eq(1) [OF rel])
    then have "SetArg R l ins i x ?s =
        (if i < length ins then Inr (?s\<lparr>args := Some (?vs[i := x])\<rparr>) else Inl ''index out of range'')"
      using assms(5) by (simp add: SetArg_def Args_def)
    moreover have "callTarget R M (?s\<lparr>args := Some vs'\<rparr>) =
        res_bind (f (map (\<lambda>v. (rv_type v, val_bytes s v)) vs'))
          (\<lambda>outs. Inr (Some (map (\<lambda>(t, bs). Some \<lparr>rv_type = t, rv_mem = Own bs\<rparr>) outs), ?s\<lparr>args := Some vs'\<rparr>))" for vs'
      using assms(4) by (auto simp: callTarget_def call_fn_def Args_def split: option.split)
    ultimately show ?thesis
      using assms(2,3,5,6) vs by (simp add: Proceed_unfold Args_def map_update)
  qed
qed

theorem rewritten_argument_reaches_target_witness:
  "\<exists>vs. Proceed demo_rt echo_method [PutArg 0 (lit (TPointer TInt) (replicate 8 3)) pass] demo_state =
     Inr (Some [Some (lit (TPointer TInt) (replicate 8 3))],
          demo_state\<lparr>nexti := 1, args := Some (vs[0 := lit (TPointer TInt) (replicate 8 3)])\<rparr>)"
proof -
  let ?l = "layout_of Amd64 ptr_sig ptr_sig" and ?x = "lit (TPointer TInt) (replicate 8 3)"
  have "materializeArgs demo_rt ?l ptr_sig demo_state =
      Inr [\<lparr>rv_type = TPointer TInt, rv_mem = At Live (AInts, 8)\<rparr>]"
    using ptr_sig_steps(1)
    by (simp add: materializeArgs_def materializeArg_def argRegs_def demo_state_def stepAddr_def)
  then have A: "Args demo_rt ?l ptr_sig demo_state =
      Inr ([\<lparr>rv_type = TPointer TInt, rv_mem = At Live (AInts, 8)\<rparr>],
           demo_state\<lparr>args := Some [\<lparr>rv_type = TPointer TInt, rv_mem = At Live (AInts, 8)\<rparr>]\<rparr>)"
    by (simp add: Args_def demo_state_def)
  from rewritten_argument_reaches_target [OF layout_of_eq [of Amd64 ptr_sig ptr_sig], of echo_method Inr demo_state demo_rt 0 ?x]
  have "Proceed demo_rt echo_method [PutArg 0 ?x pass] demo_state =
      Inr (Some [Some ?x], demo_state\<lparr>nexti := 1, args := Some ([\<lparr>rv_type = TPointer TInt, rv_mem = At Live (AInts, 8)\<rparr>][0 := ?x])\<rparr>)"
    unfolding A by (simp add: echo_method_def demo_method_def demo_state_def lit_def val_bytes_def)
  then show ?thesis by blast
qed

section \<open>Results and arguments the code gets wrong\<close>

lemma deliver_stored:
  "storeResults R (pm_layout M) (pm_outs M) rets s = Inr s' \<Longrightarrow>
   \<exists>f. deliver R M m (rets, s) = Inr ((live s')(AStack := f))"
  unfolding deliver_def by (simp add: Let_def) (rule exI, rule refl)

text \<open>
  A func result that is not nil arrives as its code pointer: \<open>writeScalar\<close> reads it with
  \<open>reflect.Value.Pointer\<close>, and the caller, which calls through a pointer to a closure, gets the address
  of the code instead.
\<close>
theorem func_result_is_its_code:
  assumes M: "pm_outs M = [t]" "t = TFunc i r v" and st: "stepsForValue (l_ret (pm_layout M)) 0 = Inr [st]"
    and kind: "step_kind st = StepPointer" "step_size st = 8"
    and P: "Proceed R M chain (entry_state M pooled m) = Inr (Some [Some x], s)"
    and x: "rv_type x = t" "rt_assignable R t t" "word_of (val_bytes s x) \<noteq> 0"
  shows "\<exists>m'. Dispatch R M chain pooled m = Inr m' \<and>
    rd m' (AInts, 8 * ireg st) 8 = le_bytes 8 (rt_code R (word_of (val_bytes s x)))"
proof -
  let ?w = "le_bytes 8 (rt_code R (word_of (val_bytes s x)))"
  have pick: "pick_result R [t] [Some x] 0 = x" using x by (simp add: pick_result_def)
  have addr: "stepAddr st = (AInts, 8 * ireg st)" using kind by (simp add: stepAddr_def)
  obtain s' where s': "scatterValue R x t [st] s = Inr s'" "live s' = wr (AInts, 8 * ireg st) ?w (live s)"
    using x kind M(2) by (simp add: scatterValue_def scatter_one_def write_at_ok addr Let_def)
  have "storeResults R (pm_layout M) [t] (Some [Some x]) s = Inr s'"
    using st pick s'(1) by (simp add: storeResults_def)
  with deliver_stored [of R M "Some [Some x]" s s' m] P M(1)
  have "\<exists>f. Dispatch R M chain pooled m = Inr ((live s')(AStack := f))" by (simp add: Dispatch_deliver)
  moreover have "rd ((live s')(AStack := f)) (AInts, 8 * ireg st) 8 = ?w" for f
    using rd_wr [of "(AInts, 8 * ireg st)" ?w "live s"] by (simp add: s'(2) rd_def)
  ultimately show ?thesis by blast
qed

text \<open>
  A complex64 result in registers arrives as two float64s: its caller reads the low half of the widened
  real and imaginary parts.
\<close>
theorem complex64_result_is_widened:
  assumes M: "pm_outs M = [TComplex64]" and st: "stepsForValue (l_ret (pm_layout M)) 0 = Inr [x, y]"
    and kind: "step_kind x = StepFloatReg" "step_kind y = StepFloatReg" "freg x < freg y"
    and P: "Proceed R M chain (entry_state M pooled m) = Inr (Some [Some z], s)"
    and z: "rv_type z = TComplex64" "rt_assignable R TComplex64 TComplex64"
    and wide: "\<forall>bs. length (rt_widen R bs) = 8"
  shows "\<exists>m'. Dispatch R M chain pooled m = Inr m' \<and>
    rd m' (AFloats, 8 * freg x) 8 = rt_widen R (take 4 (val_bytes s z)) \<and>
    rd m' (AFloats, 8 * freg y) 8 = rt_widen R (drop 4 (val_bytes s z))"
proof -
  let ?re = "rt_widen R (take 4 (val_bytes s z))" and ?im = "rt_widen R (drop 4 (val_bytes s z))"
  have pick: "pick_result R [TComplex64] [Some z] 0 = z" using z by (simp add: pick_result_def)
  have addr: "stepAddr x = (AFloats, 8 * freg x)" "stepAddr y = (AFloats, 8 * freg y)" using kind by (simp_all add: stepAddr_def)
  let ?s = "set_live (wr (AFloats, 8 * freg y) ?im) (set_live (wr (AFloats, 8 * freg x) ?re) s)"
  have "storeResults R (pm_layout M) [TComplex64] (Some [Some z]) s = Inr ?s"
    using st pick kind by (simp add: storeResults_def scatterValue_def addr Let_def)
  with deliver_stored [of R M "Some [Some z]" s ?s m] P M(1)
  have "\<exists>f. Dispatch R M chain pooled m = Inr ((live ?s)(AStack := f))" by (simp add: Dispatch_deliver)
  moreover have "rd (live ?s) (AFloats, 8 * freg y) 8 = ?im"
    using rd_wr [of "(AFloats, 8 * freg y)" ?im] wide by simp
  moreover have "rd (live ?s) (AFloats, 8 * freg x) 8 = ?re"
    using rd_wr_apart [of "(AFloats, 8 * freg y)" ?im "(AFloats, 8 * freg x)" 8] rd_wr [of "(AFloats, 8 * freg x)" ?re "live s"]
      kind(3) wide by (simp add: apart_def)
  moreover have "rd (m'(AStack := f)) (AFloats, p) 8 = rd m' (AFloats, p) 8" for m' f p by (simp add: rd_def)
  ultimately show ?thesis by auto
qed

text \<open>Both happen: with the register files of amd64, where the demo runtime's code pointers are apart from the funcs.\<close>

lemma wrong_results_happen:
  "\<exists>m'. Dispatch demo_rt (demo_method [] [TFunc [] [] False]) [Return (Some [Some (lit (TFunc [] [] False) (7 # replicate 7 0))])]
      demo_state m = Inr m' \<and> rd m' (AInts, 0) 8 = 8 # replicate 7 0"
proof -
  let ?t = "TFunc [] [] False" and ?bs = "7 # replicate 7 0 :: byte list"
  let ?M = "demo_method [] [?t]" and ?chain = "[Return (Some [Some (lit (TFunc [] [] False) (7 # replicate 7 0))])]"
  let ?st = "\<lparr>step_kind = StepPointer, step_offset = 0, step_size = 8, stkOff = 0, ireg = 0, freg = 0\<rparr>"
  have "stepsForValue (l_ret (pm_layout ?M)) 0 = Inr [?st]" by code_simp
  moreover have "word_of ?bs = 7" "le_bytes 8 8 = 8 # replicate 7 0" by code_simp+
  moreover have "Proceed demo_rt ?M ?chain (entry_state ?M demo_state m) =
      Inr (Some [Some (lit ?t ?bs)], entry_state ?M demo_state m\<lparr>nexti := 1\<rparr>)"
    by (simp add: Proceed_unfold entry_state_def)
  ultimately show ?thesis
    using func_result_is_its_code [of ?M ?t "[]" "[]" False ?st demo_rt ?chain demo_state m "lit ?t ?bs"
        "entry_state ?M demo_state m\<lparr>nexti := 1\<rparr>"]
    by (simp add: demo_method_def demo_rt_def lit_def val_bytes_def)
qed

text \<open>
  An argument described in place shares its register with the results: of the results 7, 8 and the
  first argument, the third is 8, whatever the argument was.
\<close>

definition reg_step :: "nat \<Rightarrow> step" where
  "reg_step i = \<lparr>step_kind = StepIntReg, step_offset = 0, step_size = 8, stkOff = 0, ireg = i, freg = 0\<rparr>"

lemma in_place_steps:
  "stepsForValue (l_call (layout_of Amd64 [TInt] [TInt, TInt, TInt])) 1 = Inr [reg_step 1]"
  "stepsForValue (l_ret (layout_of Amd64 [TInt] [TInt, TInt, TInt])) 0 = Inr [reg_step 0]"
  "stepsForValue (l_ret (layout_of Amd64 [TInt] [TInt, TInt, TInt])) 1 = Inr [reg_step 1]"
  "stepsForValue (l_ret (layout_of Amd64 [TInt] [TInt, TInt, TInt])) 2 = Inr [reg_step 2]"
  by code_simp+

lemma scatter_int:
  assumes "length (val_bytes s v) = 8" "rv_type v = TInt"
  shows "scatterValue R v TInt [reg_step i] s = Inr (s\<lparr>live := wr (AInts, 8 * i) (val_bytes s v) (live s)\<rparr>)"
  using assms le_bytes_int_word [of "val_bytes s v" 8]
  by (simp add: scatterValue_def scatter_one_def write_at_def writeWord_def stepAddr_def reg_step_def)

theorem in_place_argument_is_clobbered:
  "\<exists>m'. Dispatch demo_rt (demo_method [TInt] [TInt, TInt, TInt])
      [TakeArgs (\<lambda>vs. Return (Some [Some (lit TInt (7 # replicate 7 0)), Some (lit TInt (8 # replicate 7 0)), Some (vs ! 0)]))]
      demo_state m = Inr m' \<and> rd m' (AInts, 16) 8 = 8 # replicate 7 0"
proof -
  let ?M = "demo_method [TInt] [TInt, TInt, TInt]"
  let ?a = "\<lparr>rv_type = TInt, rv_mem = At Live (AInts, 8)\<rparr>"
  let ?rets = "[Some (lit TInt (7 # replicate 7 0)), Some (lit TInt (8 # replicate 7 0)), Some ?a]"
  define s where "s = (entry_state ?M demo_state m)\<lparr>nexti := 1, args := Some [?a]\<rparr>"
  define s1 where "s1 = s\<lparr>live := wr (AInts, 0) (7 # replicate 7 0) (live s)\<rparr>"
  define s2 where "s2 = s1\<lparr>live := wr (AInts, 8) (8 # replicate 7 0) (live s1)\<rparr>"
  define s3 where "s3 = s2\<lparr>live := wr (AInts, 16) (8 # replicate 7 0) (live s2)\<rparr>"
  have P: "Proceed demo_rt ?M [TakeArgs (\<lambda>vs. Return (Some [Some (lit TInt (7 # replicate 7 0)), Some (lit TInt (8 # replicate 7 0)), Some (vs ! 0)]))]
      (entry_state ?M demo_state m) = Inr (Some ?rets, s)"
    using in_place_steps(1)
    by (simp add: Proceed_unfold Args_def materializeArgs_def materializeArg_def demo_method_def entry_state_def
        argRegs_def stepAddr_def s_def reg_step_def)
  have bs: "val_bytes s (lit TInt (7 # replicate 7 0)) = 7 # replicate 7 0"
    "val_bytes s1 (lit TInt (8 # replicate 7 0)) = 8 # replicate 7 0" by (simp_all add: val_bytes_def lit_def)
  have al: "val_bytes s2 ?a = 8 # replicate 7 0"
    using rd_wr [of "(AInts, 8)" "8 # replicate 7 0" "live s1"] by (simp add: val_bytes_def buf_mem_def s2_def)
  have sc: "scatterValue demo_rt (lit TInt (7 # replicate 7 0)) TInt [reg_step 0] s = Inr s1"
    "scatterValue demo_rt (lit TInt (8 # replicate 7 0)) TInt [reg_step 1] s1 = Inr s2"
    "scatterValue demo_rt ?a TInt [reg_step 2] s2 = Inr s3"
    using scatter_int [of s "lit TInt (7 # replicate 7 0)"] scatter_int [of s1 "lit TInt (8 # replicate 7 0)"]
      scatter_int [of s2 ?a] bs al by (simp_all add: s1_def s2_def s3_def lit_def)
  have pick: "pick_result demo_rt [TInt, TInt, TInt] ?rets 0 = lit TInt (7 # replicate 7 0)"
    "pick_result demo_rt [TInt, TInt, TInt] ?rets 1 = lit TInt (8 # replicate 7 0)"
    "pick_result demo_rt [TInt, TInt, TInt] ?rets 2 = ?a"
    by (simp_all add: pick_result_def demo_rt_def lit_def)
  have "storeResults demo_rt (pm_layout ?M) (pm_outs ?M) (Some ?rets) s = Inr s3"
    using in_place_steps(2-4) pick sc by (simp add: storeResults_def demo_method_def upt_rec numeral_2_eq_2)
  with P have "Dispatch demo_rt ?M [TakeArgs (\<lambda>vs. Return (Some [Some (lit TInt (7 # replicate 7 0)), Some (lit TInt (8 # replicate 7 0)), Some (vs ! 0)]))]
      demo_state m = Inr ((live s3)(AStack := (\<lambda>x. if retOffset (pm_layout ?M) \<le> x \<and> x < stackBytes (pm_layout ?M)
                                              then live s3 AStack x else m AStack x)))"
    by (simp add: Dispatch_def Let_def)
  moreover have "rd ((live s3)(AStack := g)) (AInts, 16) 8 = 8 # replicate 7 0" for g
    using rd_wr [of "(AInts, 16)" "8 # replicate 7 0" "live s2"] by (simp add: s3_def rd_def)
  ultimately show ?thesis by blast
qed

end
