(* ===== verification/InterfaceCall.thy ===== *)
theory InterfaceCall
  imports BuildProps CallProps
begin

text \<open>
  A call through the interface value of a proxy, from the machine code the itab leads to, through
  \<open>Dispatch\<close> with its own parameters, back to the caller: the composition of the trampolines, the
  proxies and the invocation model.
\<close>

section \<open>Dispatch with its own parameters\<close>

text \<open>
  \<open>Dispatch\<close> returns the register file: pointers in the integer registers, then the floats, in the
  registers abi.go assigns to results of these types.
\<close>

definition dispatch_ret_steps :: "arch \<Rightarrow> step list" where
  "dispatch_ret_steps A =
     (case addArgs A (replicate (intArgRegs A) TUnsafePointer @ replicate (floatArgRegs A) TFloat64) empty_seq of
        Inr q \<Rightarrow> seq_steps q)"

definition ptr_reg :: "nat \<Rightarrow> step" where
  "ptr_reg i = \<lparr>step_kind = StepPointer, step_offset = 0, step_size = 8, stkOff = 0, ireg = i, freg = 0\<rparr>"

lemma dispatch_ret_steps_eq:
  "dispatch_ret_steps Amd64 = map ptr_reg [0..<9] @ map float_reg [0..<15]"
  "dispatch_ret_steps Arm64 = map ptr_reg [0..<16] @ map float_reg [0..<16]"
  by code_simp+

text \<open>A register file and a stack area as the memory of the invocation model.\<close>

definition file_of :: "(nat \<Rightarrow> 64 word) \<Rightarrow> (nat \<Rightarrow> 64 word) \<Rightarrow> (nat \<Rightarrow> byte) \<Rightarrow> mem" where
  "file_of ri rf st =
     (\<lambda>a x. case a of AInts \<Rightarrow> le_bytes 8 (ri (x div 8)) ! (x mod 8)
                    | AFloats \<Rightarrow> le_bytes 8 (rf (x div 8)) ! (x mod 8) | AStack \<Rightarrow> st x)"

text \<open>
  \<open>Dispatch\<close> on the list \<open>ps\<close> of its parameters (the index, the integer registers, the floats, the
  address of the stack area) with the caller's memory \<open>m\<close>: the receiver, in the first integer
  register, leads to the proxy, the index to its method.
\<close>

definition passed_file :: "arch \<Rightarrow> 64 word list \<Rightarrow> ram \<Rightarrow> mem" where
  "passed_file A ps m =
     file_of (\<lambda>i. if i < intArgRegs A then ps ! (1 + i) else 0)
       (\<lambda>i. if i < floatArgRegs A then ps ! (1 + intArgRegs A + i) else 0)
       (\<lambda>x. m (ps ! (1 + intArgRegs A + floatArgRegs A) + of_nat x))"

definition Dispatch_at ::
  "arch \<Rightarrow> goruntime \<Rightarrow> (64 word \<Rightarrow> proxy option) \<Rightarrow> callState \<Rightarrow> 64 word list \<Rightarrow> ram \<Rightarrow> (abiLayout \<times> mem) res"
where
  "Dispatch_at A R proxyAt pooled ps m =
     (case proxyAt (ps ! 1) of
        None \<Rightarrow> Inl ''invalid memory address or nil pointer dereference''
      | Some P \<Rightarrow>
          res_bind (method_at P (unat (ps ! 0))) (\<lambda>M.
            res_bind (Dispatch R (pm_method M) (px_chain P) pooled (passed_file A ps m)) (\<lambda>m'.
              Inr (pm_layout (pm_method M), m'))))"

definition dispatch_rets :: "arch \<Rightarrow> mem \<Rightarrow> 64 word list" where
  "dispatch_rets A m =
     map (\<lambda>i. word_of (rd m (AInts, 8 * i) 8)) [0..<intArgRegs A] @
     map (\<lambda>i. word_of (rd m (AFloats, 8 * i) 8)) [0..<floatArgRegs A]"

section \<open>What the stack area of the call may differ in\<close>

text \<open>\<open>Dispatch\<close> reads no byte of the stack area behind the arguments.\<close>

lemma entry_state_cong:
  assumes "m AInts = m1 AInts" "m AFloats = m1 AFloats" "\<forall>x < stackCallArgsSize (pm_layout M). m AStack x = m1 AStack x"
  shows "entry_state M pooled m = entry_state M pooled m1"
proof -
  let ?g = "\<lambda>m x. if x < stackCallArgsSize (pm_layout M) then m AStack x else live pooled AStack x"
  have "(m(AStack := ?g m)) a = (m1(AStack := ?g m1)) a" for a
    using assms by (cases a) auto
  then have "m(AStack := ?g m) = m1(AStack := ?g m1)" by blast
  moreover have "(\<lambda>i. rd m (AInts, 8 * i) 8) = (\<lambda>i. rd m1 (AInts, 8 * i) 8)" using assms(1) by (simp add: rd_def)
  ultimately show ?thesis by (simp add: entry_state_def fun_eq_iff)
qed

lemma Dispatch_cong:
  assumes "m AInts = m1 AInts" "m AFloats = m1 AFloats" "\<forall>x < stackCallArgsSize (pm_layout M). m AStack x = m1 AStack x"
    and "Dispatch R M chain pooled m = Inr m'"
  obtains m1' where "Dispatch R M chain pooled m1 = Inr m1'" "m1' AInts = m' AInts" "m1' AFloats = m' AFloats"
    "\<forall>x. retOffset (pm_layout M) \<le> x \<and> x < stackBytes (pm_layout M) \<longrightarrow> m1' AStack x = m' AStack x"
proof -
  obtain rets s s1 where s: "Proceed R M chain (entry_state M pooled m) = Inr (rets, s)"
    "storeResults R (pm_layout M) (pm_outs M) rets s = Inr s1"
    "m' = (live s1)(AStack := (\<lambda>x. if retOffset (pm_layout M) \<le> x \<and> x < stackBytes (pm_layout M) then live s1 AStack x else m AStack x))"
    using assms(4) by (auto simp: Dispatch_def res_bind_eq_Inr_iff Let_def)
  let ?m = "(live s1)(AStack := (\<lambda>x. if retOffset (pm_layout M) \<le> x \<and> x < stackBytes (pm_layout M) then live s1 AStack x else m1 AStack x))"
  have "Dispatch R M chain pooled m1 = Inr ?m"
    using s(1,2) entry_state_cong [OF assms(1-3), of pooled] by (simp add: Dispatch_def Let_def)
  then show thesis by (rule that) (simp_all add: s(3))
qed

lemma dispatch_rets_cong: "m AInts = m1 AInts \<Longrightarrow> m AFloats = m1 AFloats \<Longrightarrow> dispatch_rets A m = dispatch_rets A m1"
  by (simp add: dispatch_rets_def rd_def)

text \<open>
  The parameters a trampoline passes for method \<open>k\<close>, given the registers and the address of the area,
  when the words cleared in the area are those of result pointers.
\<close>

lemma Dispatch_at_passed:
  assumes ps: "ps = of_nat k # map ri [0..<intArgRegs A] @ map rf [0..<floatArgRegs A] @ [a]" "A \<noteq> OtherArch"
    and recv: "proxyAt (ri 0) = Some P" and M: "method_at P k = Inr M" "k < 2 ^ 64"
    and area: "\<forall>x < stackCallArgsSize (pm_layout (pm_method M)). m (a + of_nat x) = st x"
    and run: "Dispatch R (pm_method M) (px_chain P) pooled
      (file_of (\<lambda>i. if i < intArgRegs A then ri i else 0) (\<lambda>i. if i < floatArgRegs A then rf i else 0) st) = Inr m'"
  obtains m1' where "Dispatch_at A R proxyAt pooled ps m = Inr (pm_layout (pm_method M), m1')"
    "dispatch_rets A m1' = dispatch_rets A m'"
    "\<forall>x. retOffset (pm_layout (pm_method M)) \<le> x \<and> x < stackBytes (pm_layout (pm_method M)) \<longrightarrow> m1' AStack x = m' AStack x"
proof -
  let ?m = "file_of (\<lambda>i. if i < intArgRegs A then ri i else 0) (\<lambda>i. if i < floatArgRegs A then rf i else 0) st"
  have A: "0 < intArgRegs A" using ps(2) by (cases A) simp_all
  have p1: "ps ! 1 = ri 0" using A by (simp add: ps(1) nth_append)
  have i: "(\<lambda>i. if i < intArgRegs A then ps ! (1 + i) else 0) = (\<lambda>i. if i < intArgRegs A then ri i else 0)"
    "(\<lambda>i. if i < floatArgRegs A then ps ! (1 + intArgRegs A + i) else 0) = (\<lambda>i. if i < floatArgRegs A then rf i else 0)"
    "ps ! (1 + intArgRegs A + floatArgRegs A) = a"
    by (auto simp: ps(1) nth_append fun_eq_iff)
  have pf: "passed_file A ps m AInts = ?m AInts" "passed_file A ps m AFloats = ?m AFloats"
    "passed_file A ps m AStack x = m (a + of_nat x)" for x
    unfolding passed_file_def i by (simp_all add: file_of_def)
  have "\<forall>x < stackCallArgsSize (pm_layout (pm_method M)). ?m AStack x = passed_file A ps m AStack x"
    using area by (simp add: pf(3) file_of_def)
  from Dispatch_cong [OF pf(1,2) [symmetric] this run] obtain m1' where
    d: "Dispatch R (pm_method M) (px_chain P) pooled (passed_file A ps m) = Inr m1'" "m1' AInts = m' AInts"
    "m1' AFloats = m' AFloats"
    "\<forall>x. retOffset (pm_layout (pm_method M)) \<le> x \<and> x < stackBytes (pm_layout (pm_method M)) \<longrightarrow> m1' AStack x = m' AStack x" .
  have "unat (ps ! 0) = k" using M(2) by (simp add: ps(1))
  then have "Dispatch_at A R proxyAt pooled ps m = Inr (pm_layout (pm_method M), m1')"
    using recv M(1) d(1) p1 by (simp add: Dispatch_at_def)
  moreover have "dispatch_rets A m1' = dispatch_rets A m'" by (rule dispatch_rets_cong) (rule d(2,3))+
  ultimately show thesis using d(4) by (rule that)
qed

text \<open>Only words of result pointers are cleared, and they are behind the arguments.\<close>

lemma area_uncleared:
  assumes l: "newABILayout A (TFunc ins outs v) = Inr l" and d: "describes l sh" and x: "x < stackCallArgsSize l"
  shows "x < 8 * words sh" "\<not> (argWords sh \<le> x div 8 \<and> bit (retPtrs sh) (x div 8 - argWords sh))"
proof -
  have le: "stackCallArgsSize l \<le> retOffset l" "retOffset l \<le> stackBytes l" using stack_area_facts [OF l] by blast+
  then show w: "x < 8 * words sh" using x d by (simp add: describes_def)
  show "\<not> (argWords sh \<le> x div 8 \<and> bit (retPtrs sh) (x div 8 - argWords sh))"
  proof
    assume "argWords sh \<le> x div 8 \<and> bit (retPtrs sh) (x div 8 - argWords sh)"
    moreover have "x div 8 < words sh" using w by (simp add: less_mult_imp_div_less mult.commute)
    ultimately have "8 * (x div 8) \<in> set (retStackPtrOffs l)" using d by (simp add: describes_def)
    then have "retOffset l \<le> 8 * (x div 8)" using stack_pointer_facts [OF l] by blast
    with x le show False by linarith
  qed
qed

section \<open>What an itab entry leads to\<close>

text \<open>Entry \<open>k\<close> of the itab of a proxy is the code generated for the shape of method \<open>k\<close>.\<close>

lemma proxy_entry:
  assumes "supported F d (length (gi_methods t))" "ready F s" "target_ok t tgt" "NewOf F t tgt ixs s = Inr (P, s')"
    and k: "k < length (gi_methods t)" and M: "method_at P k = Inr M"
  obtains ins outs v sh code tab where "newABILayout (pf_arch F) (TFunc ins outs v) = Inr (pm_layout (pm_method M))"
    "sh_index sh = k" "describes (pm_layout (pm_method M)) sh" "words sh \<le> 60" "stackBytes (pm_layout (pm_method M)) < 2 ^ 40"
    "itabFun (if_tab (As P a)) (length (gi_methods t)) k = Inr (codePtr M)"
    "pf_gen F sh = Inr (code, tab)" "pages s' (codePtr M) = Some code"
proof -
  let ?l = "pm_layout (pm_method M)"
  note built = NewOf_built [OF assms(1-4)]
  have Mk: "px_methods P ! k = M" using M by (auto simp: method_at_def split: if_splits)
  obtain ins outs v where ty: "snd (gi_methods t ! k) = TFunc ins outs v" "newABILayout (pf_arch F) (TFunc ins outs v) = Inr ?l"
    using built(1) k Mk by (auto simp: proxy_ok_def method_ok_def)
  then have l: "newABILayout (pf_arch F) (snd (gi_methods t ! k)) = Inr ?l" by simp
  obtain sh where sh: "jitBySh s' sh = Some (codePtr M)" "sh_index sh = k" "describes ?l sh"
    "itabFun (px_itab P) (length (gi_methods t)) k = Inr (codePtr M)"
    using built_method [OF built(1) k l] unfolding Mk by metis
  have "cached_ok (pf_gen F) (pf_version F) (pf_quantum F) s' sh (codePtr M)"
    using built(2) sh(1) by (simp add: ready_def jit_ok_def)
  then obtain code tab where "pf_gen F sh = Inr (code, tab)" "pages s' (codePtr M) = Some code"
    unfolding cached_ok_def by blast
  moreover have "words sh \<le> 60" "stackBytes ?l < 2 ^ 40" using sh(3) by (simp_all add: describes_def)
  moreover have "if_tab (As P a) = px_itab P" by (simp add: As_def makeIface_def)
  ultimately show thesis using that ty(2) sh by metis
qed

section \<open>A call for the witnesses\<close>

text \<open>An interceptor that answers 42 to \<open>Len\<close>.\<close>

definition answer :: ix where
  "answer = Return (Some [Some (lit TInt [42, 0, 0, 0, 0, 0, 0, 0])])"

lemma len_steps:
  "stepsForValue (l_ret (layout_of Amd64 [] [TInt])) 0 =
     Inr [\<lparr>step_kind = StepIntReg, step_offset = 0, step_size = 8, stkOff = 0, ireg = 0, freg = 0\<rparr>]"
  "stepsForValue (l_ret (layout_of Arm64 [] [TInt])) 0 =
     Inr [\<lparr>step_kind = StepIntReg, step_offset = 0, step_size = 8, stkOff = 0, ireg = 0, freg = 0\<rparr>]"
  by code_simp+

lemma answer_42:
  assumes "A \<noteq> OtherArch" "pm_outs M = [TInt]" "pm_layout M = layout_of A [] [TInt]"
  obtains m where "Dispatch demo_rt M [answer] demo_state f = Inr m" "word_of (rd m (AInts, 0) 8) = 42"
proof -
  let ?rets = "[Some (lit TInt [42, 0, 0, 0, 0, 0, 0, 0])]"
  have P: "Proceed demo_rt M [answer] (entry_state M demo_state f) = Inr (Some ?rets, entry_state M demo_state f\<lparr>nexti := 1\<rparr>)"
    by (simp add: Proceed_unfold entry_state_def answer_def)
  have pick: "pick_result demo_rt [TInt] ?rets 0 = lit TInt [42, 0, 0, 0, 0, 0, 0, 0]"
    by (simp add: pick_result_def demo_rt_def lit_def)
  have st: "stepsForValue (l_ret (layout_of A [] [TInt])) 0 =
     Inr [\<lparr>step_kind = StepIntReg, step_offset = 0, step_size = 8, stkOff = 0, ireg = 0, freg = 0\<rparr>]"
    using assms(1) len_steps by (cases A) simp_all
  have "\<exists>m'. Dispatch demo_rt M [answer] demo_state f = Inr m' \<and>
    results_at m' (layout_of A [] [TInt]) [TInt] (\<lambda>i. wire_image demo_rt ([TInt] ! i) (rv_type (pick_result demo_rt [TInt] ?rets i))
                                (val_bytes (entry_state M demo_state f\<lparr>nexti := 1\<rparr>) (pick_result demo_rt [TInt] ?rets i)))"
    by (rule returned_results [OF layout_of_eq assms(2,3) P])
      (use pick st in \<open>auto simp: lit_def scatterable_def deliverable_def\<close>)
  then obtain m where m: "Dispatch demo_rt M [answer] demo_state f = Inr m" "rd m (AInts, 0) 8 = [42, 0, 0, 0, 0, 0, 0, 0]"
    using pick st by (auto simp: results_at_def lit_def wire_image_def val_bytes_def step_part_def stepAddr_def)
  moreover have "word_of [42, 0, 0, 0, 0, 0, 0, 0] = 42" by (simp add: word_of_def)
  ultimately show thesis using that by simp
qed

text \<open>The method \<open>Len\<close> of a proxy of the interface above.\<close>

lemma demo_len:
  assumes "supported (demo_platform A stubs) 0x123456 (length (gi_methods demo_iface))" "ready (demo_platform A stubs) s"
    "NewOf (demo_platform A stubs) demo_iface None ixs s = Inr (P, s')"
  obtains M where "method_at P 1 = Inr M" "pm_outs (pm_method M) = [TInt]" "pm_layout (pm_method M) = layout_of A [] [TInt]"
proof -
  have "proxy_ok A demo_iface P s'" using NewOf_built(1) [OF assms(1,2) demo_layout(3) assms(3)] by (simp add: demo_fields)
  then have "1 < length (px_methods P)" "method_ok A demo_iface 1 (px_methods P ! 1) s'"
    by (simp_all add: proxy_ok_def demo_layout(2))
  then have "method_at P 1 = Inr (px_methods P ! 1)" "pm_outs (pm_method (px_methods P ! 1)) = [TInt]"
    "pm_layout (pm_method (px_methods P ! 1)) = layout_of A [] [TInt]"
    using layout_of_eq [of A "[]" "[TInt]"] by (auto simp: method_at_def method_ok_def demo_iface_def)
  then show thesis by (rule that)
qed

section \<open>Calls on amd64\<close>

definition caller_file_amd64 :: "xstate \<Rightarrow> mem" where
  "caller_file_amd64 s =
     file_of (\<lambda>i. if i < 9 then xr s (goreg_amd64 i) else 0) (\<lambda>i. if i < 15 then xf s i else 0)
       (\<lambda>x. xm s (xr s 4 + 8 + of_nat x))"

text \<open>
  \<open>t\<close> is the state in which a call of \<open>Dispatch\<close> entered in \<open>c\<close> has returned: the caller's frame is
  intact, the results are in their registers, and the stack area holds what \<open>Dispatch\<close> left there.
\<close>

definition dispatch_returns_amd64 ::
  "goruntime \<Rightarrow> (64 word \<Rightarrow> proxy option) \<Rightarrow> callState \<Rightarrow> xstate \<Rightarrow> xstate \<Rightarrow> bool"
where
  "dispatch_returns_amd64 R proxyAt pooled c t \<longleftrightarrow>
     (let ps = map (step_value_amd64 c) (dispatch_steps Amd64)
      in case Dispatch_at Amd64 R proxyAt pooled ps (xm c) of
           Inl e \<Rightarrow> False
         | Inr (l, m) \<Rightarrow>
             keeps_frame_amd64 c t \<and> map (step_value_amd64 t) (dispatch_ret_steps Amd64) = dispatch_rets Amd64 m \<and>
             (\<forall>x < stackBytes l. xm t (last ps + of_nat x) = m AStack x))"

lemma ret_values_amd64:
  "map (step_value_amd64 t) (dispatch_ret_steps Amd64) = map (\<lambda>i. xr t (goreg_amd64 i)) [0..<9] @ map (xf t) [0..<15]"
  by (simp add: dispatch_ret_steps_eq step_value_amd64_def ptr_reg_def float_reg_def)

text \<open>\<open>Dispatch\<close> can return: its results in the registers and the area do not touch the frame.\<close>

definition go_return_amd64 :: "abiLayout \<Rightarrow> mem \<Rightarrow> xstate \<Rightarrow> xstate" where
  "go_return_amd64 l m c =
     c\<lparr>xr := fold (\<lambda>i f. f(goreg_amd64 i := word_of (rd m (AInts, 8 * i) 8))) [0..<9] (xr c),
       xf := (\<lambda>i. word_of (rd m (AFloats, 8 * i) 8)),
       xm := (\<lambda>y. if unat (y - (xr c 4 + 0xe0)) < stackBytes l then m AStack (unat (y - (xr c 4 + 0xe0))) else xm c y)\<rparr>"

text \<open>The area starts at or behind the words read, so that a write to it does not reach them.\<close>

lemma load64_below:
  fixes b :: "64 word"
  assumes "j + 8 \<le> n" "n < 2 ^ 40" "w < 2 ^ 40"
  shows "load64 (\<lambda>y. if unat (y - (b + of_nat n)) < w then f y else m y) (b + of_nat j) = load64 m (b + of_nat j)"
proof (rule load64_cong)
  fix k :: nat assume k: "k < 8"
  have "unat (b + of_nat (j + k) - (b + of_nat n)) = (if n \<le> j + k then j + k - n else j + k + 2 ^ 64 - n)"
    by (rule unat_offset) (use assms k in auto)
  then have "\<not> unat (b + of_nat (j + k) - (b + of_nat n)) < w" using assms k by auto
  then show "(if unat (b + of_nat j + of_nat k - (b + of_nat n)) < w then f (b + of_nat j + of_nat k) else m (b + of_nat j + of_nat k)) =
      m (b + of_nat j + of_nat k)" by (simp add: add.assoc)
qed

lemma dispatch_can_return_amd64:
  assumes "Dispatch_at Amd64 R proxyAt pooled (map (step_value_amd64 c) (dispatch_steps Amd64)) (xm c) = Inr (l, m)"
    and "last (map (step_value_amd64 c) (dispatch_steps Amd64)) = xr c 4 + 0xe0" and "stackBytes l < 2 ^ 40"
  shows "dispatch_returns_amd64 R proxyAt pooled c (go_return_amd64 l m c)"
proof -
  let ?t = "go_return_amd64 l m c"
  have "keeps_frame_amd64 c ?t"
    using load64_below [where j = "0xd0" and n = "0xe0" and w = "stackBytes l" and b = "xr c 4"]
      load64_below [where j = "0xd8" and n = "0xe0" and w = "stackBytes l" and b = "xr c 4"] assms(3)
    by (simp add: keeps_frame_amd64_def go_return_amd64_def goreg_amd64_def upt_rec)
  moreover have "map (step_value_amd64 ?t) (dispatch_ret_steps Amd64) = dispatch_rets Amd64 m"
    by (simp add: ret_values_amd64 dispatch_rets_def go_return_amd64_def goreg_amd64_def upt_rec)
  moreover have "xm ?t (xr c 4 + 0xe0 + of_nat x) = m AStack x" if "x < stackBytes l" for x
    using that assms(3) by (simp add: go_return_amd64_def unat_of_nat_64)
  ultimately show ?thesis using assms(1) by (simp add: dispatch_returns_amd64_def Let_def assms(2))
qed

text \<open>The call of \<open>Dispatch\<close> sees the caller's registers and area as its parameters.\<close>

lemma passed_amd64:
  assumes c: "enters_dispatch_amd64 sh r c" and sh: "sh_index sh = k" "describes (pm_layout (pm_method M)) sh"
    and l: "newABILayout Amd64 (TFunc ins outs v) = Inr (pm_layout (pm_method M))" and k: "k < 2 ^ 64"
    and P: "proxyAt (xr r 0) = Some P" "method_at P k = Inr M"
    and run: "Dispatch R (pm_method M) (px_chain P) pooled (caller_file_amd64 r) = Inr m"
  obtains m1 where "Dispatch_at Amd64 R proxyAt pooled (map (step_value_amd64 c) (dispatch_steps Amd64)) (xm c) =
      Inr (pm_layout (pm_method M), m1)"
    "dispatch_rets Amd64 m1 = dispatch_rets Amd64 m"
    "\<forall>x. retOffset (pm_layout (pm_method M)) \<le> x \<and> x < stackBytes (pm_layout (pm_method M)) \<longrightarrow> m1 AStack x = m AStack x"
    "last (map (step_value_amd64 c) (dispatch_steps Amd64)) = xr r 4 + 8"
proof -
  let ?l = "pm_layout (pm_method M)"
  let ?ps = "map (step_value_amd64 c) (dispatch_steps Amd64)"
  have ps: "?ps = of_nat k # map (\<lambda>i. xr r (goreg_amd64 i)) [0..<intArgRegs Amd64] @ map (xf r) [0..<floatArgRegs Amd64] @ [xr r 4 + 8]"
    using c sh(1) by (simp add: enters_dispatch_amd64_def)
  have area: "\<forall>x < stackCallArgsSize ?l. xm c (xr r 4 + 8 + of_nat x) = xm r (xr r 4 + 8 + of_nat x)"
  proof (intro allI impI)
    fix x assume "x < stackCallArgsSize ?l"
    note u = area_uncleared [OF l sh(2) this]
    show "xm c (xr r 4 + 8 + of_nat x) = xm r (xr r 4 + 8 + of_nat x)"
      using c u(1) unfolding enters_dispatch_amd64_def if_not_P [OF u(2)] by (metis u(2))
  qed
  have rc: "proxyAt (xr r (goreg_amd64 0)) = Some P" using P(1) by (simp add: goreg_amd64_def)
  have run': "Dispatch R (pm_method M) (px_chain P) pooled
      (file_of (\<lambda>i. if i < intArgRegs Amd64 then xr r (goreg_amd64 i) else 0)
         (\<lambda>i. if i < floatArgRegs Amd64 then xf r i else 0) (\<lambda>x. xm r (xr r 4 + 8 + of_nat x))) = Inr m"
    using run by (simp add: caller_file_amd64_def)
  obtain m1 where "Dispatch_at Amd64 R proxyAt pooled ?ps (xm c) = Inr (?l, m1)"
    "dispatch_rets Amd64 m1 = dispatch_rets Amd64 m"
    "\<forall>x. retOffset ?l \<le> x \<and> x < stackBytes ?l \<longrightarrow> m1 AStack x = m AStack x"
    using Dispatch_at_passed [where A = Amd64 and ps = ?ps and k = k and proxyAt = proxyAt and ri = "\<lambda>i. xr r (goreg_amd64 i)" and rf = "xf r" and
          a = "xr r 4 + 8" and m = "xm c" and st = "\<lambda>x. xm r (xr r 4 + 8 + of_nat x)", OF ps arch.distinct(3) rc P(2) k area run'] .
  then show thesis by (rule that) (simp add: ps)
qed

text \<open>What is in the results' registers and part of the area once the trampoline has returned.\<close>

lemma results_amd64:
  assumes "dispatch_returns_amd64 R proxyAt pooled c u"
    and "Dispatch_at Amd64 R proxyAt pooled (map (step_value_amd64 c) (dispatch_steps Amd64)) (xm c) = Inr (l, m1)"
    and "last (map (step_value_amd64 c) (dispatch_steps Amd64)) = b"
    and t: "xr t = (xr u)(4 := x4, 5 := x5)" "xf t = xf u" "xm t = xm u"
  shows "map (\<lambda>i. xr t (goreg_amd64 i)) [0..<9] @ map (xf t) [0..<15] = dispatch_rets Amd64 m1"
    and "x < stackBytes l \<Longrightarrow> xm t (b + of_nat x) = m1 AStack x"
proof -
  have u: "map (step_value_amd64 u) (dispatch_ret_steps Amd64) = dispatch_rets Amd64 m1"
    "\<forall>x < stackBytes l. xm u (b + of_nat x) = m1 AStack x"
    using assms(1,2) unfolding dispatch_returns_amd64_def Let_def assms(3) by simp_all
  have "map (\<lambda>i. xr t (goreg_amd64 i)) [0..<9] = map (\<lambda>i. xr u (goreg_amd64 i)) [0..<9]"
    by (simp add: t(1) goreg_amd64_def upt_rec)
  then show "map (\<lambda>i. xr t (goreg_amd64 i)) [0..<9] @ map (xf t) [0..<15] = dispatch_rets Amd64 m1"
    using u(1) t(2) by (simp only: ret_values_amd64)
  show "x < stackBytes l \<Longrightarrow> xm t (b + of_nat x) = m1 AStack x" using u(2) t(3) by simp
qed

lemma dispatch_returns_keeps_amd64:
  "dispatch_returns_amd64 R proxyAt pooled c t \<Longrightarrow> keeps_frame_amd64 c t"
  by (auto simp: dispatch_returns_amd64_def Let_def split: sum.splits)

text \<open>
  C1. A call through the interface value of a proxy, on amd64: the caller loads entry \<open>k\<close> of the itab
  and calls it with the receiver, the argument registers and its stack area. The code there reaches a
  call of \<open>Dispatch\<close>, and when that call has returned, the code returns to the caller with the stack and
  frame pointer the caller expects, in its result registers and in the results' part of its stack area
  exactly what the interceptors and the target of method \<open>k\<close> made of the caller's registers and area.
\<close>
theorem interface_call_amd64:
  assumes "supported F d (length (gi_methods t))" "ready F s" "target_ok t tgt" "NewOf F t tgt ixs s = Inr (P, s')"
    and "pf_arch F = Amd64" and k: "k < length (gi_methods t)" and M: "method_at P k = Inr M"
    and recv: "proxyAt a = Some P" "xr r 0 = if_data (As P a)"
    and run: "Dispatch R (pm_method M) ixs pooled (caller_file_amd64 r) = Inr m"
  shows "\<exists>p code c pc n. itabFun (if_tab (As P a)) (length (gi_methods t)) k = Inr p \<and> pages s' p = Some code \<and>
    (\<forall>callee. run_code decode_x86 (exec_x86 callee) n code (0, r) = Some (pc, c) \<and>
       decode_x86 (drop pc code) = Some (XCall 12, 3) \<and> xr c 12 = d) \<and>
    (\<exists>t. dispatch_returns_amd64 R proxyAt pooled c t) \<and>
    (\<forall>callee. dispatch_returns_amd64 R proxyAt pooled c (callee d c) \<longrightarrow>
       (\<exists>r'. run_code decode_x86 (exec_x86 callee) (n + 4) code (0, r) = Some (length code, r') \<and>
             xr r' 4 = xr r 4 + 8 \<and> xr r' 5 = xr r 5 \<and> load64 (xm r') (xr r 4) = load64 (xm r) (xr r 4) \<and>
             map (\<lambda>i. xr r' (goreg_amd64 i)) [0..<9] @ map (xf r') [0..<15] = dispatch_rets Amd64 m \<and>
             (\<forall>x. retOffset (pm_layout (pm_method M)) \<le> x \<and> x < stackBytes (pm_layout (pm_method M)) \<longrightarrow>
                xm r' (xr r 4 + 8 + of_nat x) = m AStack x)))"
proof -
  let ?l = "pm_layout (pm_method M)"
  obtain ins outs v sh code tab where l: "newABILayout (pf_arch F) (TFunc ins outs v) = Inr ?l"
    and sh: "sh_index sh = k" "describes ?l sh" "words sh \<le> 60" "stackBytes ?l < 2 ^ 40"
    and tab: "itabFun (if_tab (As P a)) (length (gi_methods t)) k = Inr (codePtr M)"
    and code: "pf_gen F sh = Inr (code, tab)" "pages s' (codePtr M) = Some code"
    by (rule proxy_entry [OF assms(1-4) k M])
  have gen: "pf_gen F = (\<lambda>sh. jitStubCode_amd64 sh d)" "uint d < 2 ^ 63" "length (gi_methods t) \<le> 2 ^ 31"
    using assms(1,5) by (auto simp: supported_def)
  have fits: "stub_fits sh d" "words sh \<le> 2 ^ 20" using gen(2,3) sh k by (simp_all add: stub_fits_def)
  have stub: "jitStubCode_amd64 sh d = Inr (code, tab)" using code(1) gen(1) by simp
  obtain c pc n where cs: "c = call_state sh d r" and
    runs: "\<And>callee. run_code decode_x86 (exec_x86 callee) n code (0, r) = Some (pc, c)"
      "decode_x86 (drop pc code) = Some (XCall 12, 3)" "xr c 12 = d"
      "\<And>callee. keeps_frame_amd64 c (callee d c) \<Longrightarrow>
          (\<exists>t. run_code decode_x86 (exec_x86 callee) (n + 4) code (0, r) = Some (length code, t) \<and>
             xr t = (xr (callee d c))(4 := xr r 4 + 8, 5 := xr r 5) \<and> xf t = xf (callee d c) \<and>
             xm t = xm (callee d c) \<and> load64 (xm t) (xr r 4) = load64 (xm r) (xr r 4))"
    using stub_run_amd64 [OF fits(1) stub, of r] by blast
  have "enters_dispatch_amd64 sh r c" unfolding cs using fits(2) by (rule enters_dispatch_amd64_call_state)
  moreover have "newABILayout Amd64 (TFunc ins outs v) = Inr ?l" "k < 2 ^ 64" using l assms(5) k gen(3) by simp_all
  moreover have "proxyAt (xr r 0) = Some P" using recv by (simp add: As_def makeIface_def)
  moreover have "Dispatch R (pm_method M) (px_chain P) pooled (caller_file_amd64 r) = Inr m"
    using run NewOf_InrD(6) [OF assms(4)] by simp
  ultimately obtain m1 where m1:
    "Dispatch_at Amd64 R proxyAt pooled (map (step_value_amd64 c) (dispatch_steps Amd64)) (xm c) = Inr (?l, m1)"
    "dispatch_rets Amd64 m1 = dispatch_rets Amd64 m"
    "\<forall>x. retOffset ?l \<le> x \<and> x < stackBytes ?l \<longrightarrow> m1 AStack x = m AStack x"
    "last (map (step_value_amd64 c) (dispatch_steps Amd64)) = xr r 4 + 8"
    using passed_amd64 [OF _ sh(1,2) _ _ _ M] by metis
  have returns: "\<exists>r'. run_code decode_x86 (exec_x86 callee) (n + 4) code (0, r) = Some (length code, r') \<and>
             xr r' 4 = xr r 4 + 8 \<and> xr r' 5 = xr r 5 \<and> load64 (xm r') (xr r 4) = load64 (xm r) (xr r 4) \<and>
             map (\<lambda>i. xr r' (goreg_amd64 i)) [0..<9] @ map (xf r') [0..<15] = dispatch_rets Amd64 m \<and>
             (\<forall>x. retOffset ?l \<le> x \<and> x < stackBytes ?l \<longrightarrow> xm r' (xr r 4 + 8 + of_nat x) = m AStack x)"
    if ret: "dispatch_returns_amd64 R proxyAt pooled c (callee d c)" for callee
  proof -
    obtain t where t: "run_code decode_x86 (exec_x86 callee) (n + 4) code (0, r) = Some (length code, t)"
      "xr t = (xr (callee d c))(4 := xr r 4 + 8, 5 := xr r 5)" "xf t = xf (callee d c)" "xm t = xm (callee d c)"
      "load64 (xm t) (xr r 4) = load64 (xm r) (xr r 4)"
      using runs(4) [of callee, OF dispatch_returns_keeps_amd64 [OF ret]] by blast
    from results_amd64 [OF ret m1(1,4) t(2-4)] m1(2,3) show ?thesis using t by (intro exI [of _ t]) simp
  qed
  have "xr c 4 + 0xe0 = xr r 4 + 8" by (simp add: cs call_state_def call_regs_def)
  then have can: "\<exists>t. dispatch_returns_amd64 R proxyAt pooled c t"
    using dispatch_can_return_amd64 [OF m1(1)] m1(4) sh(4) by auto
  show ?thesis
    using tab code(2) runs(1-3) returns can
    by (intro exI [of _ "codePtr M"] exI [of _ code] exI [of _ c] exI [of _ pc] exI [of _ n]) simp
qed

lemma interface_call_amd64_witness:
  "\<exists>stubs s P s' p code n callee r'. NewOf (demo_platform Amd64 stubs) demo_iface None [answer] s = Inr (P, s') \<and>
     itabFun (if_tab (As P 0x1000)) 2 1 = Inr p \<and> pages s' p = Some code \<and>
     run_code decode_x86 (exec_x86 callee) n code (0, \<lparr>xr = \<lambda>_. 0x1000, xf = \<lambda>_. 7, xm = \<lambda>_. 1\<rparr>) =
       Some (length code, r') \<and> xr r' 0 = 42 \<and> xr r' 4 = 0x1008"
proof -
  let ?r = "\<lparr>xr = \<lambda>_. 0x1000, xf = \<lambda>_. 7, xm = \<lambda>_. 1\<rparr>"
  obtain stubs s P s' where b: "supported (demo_platform Amd64 stubs) 0x123456 (length (gi_methods demo_iface))"
    "ready (demo_platform Amd64 stubs) s" "NewOf (demo_platform Amd64 stubs) demo_iface None [answer] s = Inr (P, s')"
    by (rule demo_built [of Amd64 "[answer]"]) simp
  obtain M where M: "method_at P 1 = Inr M" "pm_outs (pm_method M) = [TInt]" "pm_layout (pm_method M) = layout_of Amd64 [] [TInt]"
    by (rule demo_len [OF b])
  obtain m where m: "Dispatch demo_rt (pm_method M) [answer] demo_state (caller_file_amd64 ?r) = Inr m"
    "word_of (rd m (AInts, 0) 8) = 42"
    by (rule answer_42 [OF _ M(2,3)]) simp
  have F: "pf_arch (demo_platform Amd64 stubs) = Amd64" by (simp add: demo_fields)
  have k: "1 < length (gi_methods demo_iface)" by (simp add: demo_layout)
  have a: "(if (0x1000 :: 64 word) = 0x1000 then Some P else None) = Some P" by simp
  have r0: "xr ?r 0 = if_data (As P 0x1000)" by (simp add: As_def makeIface_def)
  from interface_call_amd64 [where proxyAt = "\<lambda>x. if x = 0x1000 then Some P else None",
      OF b(1,2) demo_layout(3) b(3) F k M(1) a r0 m(1)]
  obtain p and code :: "byte list" and c pc n t where p: "itabFun (if_tab (As P 0x1000)) 2 1 = Inr p" "pages s' p = Some code"
    and t: "dispatch_returns_amd64 demo_rt (\<lambda>x. if x = 0x1000 then Some P else None) demo_state c t"
    and returns: "\<And>callee. dispatch_returns_amd64 demo_rt (\<lambda>x. if x = 0x1000 then Some P else None) demo_state c (callee 0x123456 c) \<Longrightarrow>
       \<exists>r'. run_code decode_x86 (exec_x86 callee) (n + 4) code (0, ?r) = Some (length code, r') \<and> xr r' 4 = 0x1008 \<and>
             map (\<lambda>i. xr r' (goreg_amd64 i)) [0..<9] @ map (xf r') [0..<15] = dispatch_rets Amd64 m"
    unfolding demo_layout(2) by (elim exE conjE) (simp, blast)
  from returns [of "\<lambda>_ _. t", OF t] obtain r' where
    r': "run_code decode_x86 (exec_x86 (\<lambda>_ _. t)) (n + 4) code (0, ?r) = Some (length code, r')" "xr r' 4 = 0x1008"
    "map (\<lambda>i. xr r' (goreg_amd64 i)) [0..<9] @ map (xf r') [0..<15] = dispatch_rets Amd64 m" by blast
  from r'(3) have "xr r' 0 = 42" using m(2) by (simp add: dispatch_rets_def goreg_amd64_def upt_rec)
  with p r'(1,2) b(3) show ?thesis by blast
qed

section \<open>Calls on arm64\<close>

definition caller_file_arm64 :: "astate \<Rightarrow> mem" where
  "caller_file_arm64 s =
     file_of (\<lambda>i. if i < 16 then ar s i else 0) (\<lambda>i. if i < 16 then af s i else 0)
       (\<lambda>x. am s (asp s + 8 + of_nat x))"

definition dispatch_returns_arm64 ::
  "goruntime \<Rightarrow> (64 word \<Rightarrow> proxy option) \<Rightarrow> callState \<Rightarrow> astate \<Rightarrow> astate \<Rightarrow> bool"
where
  "dispatch_returns_arm64 R proxyAt pooled c t \<longleftrightarrow>
     (let ps = map (step_value_arm64 c) (dispatch_steps Arm64)
      in case Dispatch_at Arm64 R proxyAt pooled ps (am c) of
           Inl e \<Rightarrow> False
         | Inr (l, m) \<Rightarrow>
             keeps_frame_arm64 c t \<and> map (step_value_arm64 t) (dispatch_ret_steps Arm64) = dispatch_rets Arm64 m \<and>
             (\<forall>x < stackBytes l. am t (last ps + of_nat x) = m AStack x))"

lemma ret_values_arm64:
  "map (step_value_arm64 t) (dispatch_ret_steps Arm64) = map (ar t) [0..<16] @ map (af t) [0..<16]"
  by (simp add: dispatch_ret_steps_eq step_value_arm64_def ptr_reg_def float_reg_def)

definition go_return_arm64 :: "abiLayout \<Rightarrow> mem \<Rightarrow> astate \<Rightarrow> astate" where
  "go_return_arm64 l m c =
     c\<lparr>ar := (\<lambda>i. if i < 16 then word_of (rd m (AInts, 8 * i) 8) else ar c i),
       af := (\<lambda>i. word_of (rd m (AFloats, 8 * i) 8)),
       am := (\<lambda>y. if unat (y - (asp c + 296)) < stackBytes l then m AStack (unat (y - (asp c + 296))) else am c y)\<rparr>"

lemma dispatch_can_return_arm64:
  assumes "Dispatch_at Arm64 R proxyAt pooled (map (step_value_arm64 c) (dispatch_steps Arm64)) (am c) = Inr (l, m)"
    and "last (map (step_value_arm64 c) (dispatch_steps Arm64)) = asp c + 296" and "stackBytes l < 2 ^ 40"
  shows "dispatch_returns_arm64 R proxyAt pooled c (go_return_arm64 l m c)"
proof -
  let ?t = "go_return_arm64 l m c"
  have "keeps_frame_arm64 c ?t"
    using load64_below [where j = 0 and n = 304 and w = "stackBytes l" and b = "asp c - 8"]
      load64_below [where j = 8 and n = 304 and w = "stackBytes l" and b = "asp c - 8"] assms(3)
    by (simp add: keeps_frame_arm64_def go_return_arm64_def add.commute)
  moreover have "map (step_value_arm64 ?t) (dispatch_ret_steps Arm64) = dispatch_rets Arm64 m"
    by (simp add: ret_values_arm64 dispatch_rets_def go_return_arm64_def)
  moreover have "am ?t (asp c + 296 + of_nat x) = m AStack x" if "x < stackBytes l" for x
    using that assms(3) by (simp add: go_return_arm64_def unat_of_nat_64)
  ultimately show ?thesis using assms(1) by (simp add: dispatch_returns_arm64_def Let_def assms(2))
qed

lemma passed_arm64:
  assumes c: "enters_dispatch_arm64 sh r c" and sh: "sh_index sh = k" "describes (pm_layout (pm_method M)) sh"
    and l: "newABILayout Arm64 (TFunc ins outs v) = Inr (pm_layout (pm_method M))" and k: "k < 2 ^ 64"
    and P: "proxyAt (ar r 0) = Some P" "method_at P k = Inr M"
    and run: "Dispatch R (pm_method M) (px_chain P) pooled (caller_file_arm64 r) = Inr m"
  obtains m1 where "Dispatch_at Arm64 R proxyAt pooled (map (step_value_arm64 c) (dispatch_steps Arm64)) (am c) =
      Inr (pm_layout (pm_method M), m1)"
    "dispatch_rets Arm64 m1 = dispatch_rets Arm64 m"
    "\<forall>x. retOffset (pm_layout (pm_method M)) \<le> x \<and> x < stackBytes (pm_layout (pm_method M)) \<longrightarrow> m1 AStack x = m AStack x"
    "last (map (step_value_arm64 c) (dispatch_steps Arm64)) = asp r + 8"
proof -
  let ?l = "pm_layout (pm_method M)"
  let ?ps = "map (step_value_arm64 c) (dispatch_steps Arm64)"
  have ps: "?ps = of_nat k # map (ar r) [0..<intArgRegs Arm64] @ map (af r) [0..<floatArgRegs Arm64] @ [asp r + 8]"
    using c sh(1) by (simp add: enters_dispatch_arm64_def)
  have area: "\<forall>x < stackCallArgsSize ?l. am c (asp r + 8 + of_nat x) = am r (asp r + 8 + of_nat x)"
  proof (intro allI impI)
    fix x assume "x < stackCallArgsSize ?l"
    note u = area_uncleared [OF l sh(2) this]
    show "am c (asp r + 8 + of_nat x) = am r (asp r + 8 + of_nat x)"
      using c u(1) unfolding enters_dispatch_arm64_def if_not_P [OF u(2)] by (metis u(2))
  qed
  have rc: "proxyAt (ar r 0) = Some P" using P(1) .
  have run': "Dispatch R (pm_method M) (px_chain P) pooled
      (file_of (\<lambda>i. if i < intArgRegs Arm64 then ar r i else 0)
         (\<lambda>i. if i < floatArgRegs Arm64 then af r i else 0) (\<lambda>x. am r (asp r + 8 + of_nat x))) = Inr m"
    using run by (simp add: caller_file_arm64_def)
  obtain m1 where "Dispatch_at Arm64 R proxyAt pooled ?ps (am c) = Inr (?l, m1)"
    "dispatch_rets Arm64 m1 = dispatch_rets Arm64 m"
    "\<forall>x. retOffset ?l \<le> x \<and> x < stackBytes ?l \<longrightarrow> m1 AStack x = m AStack x"
    using Dispatch_at_passed [where A = Arm64 and ps = ?ps and k = k and proxyAt = proxyAt and ri = "ar r" and rf = "af r" and
          a = "asp r + 8" and m = "am c" and st = "\<lambda>x. am r (asp r + 8 + of_nat x)", OF ps arch.distinct(5) rc P(2) k area run'] .
  then show thesis by (rule that) (simp add: ps)
qed

lemma results_arm64:
  assumes "dispatch_returns_arm64 R proxyAt pooled c u"
    and "Dispatch_at Arm64 R proxyAt pooled (map (step_value_arm64 c) (dispatch_steps Arm64)) (am c) = Inr (l, m1)"
    and "last (map (step_value_arm64 c) (dispatch_steps Arm64)) = b"
    and t: "ar t = (ar u)(29 := y29, 30 := y30)" "af t = af u" "am t = am u"
  shows "map (ar t) [0..<16] @ map (af t) [0..<16] = dispatch_rets Arm64 m1"
    and "x < stackBytes l \<Longrightarrow> am t (b + of_nat x) = m1 AStack x"
proof -
  have u: "map (step_value_arm64 u) (dispatch_ret_steps Arm64) = dispatch_rets Arm64 m1"
    "\<forall>x < stackBytes l. am u (b + of_nat x) = m1 AStack x"
    using assms(1,2) unfolding dispatch_returns_arm64_def Let_def assms(3) by simp_all
  have "map (ar t) [0..<16] = map (ar u) [0..<16]"
    by (simp add: t(1))
  then show "map (ar t) [0..<16] @ map (af t) [0..<16] = dispatch_rets Arm64 m1"
    using u(1) t(2) by (simp only: ret_values_arm64)
  show "x < stackBytes l \<Longrightarrow> am t (b + of_nat x) = m1 AStack x" using u(2) t(3) by simp
qed

lemma dispatch_returns_keeps_arm64:
  "dispatch_returns_arm64 R proxyAt pooled c t \<Longrightarrow> keeps_frame_arm64 c t"
  by (auto simp: dispatch_returns_arm64_def Let_def split: sum.splits)

text \<open>
  C3. The same call on arm64: the code the itab leads to reaches a call of \<open>Dispatch\<close> with the caller's
  registers and area, and when that call has returned, it returns to the caller with stack pointer,
  frame pointer and link register restored and, in the result registers and the results' part of the
  area, exactly what the interceptors and the target of method \<open>k\<close> made of them.
\<close>
theorem interface_call_arm64:
  assumes "supported F d (length (gi_methods t))" "ready F s" "target_ok t tgt" "NewOf F t tgt ixs s = Inr (P, s')"
    and "pf_arch F = Arm64" and k: "k < length (gi_methods t)" and M: "method_at P k = Inr M"
    and recv: "proxyAt a = Some P" "ar r 0 = if_data (As P a)"
    and run: "Dispatch R (pm_method M) ixs pooled (caller_file_arm64 r) = Inr m"
  shows "\<exists>p code c pc n. itabFun (if_tab (As P a)) (length (gi_methods t)) k = Inr p \<and> pages s' p = Some code \<and>
    (\<forall>callee. run_code decode_a64 (exec_a64 callee) n code (0, r) = Some (pc, c) \<and>
       decode_a64 (drop pc code) = Some (ABlr 16, 4) \<and> ar c 16 = d) \<and>
    (\<exists>t. dispatch_returns_arm64 R proxyAt pooled c t) \<and>
    (\<forall>callee. dispatch_returns_arm64 R proxyAt pooled c (callee d c) \<longrightarrow>
       (\<exists>r'. run_code decode_a64 (exec_a64 callee) (n + 4) code (0, r) = Some (length code, r') \<and>
             asp r' = asp r \<and> ar r' 29 = ar r 29 \<and> ar r' 30 = ar r 30 \<and>
             map (ar r') [0..<16] @ map (af r') [0..<16] = dispatch_rets Arm64 m \<and>
             (\<forall>x. retOffset (pm_layout (pm_method M)) \<le> x \<and> x < stackBytes (pm_layout (pm_method M)) \<longrightarrow>
                am r' (asp r + 8 + of_nat x) = m AStack x)))"
proof -
  let ?l = "pm_layout (pm_method M)"
  obtain ins outs v sh code tab where l: "newABILayout (pf_arch F) (TFunc ins outs v) = Inr ?l"
    and sh: "sh_index sh = k" "describes ?l sh" "words sh \<le> 60" "stackBytes ?l < 2 ^ 40"
    and tab: "itabFun (if_tab (As P a)) (length (gi_methods t)) k = Inr (codePtr M)"
    and code: "pf_gen F sh = Inr (code, tab)" "pages s' (codePtr M) = Some code"
    by (rule proxy_entry [OF assms(1-4) k M])
  have gen: "pf_gen F = (\<lambda>sh. jitStubCode_arm64 sh d)" "length (gi_methods t) \<le> 2 ^ 16"
    using assms(1,5) by (auto simp: supported_def)
  have fits: "fits_a64 sh" "words sh \<le> 4096" using gen(2) sh k by (simp_all add: fits_a64_def)
  have stub: "jitStubCode_arm64 sh d = Inr (code, tab)" using code(1) gen(1) by simp
  obtain c pc n where cs: "c = call_state_arm64 sh d r" and
    runs: "\<And>callee. run_code decode_a64 (exec_a64 callee) n code (0, r) = Some (pc, c)"
      "decode_a64 (drop pc code) = Some (ABlr 16, 4)" "ar c 16 = d"
      "\<And>callee. keeps_frame_arm64 c (callee d c) \<Longrightarrow>
          (\<exists>t. run_code decode_a64 (exec_a64 callee) (n + 4) code (0, r) = Some (length code, t) \<and>
             ar t = (ar (callee d c))(29 := ar r 29, 30 := ar r 30) \<and> asp t = asp r \<and>
             af t = af (callee d c) \<and> am t = am (callee d c))"
    using stub_run_arm64 [OF fits(1) stub, of r] by blast
  have "enters_dispatch_arm64 sh r c" unfolding cs using fits(2) by (rule enters_dispatch_arm64_call_state)
  moreover have "newABILayout Arm64 (TFunc ins outs v) = Inr ?l" "k < 2 ^ 64" using l assms(5) k gen(2) by simp_all
  moreover have "proxyAt (ar r 0) = Some P" using recv by (simp add: As_def makeIface_def)
  moreover have "Dispatch R (pm_method M) (px_chain P) pooled (caller_file_arm64 r) = Inr m"
    using run NewOf_InrD(6) [OF assms(4)] by simp
  ultimately obtain m1 where m1:
    "Dispatch_at Arm64 R proxyAt pooled (map (step_value_arm64 c) (dispatch_steps Arm64)) (am c) = Inr (?l, m1)"
    "dispatch_rets Arm64 m1 = dispatch_rets Arm64 m"
    "\<forall>x. retOffset ?l \<le> x \<and> x < stackBytes ?l \<longrightarrow> m1 AStack x = m AStack x"
    "last (map (step_value_arm64 c) (dispatch_steps Arm64)) = asp r + 8"
    using passed_arm64 [OF _ sh(1,2) _ _ _ M] by metis
  have returns: "\<exists>r'. run_code decode_a64 (exec_a64 callee) (n + 4) code (0, r) = Some (length code, r') \<and>
             asp r' = asp r \<and> ar r' 29 = ar r 29 \<and> ar r' 30 = ar r 30 \<and>
             map (ar r') [0..<16] @ map (af r') [0..<16] = dispatch_rets Arm64 m \<and>
             (\<forall>x. retOffset ?l \<le> x \<and> x < stackBytes ?l \<longrightarrow> am r' (asp r + 8 + of_nat x) = m AStack x)"
    if ret: "dispatch_returns_arm64 R proxyAt pooled c (callee d c)" for callee
  proof -
    obtain t where t: "run_code decode_a64 (exec_a64 callee) (n + 4) code (0, r) = Some (length code, t)"
      "ar t = (ar (callee d c))(29 := ar r 29, 30 := ar r 30)" "af t = af (callee d c)" "am t = am (callee d c)" "asp t = asp r"
      using runs(4) [of callee, OF dispatch_returns_keeps_arm64 [OF ret]] by blast
    from results_arm64 [OF ret m1(1,4) t(2-4)] m1(2,3) show ?thesis using t by (intro exI [of _ t]) simp
  qed
  have "asp c + 296 = asp r + 8" by (simp add: cs call_state_arm64_def)
  then have can: "\<exists>t. dispatch_returns_arm64 R proxyAt pooled c t"
    using dispatch_can_return_arm64 [OF m1(1)] m1(4) sh(4) by auto
  show ?thesis
    using tab code(2) runs(1-3) returns can
    by (intro exI [of _ "codePtr M"] exI [of _ code] exI [of _ c] exI [of _ pc] exI [of _ n]) simp
qed

lemma interface_call_arm64_witness:
  "\<exists>stubs s P s' p code n callee r'. NewOf (demo_platform Arm64 stubs) demo_iface None [answer] s = Inr (P, s') \<and>
     itabFun (if_tab (As P 0x1000)) 2 1 = Inr p \<and> pages s' p = Some code \<and>
     run_code decode_a64 (exec_a64 callee) n code (0, \<lparr>ar = \<lambda>_. 0x1000, asp = 0x2000, af = \<lambda>_. 7, am = \<lambda>_. 1\<rparr>) =
       Some (length code, r') \<and> ar r' 0 = 42 \<and> asp r' = 0x2000"
proof -
  let ?r = "\<lparr>ar = \<lambda>_. 0x1000, asp = 0x2000, af = \<lambda>_. 7, am = \<lambda>_. 1\<rparr>"
  obtain stubs s P s' where b: "supported (demo_platform Arm64 stubs) 0x123456 (length (gi_methods demo_iface))"
    "ready (demo_platform Arm64 stubs) s" "NewOf (demo_platform Arm64 stubs) demo_iface None [answer] s = Inr (P, s')"
    by (rule demo_built [of Arm64 "[answer]"]) simp
  obtain M where M: "method_at P 1 = Inr M" "pm_outs (pm_method M) = [TInt]" "pm_layout (pm_method M) = layout_of Arm64 [] [TInt]"
    by (rule demo_len [OF b])
  obtain m where m: "Dispatch demo_rt (pm_method M) [answer] demo_state (caller_file_arm64 ?r) = Inr m"
    "word_of (rd m (AInts, 0) 8) = 42"
    by (rule answer_42 [OF _ M(2,3)]) simp
  have F: "pf_arch (demo_platform Arm64 stubs) = Arm64" by (simp add: demo_fields)
  have k: "1 < length (gi_methods demo_iface)" by (simp add: demo_layout)
  have a: "(if (0x1000 :: 64 word) = 0x1000 then Some P else None) = Some P" by simp
  have r0: "ar ?r 0 = if_data (As P 0x1000)" by (simp add: As_def makeIface_def)
  from interface_call_arm64 [where proxyAt = "\<lambda>x. if x = 0x1000 then Some P else None",
      OF b(1,2) demo_layout(3) b(3) F k M(1) a r0 m(1)]
  obtain p and code :: "byte list" and c pc n t where p: "itabFun (if_tab (As P 0x1000)) 2 1 = Inr p" "pages s' p = Some code"
    and t: "dispatch_returns_arm64 demo_rt (\<lambda>x. if x = 0x1000 then Some P else None) demo_state c t"
    and returns: "\<And>callee. dispatch_returns_arm64 demo_rt (\<lambda>x. if x = 0x1000 then Some P else None) demo_state c (callee 0x123456 c) \<Longrightarrow>
       \<exists>r'. run_code decode_a64 (exec_a64 callee) (n + 4) code (0, ?r) = Some (length code, r') \<and> asp r' = 0x2000 \<and>
             map (ar r') [0..<16] @ map (af r') [0..<16] = dispatch_rets Arm64 m"
    unfolding demo_layout(2) by (elim exE conjE) (simp, blast)
  from returns [of "\<lambda>_ _. t", OF t] obtain r' where
    r': "run_code decode_a64 (exec_a64 (\<lambda>_ _. t)) (n + 4) code (0, ?r) = Some (length code, r')" "asp r' = 0x2000"
    "map (ar r') [0..<16] @ map (af r') [0..<16] = dispatch_rets Arm64 m" by blast
  from r'(3) have "ar r' 0 = 42" using m(2) by (simp add: dispatch_rets_def upt_rec)
  with p r'(1,2) b(3) show ?thesis by blast
qed

end
