(* ===== verification/UnwindProps.thy ===== *)
theory UnwindProps
  imports InterfaceCall
begin

text \<open>
  What the runtime's unwinder reads while a trampoline of a proxy runs: the table of the registered
  module follows the stack pointer through the whole execution on amd64.
\<close>

lemma stub_pc_inside:
  assumes "stub_fits sh d" "j < length (stub_ins sh d)"
  shows "length (concat (take j (stub_bytes sh d))) < length (concat (stub_bytes sh d))"
proof -
  have len: "length (stub_bytes sh d) = length (stub_ins sh d)"
    using stub_encodes [OF assms(1)] by (rule list_all2_lengthD)
  have e: "last (stub_bytes sh d) \<noteq> []" "stub_bytes sh d \<noteq> []" by (simp_all add: stub_bytes_def epi_bytes_def)
  have d: "drop j (stub_bytes sh d) \<noteq> []" using assms(2) len by simp
  then have "last (stub_bytes sh d) = last (drop j (stub_bytes sh d))" by simp
  moreover note last_in_set [OF d]
  ultimately have "concat (drop j (stub_bytes sh d)) \<noteq> []" using e(1) by auto
  moreover have "concat (stub_bytes sh d) = concat (take j (stub_bytes sh d)) @ concat (drop j (stub_bytes sh d))"
    by (metis append_take_drop_id concat_append)
  ultimately show ?thesis by simp
qed

text \<open>
  C4. Stacks can be unwound through a trampoline of a proxy on amd64: at every instruction from its
  entry to its return, the runtime finds the trampoline's module, and the stack pointer delta it reads
  there is the distance the stack pointer has moved since the call, so that the return address is found.
\<close>
theorem unwinding_amd64:
  assumes "supported F d (length (gi_methods t))" "ready F s" "target_ok t tgt" "NewOf F t tgt ixs s = Inr (P, s')"
    and "pf_arch F = Amd64" and k: "k < length (gi_methods t)" and callee: "\<forall>u. xr (callee d u) 4 = xr u 4"
  shows "\<exists>p code n. 8 \<le> n \<and> itabFun (px_itab P) (length (gi_methods t)) k = Inr p \<and> pages s' p = Some code \<and>
    (\<exists>u. run_code decode_x86 (exec_x86 callee) n code (0, r) = Some (length code, u)) \<and>
    (\<forall>j<n. \<exists>pc u md. run_code decode_x86 (exec_x86 callee) j code (0, r) = Some (pc, u) \<and>
       findfunc (jmods s') (p + of_nat pc) = Some (md, 0) \<and>
       funcspdelta (pf_version F) (pf_quantum F) md 0 (p + of_nat pc) = Some (ucast (xr r 4 - xr u 4)))"
proof -
  note built = NewOf_built [OF assms(1-4)]
  have gen: "pf_gen F = (\<lambda>sh. jitStubCode_amd64 sh d)" "uint d < 2 ^ 63" "length (gi_methods t) \<le> 2 ^ 31"
    "pf_quantum F = pcQuantum_amd64" using assms(1,5) by (auto simp: supported_def)
  have ok: "jit_ok (pf_gen F) (pf_version F) (pf_quantum F) s'" using built(2) by (simp add: ready_def)
  obtain l where l: "newABILayout (pf_arch F) (snd (gi_methods t ! k)) = Inr l"
    using built(1) k by (auto simp: proxy_ok_def method_ok_def)
  obtain sh where sh: "jitBySh s' sh = Some (codePtr (px_methods P ! k))" "sh_index sh = k" "describes l sh"
    "itabFun (px_itab P) (length (gi_methods t)) k = Inr (codePtr (px_methods P ! k))"
    by (rule built_method [OF built(1) k l])
  let ?p = "codePtr (px_methods P ! k)"
  obtain code tab where c: "jitStubCode_amd64 sh d = Inr (code, tab)" "pages s' ?p = Some code" and
    md: "\<forall>off<length code. \<exists>md. findfunc (jmods s') (?p + of_nat off) = Some (md, 0) \<and>
       funcspdelta (pf_version F) (pf_quantum F) md 0 (?p + of_nat off) = pcvalue (pf_quantum F) tab off"
    by (rule cached_lookup [OF ok sh(1)]) (use gen(1) in metis)
  have fits: "stub_fits sh d" using gen(2,3) sh(2,3) k by (simp add: stub_fits_def describes_def)
  have code: "code = concat (stub_bytes sh d)" using c(1) jitStubCode_amd64_bytes [OF fits] by simp
  have len: "length (stub_bytes sh d) = length (stub_ins sh d)"
    using stub_encodes [OF fits] by (rule list_all2_lengthD)
  let ?n = "length (stub_ins sh d)"
  have "\<exists>u. run_code decode_x86 (exec_x86 callee) ?n code (0, r) = Some (length code, u)"
    using run_stub [OF fits order_refl, of callee r] len by (simp add: code)
  moreover have "\<exists>pc u md. run_code decode_x86 (exec_x86 callee) j code (0, r) = Some (pc, u) \<and>
       findfunc (jmods s') (?p + of_nat pc) = Some (md, 0) \<and>
       funcspdelta (pf_version F) (pf_quantum F) md 0 (?p + of_nat pc) = Some (ucast (xr r 4 - xr u 4))" if j: "j < ?n" for j
  proof -
    obtain pc u where run: "run_code decode_x86 (exec_x86 callee) j code (0, r) = Some (pc, u)"
      and pc: "pc = length (concat (take j (stub_bytes sh d)))"
      using run_stub [OF fits less_imp_le [OF j], of callee r] by (simp add: code)
    have "pc < length code" unfolding pc code by (rule stub_pc_inside [OF fits j])
    with md obtain m where m: "findfunc (jmods s') (?p + of_nat pc) = Some (m, 0)"
      "funcspdelta (pf_version F) (pf_quantum F) m 0 (?p + of_nat pc) = pcvalue (pf_quantum F) tab pc" by blast
    have "pcvalue pcQuantum_amd64 tab pc = Some (ucast (xr r 4 - xr u 4))"
      by (rule stub_pcsp_amd64 [OF fits c(1) callee j run])
    with m run show ?thesis unfolding gen(4) by auto
  qed
  moreover have "8 \<le> ?n" by (simp add: stub_ins_def pro_ins_def mid_ins_def epi_ins_def)
  ultimately show ?thesis using sh(4) c(2) by blast
qed

lemma unwinding_amd64_witness:
  "\<exists>stubs s P s' p code pc u md. NewOf (demo_platform Amd64 stubs) demo_iface None [] s = Inr (P, s') \<and>
     itabFun (px_itab P) 2 0 = Inr p \<and> pages s' p = Some code \<and>
     run_code decode_x86 (exec_x86 (\<lambda>_ c. c)) 7 code (0, \<lparr>xr = \<lambda>_. 0x1000, xf = \<lambda>_. 7, xm = \<lambda>_. 1\<rparr>) = Some (pc, u) \<and>
     findfunc (jmods s') (p + of_nat pc) = Some (md, 0) \<and>
     funcspdelta Go121 pcQuantum_amd64 md 0 (p + of_nat pc) = Some (ucast (0x1000 - xr u 4))"
proof -
  let ?r = "\<lparr>xr = \<lambda>_. 0x1000, xf = \<lambda>_. 7, xm = \<lambda>_. 1\<rparr>"
  obtain stubs s P s' where b: "supported (demo_platform Amd64 stubs) 0x123456 (length (gi_methods demo_iface))"
    "ready (demo_platform Amd64 stubs) s" "NewOf (demo_platform Amd64 stubs) demo_iface None [] s = Inr (P, s')"
    by (rule demo_built [of Amd64]) simp
  have F: "pf_arch (demo_platform Amd64 stubs) = Amd64" by (simp add: demo_fields)
  have k: "0 < length (gi_methods demo_iface)" by (simp add: demo_layout)
  have keep: "\<forall>u. xr ((\<lambda>_ c. c) (0x123456 :: 64 word) u) 4 = xr u 4" by simp
  from unwinding_amd64 [where r = ?r, OF b(1,2) demo_layout(3) b(3) F k keep] obtain p and code :: "byte list" and n where
    p: "8 \<le> n" "itabFun (px_itab P) 2 0 = Inr p" "pages s' p = Some code" and
    all: "\<forall>j<n. \<exists>pc u md. run_code decode_x86 (exec_x86 (\<lambda>_ c. c)) j code (0, ?r) = Some (pc, u) \<and>
       findfunc (jmods s') (p + of_nat pc) = Some (md, 0) \<and>
       funcspdelta (pf_version (demo_platform Amd64 stubs)) (pf_quantum (demo_platform Amd64 stubs)) md 0 (p + of_nat pc) =
         Some (ucast (xr ?r 4 - xr u 4))"
    unfolding demo_layout(2) by blast
  have "7 < n" using p(1) by simp
  from all [rule_format, OF this] obtain pc u md where
    "run_code decode_x86 (exec_x86 (\<lambda>_ c. c)) 7 code (0, ?r) = Some (pc, u)" "findfunc (jmods s') (p + of_nat pc) = Some (md, 0)"
    "funcspdelta Go121 pcQuantum_amd64 md 0 (p + of_nat pc) = Some (ucast (0x1000 - xr u 4))"
    by (auto simp: demo_fields)
  with p(2,3) b(3) show ?thesis by blast
qed

end
