(* ===== verification/Mirrors.thy ===== *)
theory Mirrors
  imports Proxy
begin

text \<open>
  The runtime structures weave mirrors, field by field, for every supported version of Go
  (moduledata_go1*.go, jit.go, rt.go), and the offsets Go's layout of structs gives their fields. The
  versions are build variants; a wrong offset in one of them is a corrupted runtime there.
\<close>

section \<open>The smaller structures (jit.go)\<close>

definition pcHeader_types :: "gotype list" where
  "pcHeader_types =
     [TUint32, TUint8, TUint8, TUint8, TUint8, TInt, TUint, TUintptr, TUintptr, TUintptr, TUintptr, TUintptr, TUintptr]"

definition functab_types :: "gotype list" where
  "functab_types = [TUint32, TUint32]"

definition findfuncbucket_types :: "gotype list" where
  "findfuncbucket_types = [TUint32, TArray 16 TUint8]"

definition textsect_types :: "gotype list" where
  "textsect_types = [TUintptr, TUintptr, TUintptr]"

definition ptabEntry_types :: "gotype list" where
  "ptabEntry_types = [TInt32, TUint32]"

definition modulehash_types :: "gotype list" where
  "modulehash_types = [TString, TString, TPointer TString]"

definition bitvector_types :: "gotype list" where
  "bitvector_types = [TInt32, TPointer TUint8]"

section \<open>moduledata, version by version\<close>

text \<open>
  The fields in order, and the offsets the same file declares. \<open>next\<close>, a pointer to the next module, is
  an opaque pointer; \<open>initTask\<close> is a struct of no bytes.
\<close>

definition moduledata_go118 :: "(string \<times> gotype) list" where
  "moduledata_go118 =
    [(''pcHeader'', TPointer (TStruct pcHeader_types)), (''funcnametab'', TSlice TUint8),
     (''cutab'', TSlice TUint32), (''filetab'', TSlice TUint8), (''pctab'', TSlice TUint8),
     (''pclntable'', TSlice TUint8), (''ftab'', TSlice (TStruct functab_types)), (''findfunctab'', TUintptr),
     (''minpc'', TUintptr), (''maxpc'', TUintptr), (''text'', TUintptr), (''etext'', TUintptr),
     (''noptrdata'', TUintptr), (''enoptrdata'', TUintptr), (''data'', TUintptr), (''edata'', TUintptr),
     (''bss'', TUintptr), (''ebss'', TUintptr), (''noptrbss'', TUintptr), (''enoptrbss'', TUintptr),
     (''end'', TUintptr), (''gcdata'', TUintptr), (''gcbss'', TUintptr), (''types'', TUintptr),
     (''etypes'', TUintptr), (''rodata'', TUintptr), (''gofunc'', TUintptr),
     (''textsectmap'', TSlice (TStruct textsect_types)), (''typelinks'', TSlice TInt32),
     (''itablinks'', TSlice (TPointer (TStruct itab_types))), (''ptab'', TSlice (TStruct ptabEntry_types)),
     (''pluginpath'', TString), (''pkghashes'', TSlice (TStruct modulehash_types)), (''modulename'', TString),
     (''modulehashes'', TSlice (TStruct modulehash_types)), (''hasmain'', TUint8),
     (''gcdatamask'', TStruct bitvector_types), (''gcbssmask'', TStruct bitvector_types),
     (''typemap'', TMap TUint32 (TPointer (TStruct abiType_types))), (''bad'', TBool),
     (''next'', TUnsafePointer)]"

definition offsets_go118 :: "(string \<times> nat) list" where
  "offsets_go118 = [(''text'', 176), (''pctab'', 80), (''gofunc'', 304), (''next'', 544)]"

definition moduledata_go120 :: "(string \<times> gotype) list" where
  "moduledata_go120 =
    [(''pcHeader'', TPointer (TStruct pcHeader_types)), (''funcnametab'', TSlice TUint8),
     (''cutab'', TSlice TUint32), (''filetab'', TSlice TUint8), (''pctab'', TSlice TUint8),
     (''pclntable'', TSlice TUint8), (''ftab'', TSlice (TStruct functab_types)), (''findfunctab'', TUintptr),
     (''minpc'', TUintptr), (''maxpc'', TUintptr), (''text'', TUintptr), (''etext'', TUintptr),
     (''noptrdata'', TUintptr), (''enoptrdata'', TUintptr), (''data'', TUintptr), (''edata'', TUintptr),
     (''bss'', TUintptr), (''ebss'', TUintptr), (''noptrbss'', TUintptr), (''enoptrbss'', TUintptr),
     (''covctrs'', TUintptr), (''ecovctrs'', TUintptr), (''end'', TUintptr), (''gcdata'', TUintptr),
     (''gcbss'', TUintptr), (''types'', TUintptr), (''etypes'', TUintptr), (''rodata'', TUintptr),
     (''gofunc'', TUintptr), (''textsectmap'', TSlice (TStruct textsect_types)),
     (''typelinks'', TSlice TInt32), (''itablinks'', TSlice (TPointer (TStruct itab_types))),
     (''ptab'', TSlice (TStruct ptabEntry_types)), (''pluginpath'', TString),
     (''pkghashes'', TSlice (TStruct modulehash_types)), (''modulename'', TString),
     (''modulehashes'', TSlice (TStruct modulehash_types)), (''hasmain'', TUint8),
     (''gcdatamask'', TStruct bitvector_types), (''gcbssmask'', TStruct bitvector_types),
     (''typemap'', TMap TUint32 (TPointer (TStruct abiType_types))), (''bad'', TBool),
     (''next'', TUnsafePointer)]"

definition offsets_go120 :: "(string \<times> nat) list" where
  "offsets_go120 = [(''text'', 176), (''pctab'', 80), (''gofunc'', 320), (''next'', 560)]"

definition moduledata_go121 :: "(string \<times> gotype) list" where
  "moduledata_go121 =
    [(''pcHeader'', TPointer (TStruct pcHeader_types)), (''funcnametab'', TSlice TUint8),
     (''cutab'', TSlice TUint32), (''filetab'', TSlice TUint8), (''pctab'', TSlice TUint8),
     (''pclntable'', TSlice TUint8), (''ftab'', TSlice (TStruct functab_types)), (''findfunctab'', TUintptr),
     (''minpc'', TUintptr), (''maxpc'', TUintptr), (''text'', TUintptr), (''etext'', TUintptr),
     (''noptrdata'', TUintptr), (''enoptrdata'', TUintptr), (''data'', TUintptr), (''edata'', TUintptr),
     (''bss'', TUintptr), (''ebss'', TUintptr), (''noptrbss'', TUintptr), (''enoptrbss'', TUintptr),
     (''covctrs'', TUintptr), (''ecovctrs'', TUintptr), (''end'', TUintptr), (''gcdata'', TUintptr),
     (''gcbss'', TUintptr), (''types'', TUintptr), (''etypes'', TUintptr), (''rodata'', TUintptr),
     (''gofunc'', TUintptr), (''textsectmap'', TSlice (TStruct textsect_types)),
     (''typelinks'', TSlice TInt32), (''itablinks'', TSlice (TPointer (TStruct itab_types))),
     (''ptab'', TSlice (TStruct ptabEntry_types)), (''pluginpath'', TString),
     (''pkghashes'', TSlice (TStruct modulehash_types)),
     (''inittasks'', TSlice (TPointer (TStruct [TArray 0 TUint8]))), (''modulename'', TString),
     (''modulehashes'', TSlice (TStruct modulehash_types)), (''hasmain'', TUint8),
     (''gcdatamask'', TStruct bitvector_types), (''gcbssmask'', TStruct bitvector_types),
     (''typemap'', TMap TUint32 (TPointer (TStruct abiType_types))), (''bad'', TBool),
     (''next'', TUnsafePointer)]"

definition offsets_go121 :: "(string \<times> nat) list" where
  "offsets_go121 = [(''text'', 176), (''pctab'', 80), (''gofunc'', 320), (''next'', 584)]"

definition moduledata_go123 :: "(string \<times> gotype) list" where
  "moduledata_go123 =
    [(''pcHeader'', TPointer (TStruct pcHeader_types)), (''funcnametab'', TSlice TUint8),
     (''cutab'', TSlice TUint32), (''filetab'', TSlice TUint8), (''pctab'', TSlice TUint8),
     (''pclntable'', TSlice TUint8), (''ftab'', TSlice (TStruct functab_types)), (''findfunctab'', TUintptr),
     (''minpc'', TUintptr), (''maxpc'', TUintptr), (''text'', TUintptr), (''etext'', TUintptr),
     (''noptrdata'', TUintptr), (''enoptrdata'', TUintptr), (''data'', TUintptr), (''edata'', TUintptr),
     (''bss'', TUintptr), (''ebss'', TUintptr), (''noptrbss'', TUintptr), (''enoptrbss'', TUintptr),
     (''covctrs'', TUintptr), (''ecovctrs'', TUintptr), (''end'', TUintptr), (''gcdata'', TUintptr),
     (''gcbss'', TUintptr), (''types'', TUintptr), (''etypes'', TUintptr), (''rodata'', TUintptr),
     (''gofunc'', TUintptr), (''textsectmap'', TSlice (TStruct textsect_types)),
     (''typelinks'', TSlice TInt32), (''itablinks'', TSlice (TPointer (TStruct itab_types))),
     (''ptab'', TSlice (TStruct ptabEntry_types)), (''pluginpath'', TString),
     (''pkghashes'', TSlice (TStruct modulehash_types)),
     (''inittasks'', TSlice (TPointer (TStruct [TArray 0 TUint8]))), (''modulename'', TString),
     (''modulehashes'', TSlice (TStruct modulehash_types)), (''hasmain'', TUint8), (''bad'', TBool),
     (''gcdatamask'', TStruct bitvector_types), (''gcbssmask'', TStruct bitvector_types),
     (''typemap'', TMap TUint32 (TPointer (TStruct abiType_types))), (''next'', TUnsafePointer)]"

definition offsets_go123 :: "(string \<times> nat) list" where
  "offsets_go123 = [(''text'', 176), (''pctab'', 80), (''gofunc'', 320), (''next'', 576)]"

definition moduledata_go126 :: "(string \<times> gotype) list" where
  "moduledata_go126 =
    [(''pcHeader'', TPointer (TStruct pcHeader_types)), (''funcnametab'', TSlice TUint8),
     (''cutab'', TSlice TUint32), (''filetab'', TSlice TUint8), (''pctab'', TSlice TUint8),
     (''pclntable'', TSlice TUint8), (''ftab'', TSlice (TStruct functab_types)), (''findfunctab'', TUintptr),
     (''minpc'', TUintptr), (''maxpc'', TUintptr), (''text'', TUintptr), (''etext'', TUintptr),
     (''noptrdata'', TUintptr), (''enoptrdata'', TUintptr), (''data'', TUintptr), (''edata'', TUintptr),
     (''bss'', TUintptr), (''ebss'', TUintptr), (''noptrbss'', TUintptr), (''enoptrbss'', TUintptr),
     (''covctrs'', TUintptr), (''ecovctrs'', TUintptr), (''end'', TUintptr), (''gcdata'', TUintptr),
     (''gcbss'', TUintptr), (''types'', TUintptr), (''etypes'', TUintptr), (''rodata'', TUintptr),
     (''gofunc'', TUintptr), (''epclntab'', TUintptr), (''textsectmap'', TSlice (TStruct textsect_types)),
     (''typelinks'', TSlice TInt32), (''itablinks'', TSlice (TPointer (TStruct itab_types))),
     (''ptab'', TSlice (TStruct ptabEntry_types)), (''pluginpath'', TString),
     (''pkghashes'', TSlice (TStruct modulehash_types)),
     (''inittasks'', TSlice (TPointer (TStruct [TArray 0 TUint8]))), (''modulename'', TString),
     (''modulehashes'', TSlice (TStruct modulehash_types)), (''hasmain'', TUint8), (''bad'', TBool),
     (''gcdatamask'', TStruct bitvector_types), (''gcbssmask'', TStruct bitvector_types),
     (''typemap'', TMap TUint32 (TPointer (TStruct abiType_types))), (''next'', TUnsafePointer)]"

definition offsets_go126 :: "(string \<times> nat) list" where
  "offsets_go126 = [(''text'', 176), (''pctab'', 80), (''gofunc'', 320), (''next'', 584)]"

definition moduledata_go127 :: "(string \<times> gotype) list" where
  "moduledata_go127 =
    [(''pcHeader'', TPointer (TStruct pcHeader_types)), (''funcnametab'', TSlice TUint8),
     (''cutab'', TSlice TUint32), (''filetab'', TSlice TUint8), (''pctab'', TSlice TUint8),
     (''pclntable'', TSlice TUint8), (''ftab'', TSlice (TStruct functab_types)), (''findfunctab'', TUintptr),
     (''minpc'', TUintptr), (''maxpc'', TUintptr), (''text'', TUintptr), (''etext'', TUintptr),
     (''noptrdata'', TUintptr), (''enoptrdata'', TUintptr), (''data'', TUintptr), (''edata'', TUintptr),
     (''bss'', TUintptr), (''ebss'', TUintptr), (''noptrbss'', TUintptr), (''enoptrbss'', TUintptr),
     (''covctrs'', TUintptr), (''ecovctrs'', TUintptr), (''end'', TUintptr), (''gcdata'', TUintptr),
     (''gcbss'', TUintptr), (''types'', TUintptr), (''typedesclen'', TUintptr), (''etypes'', TUintptr),
     (''itaboffset'', TUintptr), (''itabsize'', TUintptr), (''rodata'', TUintptr), (''gofunc'', TUintptr),
     (''epclntab'', TUintptr), (''textsectmap'', TSlice (TStruct textsect_types)),
     (''ptab'', TSlice (TStruct ptabEntry_types)), (''pluginpath'', TString),
     (''pkghashes'', TSlice (TStruct modulehash_types)),
     (''inittasks'', TSlice (TPointer (TStruct [TArray 0 TUint8]))), (''modulename'', TString),
     (''modulehashes'', TSlice (TStruct modulehash_types)), (''hasmain'', TUint8), (''bad'', TBool),
     (''gcdatamask'', TStruct bitvector_types), (''gcbssmask'', TStruct bitvector_types),
     (''typemap'', TMap TUint32 (TPointer (TStruct abiType_types))), (''next'', TUnsafePointer)]"

definition offsets_go127 :: "(string \<times> nat) list" where
  "offsets_go127 = [(''text'', 176), (''pctab'', 80), (''gofunc'', 344), (''next'', 560)]"

definition moduledata_fields :: "goversion \<Rightarrow> (string \<times> gotype) list" where
  "moduledata_fields v =
     (case v of Go118 \<Rightarrow> moduledata_go118 | Go120 \<Rightarrow> moduledata_go120 | Go121 \<Rightarrow> moduledata_go121
      | Go123 \<Rightarrow> moduledata_go123 | Go126 \<Rightarrow> moduledata_go126 | Go127 \<Rightarrow> moduledata_go127)"

definition moduledata_offsets :: "goversion \<Rightarrow> (string \<times> nat) list" where
  "moduledata_offsets v =
     (case v of Go118 \<Rightarrow> offsets_go118 | Go120 \<Rightarrow> offsets_go120 | Go121 \<Rightarrow> offsets_go121
      | Go123 \<Rightarrow> offsets_go123 | Go126 \<Rightarrow> offsets_go126 | Go127 \<Rightarrow> offsets_go127)"

text \<open>\<open>unsafe.Offsetof\<close> of a field by name.\<close>

definition offset_of :: "(string \<times> gotype) list \<Rightarrow> string \<Rightarrow> nat option" where
  "offset_of fs n = map_of (zip (map fst fs) (field_offs (map snd fs))) n"

section \<open>Properties\<close>

lemma moduledata_offsets_hold:
  "list_all (\<lambda>(n, k). offset_of (moduledata_fields v) n = Some k) (moduledata_offsets v)"
proof (cases v)
  case Go118
  show ?thesis unfolding Go118 by code_simp
next
  case Go120
  show ?thesis unfolding Go120 by code_simp
next
  case Go121
  show ?thesis unfolding Go121 by code_simp
next
  case Go123
  show ?thesis unfolding Go123 by code_simp
next
  case Go126
  show ?thesis unfolding Go126 by code_simp
next
  case Go127
  show ?thesis unfolding Go127 by code_simp
qed


end
