(* ===== verification/GoValues.thy ===== *)
theory GoValues
  imports Prelude Complex_Main
begin

text \<open>
  Go values as the mocking and the fault-injection packages see them: floating point numbers as
  far as the code compares them, errors with wrapping, and boxed values (\<open>any\<close>) with
  \<open>reflect.DeepEqual\<close>.
\<close>

section \<open>Floating point comparisons\<close>

text \<open>
  A \<open>float64\<close> is a NaN, an infinity or a rational number. The order is Go's \<open><=\<close> and \<open><\<close>, for
  which every comparison with a NaN is false.
\<close>

datatype gofloat = NaN | NegInf | PosInf | Fin rat

instantiation gofloat :: ord
begin

fun less_eq_gofloat :: "gofloat \<Rightarrow> gofloat \<Rightarrow> bool" where
  "less_eq_gofloat NaN y = False"
| "less_eq_gofloat x NaN = False"
| "less_eq_gofloat NegInf y = True"
| "less_eq_gofloat x PosInf = True"
| "less_eq_gofloat (Fin a) (Fin b) = (a \<le> b)"
| "less_eq_gofloat x y = False"

fun less_gofloat :: "gofloat \<Rightarrow> gofloat \<Rightarrow> bool" where
  "less_gofloat NaN y = False"
| "less_gofloat x NaN = False"
| "less_gofloat NegInf y = (y \<noteq> NegInf)"
| "less_gofloat x PosInf = (x \<noteq> PosInf)"
| "less_gofloat (Fin a) (Fin b) = (a < b)"
| "less_gofloat x y = False"

instance ..

end

definition isNaN :: "gofloat \<Rightarrow> bool" where
  "isNaN x \<longleftrightarrow> x = NaN"

text \<open>Go's \<open>==\<close> on floats: a NaN is not equal to itself.\<close>

definition float_eq :: "gofloat \<Rightarrow> gofloat \<Rightarrow> bool" where
  "float_eq x y \<longleftrightarrow> x \<noteq> NaN \<and> x = y"

section \<open>Errors\<close>

text \<open>
  \<open>ErrInjected\<close> is chaos.ErrInjected, \<open>ErrText\<close> an error made by \<open>errors.New\<close>, and \<open>ErrWrap e s\<close>
  the error \<open>fmt.Errorf("%w: %s", e, s)\<close>.
\<close>

datatype goerr = ErrInjected | ErrText string | ErrWrap goerr string

fun errors_Is :: "goerr \<Rightarrow> goerr \<Rightarrow> bool" where
  "errors_Is (ErrWrap e s) t = (ErrWrap e s = t \<or> errors_Is e t)"
| "errors_Is e t = (e = t)"

section \<open>Boxed values\<close>

text \<open>
  A boxed value has a type and a value of it. \<open>ANil\<close> is a nil interface. \<open>ABool\<close>, \<open>AInt\<close>, \<open>AFloat\<close> and
  \<open>AStr\<close> are of the types bool, int, float64 and string; a value of another basic type (an int64, a
  float32, a defined string type) is \<open>ANamed\<close> with the name of its type, and different types are never
  equal. \<open>APtr\<close>, \<open>ASlice\<close>, \<open>AMap\<close>, \<open>AChan\<close> and \<open>AFunc\<close> carry their type's name and hold \<open>None\<close> where the boxed
  pointer, slice, map, channel or function is itself nil, which is a different value from \<open>ANil\<close>.
  Pointers, slices and maps hold their address and what is there when the values are compared (a write
  between recording a call and comparing it is not modelled); a map lists its entries. \<open>AStruct\<close> is a
  struct with its fields or an array with its elements. \<open>AObj\<close> stands for any other value of a named type.
\<close>

datatype any =
    ANil
  | ABool bool
  | AInt int
  | AFloat gofloat
  | AStr string
  | ANamed string any
  | AErr goerr
  | APtr string "(nat \<times> any) option"
  | ASlice string "(nat \<times> any list) option"
  | AMap string "(nat \<times> (any \<times> any) list) option"
  | AStruct string "any list"
  | AChan string "nat option"
  | AFunc string "nat option"
  | AObj string nat

text \<open>Go's \<open>==\<close> on map keys: pointers and channels are compared by address.\<close>

fun key_eq :: "any \<Rightarrow> any \<Rightarrow> bool"
  and key_eq_list :: "any list \<Rightarrow> any list \<Rightarrow> bool"
where
  "key_eq (AFloat a) y = (case y of AFloat b \<Rightarrow> float_eq a b | _ \<Rightarrow> False)"
| "key_eq (ANamed t x) y = (case y of ANamed u z \<Rightarrow> t = u \<and> key_eq x z | _ \<Rightarrow> False)"
| "key_eq (APtr t p) y = (case y of APtr u q \<Rightarrow> t = u \<and> map_option fst p = map_option fst q | _ \<Rightarrow> False)"
| "key_eq (AStruct t xs) y = (case y of AStruct u ys \<Rightarrow> t = u \<and> key_eq_list xs ys | _ \<Rightarrow> False)"
| "key_eq x y = (x = y)"
| "key_eq_list [] ys = (ys = [])"
| "key_eq_list (x # xs) ys =
     (case ys of [] \<Rightarrow> False | y # ys' \<Rightarrow> key_eq x y \<and> key_eq_list xs ys')"

text \<open>
  \<open>reflect.DeepEqual\<close>: functions are equal only if both are nil, pointers if they are the same address
  or point to deeply equal values. A nil slice or map differs from an empty one; two that are not nil
  are equal if they have the same length and are at the same address or are equal element by element,
  maps by the keys of the first.
\<close>

fun deep_equal :: "any \<Rightarrow> any \<Rightarrow> bool"
  and deep_equal_list :: "any list \<Rightarrow> any list \<Rightarrow> bool"
  and deep_equal_map :: "(any \<times> any) list \<Rightarrow> (any \<times> any) list \<Rightarrow> bool"
where
  "deep_equal ANil y = (y = ANil)"
| "deep_equal (ABool a) y = (y = ABool a)"
| "deep_equal (AInt a) y = (y = AInt a)"
| "deep_equal (AFloat a) y = (case y of AFloat b \<Rightarrow> float_eq a b | _ \<Rightarrow> False)"
| "deep_equal (AStr a) y = (y = AStr a)"
| "deep_equal (ANamed t x) y = (case y of ANamed u z \<Rightarrow> t = u \<and> deep_equal x z | _ \<Rightarrow> False)"
| "deep_equal (AErr a) y = (y = AErr a)"
| "deep_equal (APtr t None) y = (y = APtr t None)"
| "deep_equal (APtr t (Some (a, x))) y =
     (case y of
        APtr u p \<Rightarrow> t = u \<and> (case p of None \<Rightarrow> False | Some (b, z) \<Rightarrow> a = b \<or> deep_equal x z)
      | _ \<Rightarrow> False)"
| "deep_equal (ASlice t None) y = (y = ASlice t None)"
| "deep_equal (ASlice t (Some (a, xs))) y =
     (case y of
        ASlice u s \<Rightarrow> t = u \<and>
          (case s of
             None \<Rightarrow> False
           | Some (b, ys) \<Rightarrow> length xs = length ys \<and> (a = b \<or> deep_equal_list xs ys))
      | _ \<Rightarrow> False)"
| "deep_equal (AMap t None) y = (y = AMap t None)"
| "deep_equal (AMap t (Some (a, xs))) y =
     (case y of
        AMap u s \<Rightarrow> t = u \<and>
          (case s of
             None \<Rightarrow> False
           | Some (b, ys) \<Rightarrow> length xs = length ys \<and> (a = b \<or> deep_equal_map xs ys))
      | _ \<Rightarrow> False)"
| "deep_equal (AStruct t xs) y = (case y of AStruct u ys \<Rightarrow> t = u \<and> deep_equal_list xs ys | _ \<Rightarrow> False)"
| "deep_equal (AChan t c) y = (y = AChan t c)"
| "deep_equal (AFunc t f) y = (f = None \<and> y = AFunc t None)"
| "deep_equal (AObj t a) y = (y = AObj t a)"
| "deep_equal_list [] ys = (ys = [])"
| "deep_equal_list (x # xs) ys =
     (case ys of [] \<Rightarrow> False | y # ys' \<Rightarrow> deep_equal x y \<and> deep_equal_list xs ys')"
| "deep_equal_map [] ys = True"
| "deep_equal_map ((k, x) # xs) ys =
     ((case find (\<lambda>(k', _). key_eq k k') ys of None \<Rightarrow> False | Some (_, z) \<Rightarrow> deep_equal x z) \<and>
      deep_equal_map xs ys)"

text \<open>\<open>v.IsNil()\<close> for the kinds that can be nil, and for a nil interface.\<close>

fun is_nil_value :: "any \<Rightarrow> bool" where
  "is_nil_value ANil = True"
| "is_nil_value (APtr t p) = (p = None)"
| "is_nil_value (ASlice t xs) = (xs = None)"
| "is_nil_value (AMap t xs) = (xs = None)"
| "is_nil_value (AChan t c) = (c = None)"
| "is_nil_value (AFunc t f) = (f = None)"
| "is_nil_value x = False"

section \<open>Methods\<close>

text \<open>
  Of a parameter or result type the interceptors ask only whether it is the \<open>error\<close> interface,
  whether it implements \<open>context.Context\<close>, and what its zero value is.
\<close>

datatype rtype = TError | TContext | TCtxImpl string any | TOther string any

fun implements_ctx :: "rtype \<Rightarrow> bool" where
  "implements_ctx TContext = True"
| "implements_ctx (TCtxImpl n z) = True"
| "implements_ctx t = False"

fun zero_of :: "rtype \<Rightarrow> any" where
  "zero_of TError = ANil"
| "zero_of TContext = ANil"
| "zero_of (TCtxImpl n z) = z"
| "zero_of (TOther n z) = z"

record methodT =
  m_name :: string
  m_in :: "rtype list"
  m_out :: "rtype list"

end
