(* ===== verification/ChaosRules.thy ===== *)
theory ChaosRules
  imports GoValues
begin

text \<open>
  chaos/chaos.go: rules, their validation (\<open>check\<close>, \<open>validateSet\<close>), the compiled plan (\<open>rebuild\<close>,
  \<open>match\<close>) and the injector's life cycle (\<open>New\<close>, \<open>Set\<close>, \<open>Disable\<close>, \<open>Enable\<close>).
\<close>

section \<open>Actions and rules\<close>

text \<open>
  A \<open>time.Duration\<close> is a signed 64-bit count of nanoseconds, here an integer with the wrap-around
  written out where the code adds. A \<open>time.Time\<close> is the count of nanoseconds since the zero time,
  so that \<open>IsZero\<close> is equality with 0.
\<close>

type_synonym duration = int
type_synonym gotime = int

definition wrap64 :: "int \<Rightarrow> int" where
  "wrap64 x = (x + 2 ^ 63) mod 2 ^ 64 - 2 ^ 63"

definition isZero :: "gotime \<Rightarrow> bool" where
  "isZero t \<longleftrightarrow> t = 0"

record action =
  a_latency :: duration
  a_err :: "goerr option"
  a_panic :: any

definition Delay :: "duration \<Rightarrow> action" where
  "Delay d = \<lparr>a_latency = d, a_err = None, a_panic = ANil\<rparr>"

definition Fail :: "goerr option \<Rightarrow> action" where
  "Fail e = \<lparr>a_latency = 0, a_err = e, a_panic = ANil\<rparr>"

definition Panic :: "any \<Rightarrow> action" where
  "Panic v = \<lparr>a_latency = 0, a_err = None, a_panic = v\<rparr>"

record rule =
  r_interface :: string
  r_method :: string
  r_rate :: gofloat
  r_actions :: "action list"
  r_maxCount :: int
  r_from :: gotime
  r_until :: gotime

text \<open>\<open>panics\<close>: an action asks for a panic unless its value is nil or the empty string.\<close>

fun panics_value :: "any \<Rightarrow> bool" where
  "panics_value ANil = False"
| "panics_value (AStr s) = (s \<noteq> [])"
| "panics_value v = True"

definition panics :: "action \<Rightarrow> bool" where
  "panics a = panics_value (a_panic a)"

section \<open>Validation\<close>

text \<open>\<open>describe\<close> renders a condition for an error message.\<close>

definition describe :: "string \<Rightarrow> string \<Rightarrow> string" where
  "describe iface method =
     ''interface '' @ (if iface = [] then ''any interface'' else iface) @ '', '' @
     (if method = [] then ''any method'' else method)"

datatype ruleErr =
    BadRate | NegMaxCount | FromAfterUntil | NoActions
  | NegLatency nat | WrongFaultCount nat nat | AfterTerminal nat

definition fault_count :: "action \<Rightarrow> nat" where
  "fault_count a =
     (if a_latency a > 0 then 1 else 0) + (if a_err a \<noteq> None then 1 else 0) +
     (if panics a then 1 else 0)"

fun check_actions :: "nat \<Rightarrow> bool \<Rightarrow> action list \<Rightarrow> ruleErr option" where
  "check_actions i terminal [] = None"
| "check_actions i terminal (a # as) =
     (if a_latency a < 0 then Some (NegLatency i)
      else if fault_count a \<noteq> 1 then Some (WrongFaultCount i (fault_count a))
      else if terminal then Some (AfterTerminal i)
      else check_actions (i + 1) (terminal \<or> a_err a \<noteq> None \<or> panics a) as)"

definition check :: "rule \<Rightarrow> ruleErr option" where
  "check r =
     (if isNaN (r_rate r) \<or> r_rate r \<le> Fin 0 \<or> r_rate r > Fin 1 then Some BadRate
      else if r_maxCount r < 0 then Some NegMaxCount
      else if \<not> isZero (r_from r) \<and> \<not> isZero (r_until r) \<and> r_from r > r_until r
        then Some FromAfterUntil
      else if r_actions r = [] then Some NoActions
      else check_actions 0 False (r_actions r))"

text \<open>
  A rule's condition. Conditions are ordered by specificity: \<open>c \<le> d\<close> when every call that \<open>c\<close>
  matches is matched by \<open>d\<close>, the empty string being the wildcard. A call is itself a condition, so
  \<open>call \<le> c\<close> says that \<open>c\<close> matches the call.
\<close>

datatype condition = Cond (c_iface: string) (c_method: string)

instantiation condition :: order
begin

definition less_eq_condition :: "condition \<Rightarrow> condition \<Rightarrow> bool" where
  "less_eq_condition c d \<longleftrightarrow>
     (c_iface d = [] \<or> c_iface d = c_iface c) \<and> (c_method d = [] \<or> c_method d = c_method c)"

definition less_condition :: "condition \<Rightarrow> condition \<Rightarrow> bool" where
  "less_condition c d \<longleftrightarrow> c \<le> d \<and> \<not> d \<le> (c :: condition)"

instance
proof
  fix x y z :: condition
  show "x < y \<longleftrightarrow> x \<le> y \<and> \<not> y \<le> x" by (simp add: less_condition_def)
  show "x \<le> x" by (simp add: less_eq_condition_def)
  show "x \<le> y \<Longrightarrow> y \<le> z \<Longrightarrow> x \<le> z" by (auto simp: less_eq_condition_def)
  show "x \<le> y \<Longrightarrow> y \<le> x \<Longrightarrow> x = y" by (cases x; cases y) (auto simp: less_eq_condition_def)
qed

end

definition cond_of :: "rule \<Rightarrow> condition" where
  "cond_of r = Cond (r_interface r) (r_method r)"

datatype setErr =
    RuleErr nat ruleErr
  | DupCond nat nat condition
  | Overlap string string

fun validate_loop ::
  "nat \<Rightarrow> (condition \<rightharpoonup> nat) \<Rightarrow> string \<Rightarrow> string \<Rightarrow> rule list \<Rightarrow> setErr option" where
  "validate_loop i seen ifaceWild methodWild [] =
     (if ifaceWild \<noteq> [] \<and> methodWild \<noteq> [] then Some (Overlap ifaceWild methodWild) else None)"
| "validate_loop i seen ifaceWild methodWild (r # rs) =
     (case check r of
        Some e \<Rightarrow> Some (RuleErr i e)
      | None \<Rightarrow>
         (let c = cond_of r
          in case seen c of
               Some j \<Rightarrow> Some (DupCond j i c)
             | None \<Rightarrow>
                 validate_loop (i + 1) (seen(c \<mapsto> i))
                   (if ifaceWild = [] \<and> r_interface r \<noteq> [] \<and> r_method r = []
                    then r_interface r else ifaceWild)
                   (if methodWild = [] \<and> r_interface r = [] \<and> r_method r \<noteq> []
                    then r_method r else methodWild)
                   rs))"

definition validateSet :: "rule list \<Rightarrow> setErr option" where
  "validateSet rs = validate_loop 0 Map.empty [] [] rs"

text \<open>\<open>Validate\<close> is \<open>validateSet\<close>, exported.\<close>

definition Validate :: "rule list \<Rightarrow> setErr option" where
  "Validate rs = validateSet rs"

section \<open>The compiled plan\<close>

text \<open>
  \<open>compiled\<close> without its counter: the budget changes while the rule runs and lives in the state of
  the injector's counters, keyed by the identity of the compiled rule (plan and index).
\<close>

record compiled =
  c_rate :: gofloat
  c_latency :: duration
  c_err :: "goerr option"
  c_panicV :: any
  c_hasPanic :: bool
  c_maxCount :: int
  c_hasWindow :: bool
  c_from :: gotime
  c_until :: gotime

definition compile_action :: "action \<Rightarrow> compiled \<Rightarrow> compiled" where
  "compile_action a c =
     (if a_latency a > 0 then c\<lparr>c_latency := wrap64 (c_latency c + a_latency a)\<rparr>
      else if a_err a \<noteq> None then c\<lparr>c_err := a_err a\<rparr>
      else if panics a then c\<lparr>c_hasPanic := True, c_panicV := a_panic a\<rparr>
      else c)"

definition compile_rule :: "rule \<Rightarrow> compiled" where
  "compile_rule r =
     fold compile_action (r_actions r)
       \<lparr>c_rate = r_rate r, c_latency = 0, c_err = None, c_panicV = ANil, c_hasPanic = False,
        c_maxCount = r_maxCount r,
        c_hasWindow = (\<not> isZero (r_from r) \<or> \<not> isZero (r_until r)),
        c_from = r_from r, c_until = r_until r\<rparr>"

text \<open>
  The maps hold pointers to compiled rules; here the index of the rule in the plan's list. A nil
  Go map reads like an empty one. \<open>plan_id\<close> is the plan's address, which \<open>resolve\<close> compares.
\<close>

record plan =
  plan_id :: nat
  compileds :: "compiled list"
  byIface :: "string \<rightharpoonup> (string \<rightharpoonup> nat)"
  anyIface :: "string \<rightharpoonup> nat"

definition empty_plan :: "nat \<Rightarrow> plan" where
  "empty_plan k = \<lparr>plan_id = k, compileds = [], byIface = Map.empty, anyIface = Map.empty\<rparr>"

definition add_rule :: "rule \<Rightarrow> plan \<Rightarrow> plan" where
  "add_rule r p =
     (let i = length (compileds p); p' = p\<lparr>compileds := compileds p @ [compile_rule r]\<rparr>
      in if r_interface r = []
         then p'\<lparr>anyIface := (anyIface p)(r_method r \<mapsto> i)\<rparr>
         else (let m = (case byIface p (r_interface r) of None \<Rightarrow> Map.empty | Some m \<Rightarrow> m)
               in p'\<lparr>byIface := (byIface p)(r_interface r \<mapsto> m(r_method r \<mapsto> i))\<rparr>))"

definition build_plan :: "nat \<Rightarrow> bool \<Rightarrow> rule list \<Rightarrow> plan" where
  "build_plan k enabled rs = (if enabled then fold add_rule rs (empty_plan k) else empty_plan k)"

definition plan_match :: "plan \<Rightarrow> string \<Rightarrow> string \<Rightarrow> nat option" where
  "plan_match p iface method =
     (let fallback = (case anyIface p method of Some c \<Rightarrow> Some c | None \<Rightarrow> anyIface p [])
      in case byIface p iface of
           Some m \<Rightarrow>
             (case m method of
                Some c \<Rightarrow> Some c
              | None \<Rightarrow> (case m [] of Some c \<Rightarrow> Some c | None \<Rightarrow> fallback))
         | None \<Rightarrow> fallback)"

section \<open>The injector\<close>

text \<open>
  \<open>plan_supply\<close> is the address the next published plan gets; \<open>budget\<close> holds the fault counters of
  all compiled rules ever published, which start at zero.
\<close>

record injector =
  in_rules :: "rule list"
  in_enabled :: bool
  in_plan :: plan
  plan_supply :: nat
  budget :: "nat \<times> nat \<Rightarrow> 64 word"

definition rebuild :: "injector \<Rightarrow> injector" where
  "rebuild s =
     s\<lparr>in_plan := build_plan (plan_supply s) (in_enabled s) (in_rules s),
       plan_supply := plan_supply s + 1\<rparr>"

definition New_injector :: "rule list \<Rightarrow> setErr + injector" where
  "New_injector rs =
     (case validateSet rs of
        Some e \<Rightarrow> Inl e
      | None \<Rightarrow> Inr (rebuild \<lparr>in_rules = rs, in_enabled = True, in_plan = empty_plan 0,
                              plan_supply = 1, budget = (\<lambda>_. 0)\<rparr>))"

text \<open>\<open>Set\<close> panics before it touches the injector: the state after the panic is the old one.\<close>

definition Set_rules :: "rule list \<Rightarrow> injector \<Rightarrow> setErr option \<times> injector" where
  "Set_rules rs s =
     (case validateSet rs of
        Some e \<Rightarrow> (Some e, s)
      | None \<Rightarrow> (None, rebuild (s\<lparr>in_rules := rs, in_enabled := True\<rparr>)))"

definition Disable :: "injector \<Rightarrow> injector" where
  "Disable s = rebuild (s\<lparr>in_enabled := False\<rparr>)"

definition Enable :: "injector \<Rightarrow> injector" where
  "Enable s = rebuild (s\<lparr>in_enabled := True\<rparr>)"

definition Enabled :: "injector \<Rightarrow> bool" where
  "Enabled s = in_enabled s"

definition Rules :: "injector \<Rightarrow> rule list" where
  "Rules s = in_rules s"

end
