(* ===== verification/ChaosOwner.thy ===== *)
theory ChaosOwner
  imports ChaosRules
begin

text \<open>
  What validation guarantees and what the compiled plan computes: \<open>check\<close> and \<open>validateSet\<close> are
  characterised by the documented conditions, the plan's maps are an index of the rules' conditions
  (the interface \<open>condition_index\<close>), and the walk of \<open>match\<close> over such an index finds the most
  specific rule.
\<close>

section \<open>One rule\<close>

definition decides :: "action \<Rightarrow> bool" where
  "decides a \<longleftrightarrow> a_err a \<noteq> None \<or> panics a"

definition one_fault :: "action \<Rightarrow> bool" where
  "one_fault a \<longleftrightarrow>
     (a_latency a > 0 \<and> a_err a = None \<and> \<not> panics a) \<or>
     (a_latency a = 0 \<and> a_err a \<noteq> None \<and> \<not> panics a) \<or>
     (a_latency a = 0 \<and> a_err a = None \<and> panics a)"

lemma one_fault_iff: "one_fault a \<longleftrightarrow> \<not> a_latency a < 0 \<and> fault_count a = 1"
  by (auto simp: one_fault_def fault_count_def)

lemma check_actions_iff:
  "check_actions i t as = None \<longleftrightarrow>
     (\<forall>a\<in>set as. one_fault a) \<and> (t \<longrightarrow> as = []) \<and> (\<forall>a\<in>set (butlast as). \<not> decides a)"
proof (induction as arbitrary: i t)
  case Nil
  show ?case by simp
next
  case (Cons a as)
  have "check_actions i t (a # as) = None \<longleftrightarrow>
          one_fault a \<and> \<not> t \<and> check_actions (i + 1) (t \<or> decides a) as = None"
    by (auto simp: one_fault_iff decides_def simp del: One_nat_def)
  then show ?case
    by (auto simp: Cons.IH)
qed

definition actions_ok :: "action list \<Rightarrow> bool" where
  "actions_ok as \<longleftrightarrow>
     as \<noteq> [] \<and> (\<forall>a\<in>set as. one_fault a) \<and> (\<forall>a\<in>set (butlast as). \<not> decides a)"

lemma rate_ok_iff:
  "\<not> (isNaN x \<or> x \<le> Fin 0 \<or> x > Fin 1) \<longleftrightarrow> (\<exists>q. x = Fin q \<and> 0 < q \<and> q \<le> 1)"
  by (cases x) (auto simp: isNaN_def)

lemma check_spec:
  "check r = None \<longleftrightarrow>
     (\<exists>q. r_rate r = Fin q \<and> 0 < q \<and> q \<le> 1) \<and> 0 \<le> r_maxCount r \<and>
     (r_from r = 0 \<or> r_until r = 0 \<or> r_from r \<le> r_until r) \<and> actions_ok (r_actions r)"
  unfolding rate_ok_iff [symmetric]
  by (auto simp: check_def isZero_def actions_ok_def check_actions_iff)

section \<open>The rule set\<close>

definition comparable :: "condition \<Rightarrow> condition \<Rightarrow> bool" where
  "comparable c d \<longleftrightarrow> c \<le> d \<or> d \<le> c"

definition overlap :: "condition \<Rightarrow> condition \<Rightarrow> bool" where
  "overlap c d \<longleftrightarrow> (\<exists>call. call \<le> c \<and> call \<le> d)"

definition ifaceWilds :: "rule list \<Rightarrow> bool" where
  "ifaceWilds rs \<longleftrightarrow> (\<exists>r\<in>set rs. r_interface r \<noteq> [] \<and> r_method r = [])"

definition methodWilds :: "rule list \<Rightarrow> bool" where
  "methodWilds rs \<longleftrightarrow> (\<exists>r\<in>set rs. r_interface r = [] \<and> r_method r \<noteq> [])"

lemma validate_loop_iff:
  "validate_loop i seen iw mw rs = None \<longleftrightarrow>
     (\<forall>r\<in>set rs. check r = None) \<and> distinct (map cond_of rs) \<and>
     (\<forall>r\<in>set rs. seen (cond_of r) = None) \<and>
     \<not> ((iw \<noteq> [] \<or> ifaceWilds rs) \<and> (mw \<noteq> [] \<or> methodWilds rs))"
proof (induction rs arbitrary: i seen iw mw)
  case Nil
  show ?case by (auto simp: ifaceWilds_def methodWilds_def)
next
  case (Cons r rs)
  show ?case
  proof (cases "check r = None \<and> seen (cond_of r) = None")
    case False
    then show ?thesis
      by (auto simp: Let_def split: option.splits)
  next
    case True
    define iw' where "iw' = (if iw = [] \<and> r_interface r \<noteq> [] \<and> r_method r = [] then r_interface r else iw)"
    define mw' where "mw' = (if mw = [] \<and> r_interface r = [] \<and> r_method r \<noteq> [] then r_method r else mw)"
    have "validate_loop i seen iw mw (r # rs) = validate_loop (i + 1) (seen(cond_of r \<mapsto> i)) iw' mw' rs"
      using True by (simp add: Let_def iw'_def mw'_def)
    moreover have "(iw' \<noteq> [] \<or> ifaceWilds rs) = (iw \<noteq> [] \<or> ifaceWilds (r # rs))"
      by (auto simp: iw'_def ifaceWilds_def)
    moreover have "(mw' \<noteq> [] \<or> methodWilds rs) = (mw \<noteq> [] \<or> methodWilds (r # rs))"
      by (auto simp: mw'_def methodWilds_def)
    moreover have "(\<forall>r'\<in>set rs. (seen(cond_of r \<mapsto> i)) (cond_of r') = None) \<longleftrightarrow>
        cond_of r \<notin> cond_of ` set rs \<and> (\<forall>r'\<in>set rs. seen (cond_of r') = None)"
      by (force simp: image_iff)
    ultimately show ?thesis
      using True by (simp only: Cons.IH) auto
  qed
qed

lemma overlap_iff:
  "overlap c d \<longleftrightarrow>
     (c_iface c = [] \<or> c_iface d = [] \<or> c_iface c = c_iface d) \<and>
     (c_method c = [] \<or> c_method d = [] \<or> c_method c = c_method d)"
  (is "?L \<longleftrightarrow> ?R")
proof
  assume ?L
  then show ?R by (auto simp: overlap_def less_eq_condition_def)
next
  assume R: ?R
  let ?call = "Cond (if c_iface c = [] then c_iface d else c_iface c)
                    (if c_method c = [] then c_method d else c_method c)"
  have "?call \<le> c \<and> ?call \<le> d"
    using R by (auto simp: less_eq_condition_def)
  then show ?L unfolding overlap_def by blast
qed

lemma incomparable_overlap_iff:
  "overlap c d \<and> \<not> comparable c d \<longleftrightarrow>
     (c_iface c \<noteq> [] \<and> c_method c = [] \<and> c_iface d = [] \<and> c_method d \<noteq> []) \<or>
     (c_iface d \<noteq> [] \<and> c_method d = [] \<and> c_iface c = [] \<and> c_method c \<noteq> [])"
  by (auto simp: overlap_iff comparable_def less_eq_condition_def)

definition ordered_conditions :: "condition list \<Rightarrow> bool" where
  "ordered_conditions cs \<longleftrightarrow>
     distinct cs \<and> (\<forall>c\<in>set cs. \<forall>d\<in>set cs. overlap c d \<longrightarrow> comparable c d)"

lemma validateSet_spec:
  "validateSet rs = None \<longleftrightarrow>
     (\<forall>r\<in>set rs. check r = None) \<and> ordered_conditions (map cond_of rs)"
proof -
  have "(\<forall>c\<in>set (map cond_of rs). \<forall>d\<in>set (map cond_of rs). overlap c d \<longrightarrow> comparable c d) \<longleftrightarrow>
        \<not> (\<exists>r\<in>set rs. \<exists>r'\<in>set rs.
              overlap (cond_of r) (cond_of r') \<and> \<not> comparable (cond_of r) (cond_of r'))"
    by auto
  also have "\<dots> \<longleftrightarrow> \<not> (ifaceWilds rs \<and> methodWilds rs)"
    unfolding incomparable_overlap_iff ifaceWilds_def methodWilds_def cond_of_def by auto
  finally show ?thesis
    by (auto simp: validateSet_def validate_loop_iff ordered_conditions_def)
qed

section \<open>Looking a call up\<close>

text \<open>
  The rule that owns a call: the most specific of the conditions that match it.
\<close>

definition owner :: "condition list \<Rightarrow> condition \<Rightarrow> nat \<Rightarrow> bool" where
  "owner cs call i \<longleftrightarrow>
     i < length cs \<and> call \<le> cs ! i \<and> (\<forall>j<length cs. call \<le> cs ! j \<longrightarrow> cs ! i \<le> cs ! j)"

text \<open>
  The interface between the plan and its lookup: an index built from a list of distinct
  conditions that returns the position of a condition in the list.
\<close>

locale condition_index =
  fixes idx :: "condition list \<Rightarrow> condition \<Rightarrow> nat option"
  assumes idx_iff: "distinct cs \<Longrightarrow> idx cs c = Some i \<longleftrightarrow> i < length cs \<and> cs ! i = c"
begin

definition walk :: "condition list \<Rightarrow> string \<Rightarrow> string \<Rightarrow> nat option" where
  "walk cs f m =
     (case idx cs (Cond f m) of Some i \<Rightarrow> Some i | None \<Rightarrow>
      (case idx cs (Cond f []) of Some i \<Rightarrow> Some i | None \<Rightarrow>
       (case idx cs (Cond [] m) of Some i \<Rightarrow> Some i | None \<Rightarrow> idx cs (Cond [] []))))"

lemma idx_None: "distinct cs \<Longrightarrow> idx cs c = None \<longleftrightarrow> c \<notin> set cs"
  by (metis idx_iff in_set_conv_nth not_Some_eq)

lemma above_call:
  "Cond f m \<le> c \<longleftrightarrow> c = Cond f m \<or> c = Cond f [] \<or> c = Cond [] m \<or> c = Cond [] []"
  by (cases c) (auto simp: less_eq_condition_def)

lemma walk_owner:
  assumes cs: "ordered_conditions cs" and w: "walk cs f m = Some i"
  shows "owner cs (Cond f m) i"
proof -
  have d: "distinct cs" using cs by (simp add: ordered_conditions_def)
  have ord: "c \<in> set cs \<Longrightarrow> d \<in> set cs \<Longrightarrow> overlap c d \<Longrightarrow> c \<le> d \<or> d \<le> c" for c d
    using cs by (auto simp: ordered_conditions_def comparable_def)
  have found: "i < length cs \<and>
      (cs ! i = Cond f m \<or>
       (cs ! i = Cond f [] \<and> Cond f m \<notin> set cs) \<or>
       (cs ! i = Cond [] m \<and> Cond f m \<notin> set cs \<and> Cond f [] \<notin> set cs) \<or>
       (cs ! i = Cond [] [] \<and> Cond f m \<notin> set cs \<and> Cond f [] \<notin> set cs \<and> Cond [] m \<notin> set cs))"
    using w d by (auto simp: walk_def idx_iff idx_None split: option.splits)
  then have i: "i < length cs" and ci: "Cond f m \<le> cs ! i"
    by (auto simp: less_eq_condition_def)
  have least: "cs ! i \<le> c \<or> (cs ! i = Cond f [] \<and> f \<noteq> [] \<and> c = Cond [] m)"
    if "Cond f m \<le> c" and "c \<in> set cs" for c
    using that(2) found that(1) [unfolded above_call]
    by (elim disjE conjE) (auto simp: less_eq_condition_def)
  have "cs ! i \<le> cs ! j" if j: "j < length cs" and cj: "Cond f m \<le> cs ! j" for j
  proof -
    have "overlap (cs ! i) (cs ! j)" using ci cj by (auto simp: overlap_def)
    with ord [of "cs ! i" "cs ! j"] i j have "cs ! i \<le> cs ! j \<or> cs ! j \<le> cs ! i" by simp
    with least [OF cj] j show ?thesis
      by (auto simp: less_eq_condition_def)
  qed
  with i ci show ?thesis by (simp add: owner_def)
qed

lemma owner_unique:
  assumes "distinct cs" "owner cs call i" "owner cs call j"
  shows "i = j"
proof -
  from assms have "cs ! i = cs ! j" by (auto simp: owner_def intro: antisym)
  with assms show ?thesis by (simp add: owner_def nth_eq_iff_index_eq)
qed

lemma walk_None:
  "distinct cs \<Longrightarrow> walk cs f m = None \<longleftrightarrow> (\<forall>c\<in>set cs. \<not> Cond f m \<le> c)"
proof -
  assume d: "distinct cs"
  have "walk cs f m = None \<longleftrightarrow>
      idx cs (Cond f m) = None \<and> idx cs (Cond f []) = None \<and>
      idx cs (Cond [] m) = None \<and> idx cs (Cond [] []) = None"
    by (simp add: walk_def split: option.split)
  also have "\<dots> \<longleftrightarrow> (\<forall>c\<in>set cs. \<not> Cond f m \<le> c)"
    unfolding idx_None [OF d] above_call by blast
  finally show ?thesis .
qed

theorem walk_eq_Some:
  assumes cs: "ordered_conditions cs"
  shows "walk cs f m = Some i \<longleftrightarrow> owner cs (Cond f m) i"
proof
  assume "walk cs f m = Some i"
  with cs show "owner cs (Cond f m) i" by (rule walk_owner)
next
  assume o: "owner cs (Cond f m) i"
  have d: "distinct cs" using cs by (simp add: ordered_conditions_def)
  have "walk cs f m \<noteq> None"
  proof
    assume "walk cs f m = None"
    then have "\<forall>c\<in>set cs. \<not> Cond f m \<le> c"
      using d by (simp add: walk_None)
    with o show False by (auto simp: owner_def)
  qed
  then obtain j where w: "walk cs f m = Some j" by auto
  with cs have "owner cs (Cond f m) j" by (rule walk_owner)
  with owner_unique [OF d o] w show "walk cs f m = Some i" by simp
qed

end

section \<open>The plan is an index of the rules' conditions\<close>

definition plan_lookup :: "plan \<Rightarrow> condition \<Rightarrow> nat option" where
  "plan_lookup p c =
     (if c_iface c = [] then anyIface p (c_method c)
      else (case byIface p (c_iface c) of None \<Rightarrow> None | Some m \<Rightarrow> m (c_method c)))"

lemma plan_lookup_add_rule:
  "plan_lookup (add_rule r p) c =
     (if c = cond_of r then Some (length (compileds p)) else plan_lookup p c)"
  by (cases c) (auto simp: plan_lookup_def add_rule_def Let_def cond_of_def split: option.splits)

lemma compileds_add_rule [simp]: "compileds (add_rule r p) = compileds p @ [compile_rule r]"
  by (simp add: add_rule_def Let_def)

lemma plan_id_add_rule [simp]: "plan_id (add_rule r p) = plan_id p"
  by (simp add: add_rule_def Let_def)

lemma compileds_fold [simp]:
  "compileds (fold add_rule rs p) = compileds p @ map compile_rule rs"
  by (induction rs arbitrary: p) simp_all

lemma plan_id_fold [simp]: "plan_id (fold add_rule rs p) = plan_id p"
  by (induction rs arbitrary: p) simp_all

lemma byIface_empty_add_rule: "byIface p [] = None \<Longrightarrow> byIface (add_rule r p) [] = None"
  by (simp add: add_rule_def Let_def)

lemma byIface_empty_fold: "byIface p [] = None \<Longrightarrow> byIface (fold add_rule rs p) [] = None"
  by (induction rs arbitrary: p) (simp_all add: byIface_empty_add_rule)

lemma plan_lookup_fold:
  "distinct (map cond_of rs) \<Longrightarrow>
   plan_lookup (fold add_rule rs p) c = Some i \<longleftrightarrow>
     (\<exists>j<length rs. cond_of (rs ! j) = c \<and> i = length (compileds p) + j) \<or>
     (c \<notin> cond_of ` set rs \<and> plan_lookup p c = Some i)"
proof (induction rs arbitrary: p)
  case Nil
  show ?case by simp
next
  case (Cons r rs)
  have nth: "(\<exists>j<length (r # rs). cond_of ((r # rs) ! j) = c \<and> i = k + j) \<longleftrightarrow>
      (cond_of r = c \<and> i = k) \<or> (\<exists>j<length rs. cond_of (rs ! j) = c \<and> i = Suc k + j)" for k
    by (auto simp: less_Suc_eq_0_disj)
  from Cons.prems have "c = cond_of r \<Longrightarrow> c \<notin> cond_of ` set rs" by auto
  with Cons.prems show ?case
    unfolding nth by (auto simp: Cons.IH plan_lookup_add_rule)
qed

definition cond_rule :: "condition \<Rightarrow> rule" where
  "cond_rule c =
     \<lparr>r_interface = c_iface c, r_method = c_method c, r_rate = Fin 1, r_actions = [],
      r_maxCount = 0, r_from = 0, r_until = 0\<rparr>"

lemma plan_lookup_build:
  assumes "distinct (map cond_of rs)"
  shows "plan_lookup (build_plan k True rs) c = Some i \<longleftrightarrow>
           i < length rs \<and> cond_of (rs ! i) = c"
proof -
  have "plan_lookup (empty_plan k) c = None" "compileds (empty_plan k) = []"
    by (simp_all add: plan_lookup_def empty_plan_def)
  then show ?thesis
    using plan_lookup_fold [OF assms, of "empty_plan k"] by (auto simp: build_plan_def)
qed

lemma plan_lookup_conditions:
  "plan_lookup (fold add_rule rs p) c = plan_lookup (fold add_rule (map (cond_rule \<circ> cond_of) rs) p) c"
proof -
  have "plan_lookup p = plan_lookup q \<Longrightarrow> length (compileds p) = length (compileds q) \<Longrightarrow>
      plan_lookup (fold add_rule rs p) =
      plan_lookup (fold add_rule (map (cond_rule \<circ> cond_of) rs) q)" for p q
  proof (induction rs arbitrary: p q)
    case (Cons r rs)
    have "cond_of (cond_rule (cond_of r)) = cond_of r"
      by (simp add: cond_of_def cond_rule_def)
    then have "plan_lookup (add_rule r p) = plan_lookup (add_rule (cond_rule (cond_of r)) q)"
      using Cons.prems by (auto simp: plan_lookup_add_rule fun_eq_iff)
    from Cons.IH [OF this] Cons.prems(2) show ?case by simp
  qed simp
  then show ?thesis by auto
qed

definition plan_idx :: "condition list \<Rightarrow> condition \<Rightarrow> nat option" where
  "plan_idx cs = plan_lookup (build_plan 0 True (map cond_rule cs))"

lemma map_cond_of_cond_rule [simp]: "cond_of (cond_rule c) = c"
  by (cases c) (simp add: cond_of_def cond_rule_def)

interpretation plans: condition_index plan_idx
proof
  fix cs c i
  assume "distinct (cs :: condition list)"
  then have "distinct (map cond_of (map cond_rule cs))" by (simp add: comp_def)
  from plan_lookup_build [OF this, of 0 c i]
  show "plan_idx cs c = Some i \<longleftrightarrow> i < length cs \<and> cs ! i = c"
    by (auto simp: plan_idx_def)
qed

lemma plan_lookup_plan_idx:
  "plan_lookup (build_plan k True rs) c = plan_idx (map cond_of rs) c"
proof -
  have "plan_lookup (fold add_rule xs p) = plan_lookup (fold add_rule xs q)"
    if "byIface p = byIface q" "anyIface p = anyIface q" "length (compileds p) = length (compileds q)"
    for xs p q
    using that
  proof (induction xs arbitrary: p q)
    case Nil
    then show ?case by (simp add: plan_lookup_def fun_eq_iff)
  next
    case (Cons r xs)
    have "byIface (add_rule r p) = byIface (add_rule r q)"
      and "anyIface (add_rule r p) = anyIface (add_rule r q)"
      and "length (compileds (add_rule r p)) = length (compileds (add_rule r q))"
      using Cons.prems by (simp_all add: add_rule_def Let_def)
    from Cons.IH [OF this] show ?case by simp
  qed
  note same = this
  have "plan_lookup (build_plan k True rs) c = plan_lookup (fold add_rule rs (empty_plan k)) c"
    by (simp add: build_plan_def)
  also have "\<dots> = plan_lookup (fold add_rule rs (empty_plan 0)) c"
    using same [of "empty_plan k" "empty_plan 0" rs] by (simp add: empty_plan_def)
  also have "\<dots> = plan_lookup (fold add_rule (map (cond_rule \<circ> cond_of) rs) (empty_plan 0)) c"
    by (rule plan_lookup_conditions)
  also have "\<dots> = plan_idx (map cond_of rs) c"
    by (simp add: plan_idx_def build_plan_def)
  finally show ?thesis .
qed

lemma plan_match_walk:
  "plan_match (build_plan k True rs) f m = plans.walk (map cond_of rs) f m"
proof -
  let ?p = "build_plan k True rs"
  have "byIface ?p [] = None"
    by (simp add: build_plan_def empty_plan_def byIface_empty_fold)
  then have "plan_match ?p f m =
     (case plan_lookup ?p (Cond f m) of Some i \<Rightarrow> Some i | None \<Rightarrow>
      (case plan_lookup ?p (Cond f []) of Some i \<Rightarrow> Some i | None \<Rightarrow>
       (case plan_lookup ?p (Cond [] m) of Some i \<Rightarrow> Some i | None \<Rightarrow> plan_lookup ?p (Cond [] []))))"
    by (auto simp: plan_match_def plan_lookup_def Let_def split: option.splits)
  then show ?thesis
    unfolding plan_lookup_plan_idx plans.walk_def .
qed

lemma plan_match_owner:
  assumes "validateSet rs = None"
  shows "plan_match (build_plan k True rs) f m = Some i \<longleftrightarrow>
           owner (map cond_of rs) (Cond f m) i"
  using assms by (simp add: plan_match_walk validateSet_spec plans.walk_eq_Some)

lemma plan_match_disabled [simp]: "plan_match (build_plan k False rs) f m = None"
  by (simp add: plan_match_def build_plan_def empty_plan_def)

end
