(* ===== verification/ChaosInject.thy ===== *)
theory ChaosInject
  imports ChaosOwner
begin

text \<open>
  chaos/inject.go: what one intercepted call does. A method is its name and its parameter and result
  types; the effects of a call on the clock are a trace of sleeps, and its outcome is a value of
  \<open>outcome\<close>.
\<close>

section \<open>Error results and contexts\<close>

text \<open>The search for the error result runs backwards over the results.\<close>

fun errorResult_from :: "rtype list \<Rightarrow> nat \<Rightarrow> int" where
  "errorResult_from outs 0 = - 1"
| "errorResult_from outs (Suc i) =
     (if outs ! i = TError then int i else errorResult_from outs i)"

definition errorResult :: "methodT \<Rightarrow> int" where
  "errorResult m = errorResult_from (m_out m) (length (m_out m))"

text \<open>
  \<open>callContext\<close>: the first argument of a type that implements \<open>context.Context\<close> and holds one; an
  argument that is a nil interface is passed over.
\<close>

fun callContext_loop :: "rtype list \<Rightarrow> any list \<Rightarrow> any option" where
  "callContext_loop [] args = None"
| "callContext_loop (t # ts) args =
     (case args of
        [] \<Rightarrow> None
      | v # vs \<Rightarrow>
          if implements_ctx t \<and> v \<noteq> ANil then Some v else callContext_loop ts vs)"

definition callContext :: "methodT \<Rightarrow> any list \<Rightarrow> any option" where
  "callContext m args = callContext_loop (m_in m) args"

section \<open>Bindings\<close>

text \<open>
  A \<open>bound\<close> refers to its compiled rule by plan address and index, as the budgets do. The proxy view
  keeps the binding it last resolved; \<open>resolve\<close> compares the addresses of the plans.
\<close>

type_synonym rule_ref = "nat \<times> nat"

record bound =
  b_seq :: "64 word"
  b_rule :: "rule_ref option"
  b_errOut :: int

record binding =
  bd_plan :: nat
  bd_table :: "bound list"

record proxyView =
  ifaceName :: string
  methods :: "methodT list"
  cur :: "binding option"

definition bind_method :: "plan \<Rightarrow> string \<Rightarrow> methodT \<Rightarrow> bound" where
  "bind_method p iface m =
     (case plan_match p iface (m_name m) of
        None \<Rightarrow> \<lparr>b_seq = 0, b_rule = None, b_errOut = 0\<rparr>
      | Some i \<Rightarrow> \<lparr>b_seq = 0, b_rule = Some (plan_id p, i), b_errOut = errorResult m\<rparr>)"

definition fresh_binding :: "plan \<Rightarrow> proxyView \<Rightarrow> binding" where
  "fresh_binding p b =
     \<lparr>bd_plan = plan_id p, bd_table = map (bind_method p (ifaceName b)) (methods b)\<rparr>"

definition resolve :: "injector \<Rightarrow> proxyView \<Rightarrow> binding \<times> proxyView" where
  "resolve s b =
     (case cur b of
        Some bd \<Rightarrow>
          if bd_plan bd = plan_id (in_plan s) then (bd, b)
          else (let bd' = fresh_binding (in_plan s) b in (bd', b\<lparr>cur := Some bd'\<rparr>))
      | None \<Rightarrow> (let bd' = fresh_binding (in_plan s) b in (bd', b\<lparr>cur := Some bd'\<rparr>)))"

text \<open>\<open>WrapOf\<close> makes a view with no binding yet; nothing is resolved before the first call.\<close>

definition WrapOf :: "string \<Rightarrow> methodT list \<Rightarrow> proxyView" where
  "WrapOf iface ms = \<lparr>ifaceName = iface, methods = ms, cur = None\<rparr>"

section \<open>Windows, samples and waits\<close>

definition active :: "gotime \<Rightarrow> compiled \<Rightarrow> bool" where
  "active now r =
     (if \<not> isZero (c_from r) \<and> now < c_from r then False
      else if \<not> isZero (c_until r) \<and> now > c_until r then False
      else True)"

definition xorshift :: "nat \<Rightarrow> 64 word \<Rightarrow> 64 word" where
  "xorshift k x = x XOR drop_bit k x"

definition mix :: "64 word \<Rightarrow> 64 word" where
  "mix n =
     (let x0 = n * 0x9E3779B97F4A7C15;
          x1 = xorshift 30 x0 * 0xBF58476D1CE4E5B9;
          x2 = xorshift 27 x1 * 0x94D049BB133111EB
      in xorshift 31 x2)"

text \<open>\<open>float64(x>>11) * (1.0 / (1 << 53))\<close>: both the conversion and the product are exact.\<close>

definition sample :: "64 word \<Rightarrow> gofloat" where
  "sample n = Fin (of_nat (unat (drop_bit 11 (mix n))) / 2 ^ 53)"

text \<open>\<open>wait\<close>: a plain sleep, or a wait that ends with the timer or with the context.\<close>

datatype effect = Sleep duration | WaitCtx any duration

definition wait :: "methodT \<Rightarrow> any list \<Rightarrow> duration \<Rightarrow> effect" where
  "wait m args d =
     (case callContext m args of None \<Rightarrow> Sleep d | Some ctx \<Rightarrow> WaitCtx ctx d)"

section \<open>The interceptor\<close>

datatype outcome = Proceeded | Panicked any | Returned "any list"

definition rule_at :: "injector \<Rightarrow> rule_ref \<Rightarrow> compiled" where
  "rule_at s ref = compileds (in_plan s) ! snd ref"

text \<open>The actions of a compiled rule, applied to a call that is to be faulted.\<close>

definition apply_fault :: "compiled \<Rightarrow> int \<Rightarrow> methodT \<Rightarrow> any list \<Rightarrow> effect list \<times> outcome" where
  "apply_fault r errOut m args =
     ((if c_latency r > 0 then [wait m args (c_latency r)] else []),
      (if c_hasPanic r then Panicked (c_panicV r)
       else case c_err r of
              Some e \<Rightarrow>
                if errOut \<ge> 0 then Returned ((map zero_of (m_out m))[nat errOut := AErr e])
                else Proceeded
            | None \<Rightarrow> Proceeded))"

text \<open>
  \<open>intercept\<close> run alone, without other goroutines between its atomic operations. \<open>bump\<close> is
  \<open>atomic.AddUint64(&e.seq, 1)\<close> on the binding's table.
\<close>

definition bump :: "nat \<Rightarrow> proxyView \<Rightarrow> proxyView" where
  "bump i b =
     (case cur b of
        None \<Rightarrow> b
      | Some bd \<Rightarrow>
          b\<lparr>cur := Some (bd\<lparr>bd_table := (bd_table bd)[i := (bd_table bd ! i)\<lparr>b_seq := b_seq (bd_table bd ! i) + 1\<rparr>]\<rparr>)\<rparr>)"

definition spend :: "rule_ref \<Rightarrow> injector \<Rightarrow> injector" where
  "spend ref s = s\<lparr>budget := (budget s)(ref := budget s ref + 1)\<rparr>"

definition intercept ::
  "gotime \<Rightarrow> nat \<Rightarrow> any list \<Rightarrow> injector \<Rightarrow> proxyView \<Rightarrow> (effect list \<times> outcome) \<times> injector \<times> proxyView"
where
  "intercept now i args s b =
     (let (bd, b1) = resolve s b; e = bd_table bd ! i in
      case b_rule e of
        None \<Rightarrow> (([], Proceeded), s, b1)
      | Some ref \<Rightarrow>
          (let r = rule_at s ref in
           if c_hasWindow r \<and> \<not> active now r then (([], Proceeded), s, b1)
           else if c_maxCount r > 0 \<and> budget s ref \<ge> of_int (c_maxCount r) then (([], Proceeded), s, b1)
           else (let b2 = bump i b1 in
             if sample (b_seq e + 1) \<ge> c_rate r then (([], Proceeded), s, b2)
             else (let s1 = (if c_maxCount r > 0 then spend ref s else s) in
               (apply_fault r (b_errOut e) (methods b ! i) args, s1, b2)))))"

end
