(* ===== verification/ChaosSample.thy ===== *)
theory ChaosSample
  imports ChaosInject
begin

text \<open>
  The sampling of chaos/inject.go: the mix is a bijection of the 64-bit words, a sample lies in
  [0, 1), and over the whole range of the ordinal exactly the fraction \<open>rate\<close> of the calls is
  faulted (up to the granularity 2^-53 of the sample).
\<close>

section \<open>The mix is a bijection\<close>

lemma word_inj_mult:
  fixes c d :: "64 word"
  assumes "d * c = 1"
  shows "inj (\<lambda>x. x * c)"
proof (rule injI)
  fix x y assume "x * c = y * c"
  then have "(d * c) * x = (d * c) * y" by (simp add: mult.assoc mult.commute [of c])
  then show "x = y" using assms by simp
qed

lemma drop_bit_fixed_zero:
  fixes z :: "64 word"
  assumes "0 < k" and z: "z = drop_bit k z"
  shows "z = 0"
proof -
  have "unat z = unat z div 2 ^ k"
    using z by (metis drop_bit_eq_div unsigned_drop_bit_eq take_bit_nat_eq_self_iff unsigned_less
        take_bit_drop_bit min.idem)
  moreover have "unat z div 2 ^ k < unat z" if "unat z \<noteq> 0"
    using that \<open>0 < k\<close> by (intro div_less_dividend) (use one_less_power [of "2 :: nat" k] in simp_all)
  ultimately show ?thesis by (metis less_irrefl unsigned_eq_0_iff)
qed

lemma inj_xorshift: "0 < k \<Longrightarrow> inj (xorshift k)"
proof (rule injI)
  fix x y assume k: "0 < k" and e: "xorshift k x = xorshift k y"
  have "x XOR y = drop_bit k (x XOR y)"
    using e unfolding xorshift_def
    by (metis (no_types, lifting) drop_bit_xor xor.left_commute xor.commute xor_self_eq xor.right_neutral)
  with k have "x XOR y = 0" by (rule drop_bit_fixed_zero)
  then have "x XOR (x XOR y) = x XOR 0" by (rule arg_cong)
  then show "x = y" by (simp add: xor.assoc [symmetric])
qed

lemma mix_comp:
  "mix = xorshift 31 \<circ> (\<lambda>x. x * 0x94D049BB133111EB) \<circ> xorshift 27 \<circ>
         (\<lambda>x. x * 0xBF58476D1CE4E5B9) \<circ> xorshift 30 \<circ> (\<lambda>x. x * 0x9E3779B97F4A7C15)"
  by (simp add: mix_def Let_def fun_eq_iff)

lemma inj_mix: "inj mix"
  unfolding mix_comp
  by (intro inj_compose inj_xorshift
      word_inj_mult [of "0xf1de83e19937733d" "0x9E3779B97F4A7C15"]
      word_inj_mult [of "0x96de1b173f119089" "0xBF58476D1CE4E5B9"]
      word_inj_mult [of "0x319642b2d24d8ec3" "0x94D049BB133111EB"]) simp_all

lemma bij_mix: "bij mix"
  using inj_mix by (simp add: bij_def finite_UNIV_inj_surj)

section \<open>The fraction of faulted calls\<close>

lemma unat_drop_11: "unat (drop_bit 11 x) = unat x div 2 ^ 11" for x :: "64 word"
  using unsigned_less [of x, where ?'a = nat]
  by (simp only: unsigned_drop_bit_eq) (simp add: take_bit_nat_eq_self drop_bit_eq_div)

lemma sample_mix: "sample n = Fin (of_nat (unat (mix n) div 2 ^ 11) / 2 ^ 53)"
  by (simp add: sample_def unat_drop_11)

lemma sample_bounds: "Fin 0 \<le> sample n" "sample n < Fin 1"
proof -
  show "Fin 0 \<le> sample n" by (simp add: sample_mix)
  have "unat (mix n) div 2 ^ 11 < 2 ^ 53"
    using unsigned_less [of "mix n", where ?'a = nat] by (simp add: less_mult_imp_div_less)
  then have "(of_nat (unat (mix n) div 2 ^ 11) :: rat) < of_nat (2 ^ 53)"
    by (simp only: of_nat_less_iff)
  then show "sample n < Fin 1" by (simp add: sample_mix)
qed

lemma card_words_below:
  "N \<le> 2 ^ 53 \<Longrightarrow> card {x :: 64 word. unat x div 2 ^ 11 < N} = N * 2 ^ 11"
proof -
  assume N: "N \<le> 2 ^ 53"
  have "{x :: 64 word. unat x div 2 ^ 11 < N} = of_nat ` {..< N * 2 ^ 11}" (is "?A = _")
  proof
    show "?A \<subseteq> of_nat ` {..< N * 2 ^ 11}"
    proof
      fix x assume "x \<in> ?A"
      then have "unat x < N * 2 ^ 11" by (simp add: div_less_iff_less_mult)
      moreover have "x = of_nat (unat x)" by simp
      ultimately show "x \<in> of_nat ` {..< N * 2 ^ 11}" by blast
    qed
    show "of_nat ` {..< N * 2 ^ 11} \<subseteq> ?A"
      using N by (auto simp: unat_of_nat take_bit_nat_eq_self div_less_iff_less_mult)
  qed
  moreover have "inj_on (of_nat :: nat \<Rightarrow> 64 word) {..< N * 2 ^ 11}"
  proof (rule inj_onI)
    fix a b :: nat
    assume "a \<in> {..< N * 2 ^ 11}" "b \<in> {..< N * 2 ^ 11}" "(of_nat a :: 64 word) = of_nat b"
    moreover from this N have "a < 2 ^ 64" "b < 2 ^ 64" by auto
    ultimately show "a = b"
      by (simp add: word_of_nat_eq_iff take_bit_nat_eq_self)
  qed
  ultimately show ?thesis by (simp add: card_image)
qed

lemma sample_less_iff:
  "sample n < Fin q \<longleftrightarrow> unat (mix n) div 2 ^ 11 < nat \<lceil>q * 2 ^ 53\<rceil>"
proof -
  let ?u = "unat (mix n) div 2 ^ 11"
  have "sample n < Fin q \<longleftrightarrow> (of_nat ?u :: rat) < q * 2 ^ 53"
    by (simp add: sample_mix divide_less_eq)
  also have "\<dots> \<longleftrightarrow> int ?u < \<lceil>q * 2 ^ 53\<rceil>"
    by (simp add: less_ceiling_iff)
  also have "\<dots> \<longleftrightarrow> ?u < nat \<lceil>q * 2 ^ 53\<rceil>" by linarith
  finally show ?thesis .
qed

lemma card_sample_less:
  assumes "0 < q" "q \<le> 1"
  shows "card {n. sample n < Fin q} = nat \<lceil>q * 2 ^ 53\<rceil> * 2 ^ 11"
proof -
  let ?N = "nat \<lceil>q * 2 ^ 53\<rceil>"
  have "{n. sample n < Fin q} = mix -` {x. unat x div 2 ^ 11 < ?N}"
    by (auto simp: sample_less_iff)
  then have "card {n. sample n < Fin q} = card {x :: 64 word. unat x div 2 ^ 11 < ?N}"
    using bij_mix by (simp only: card_vimage_inj [OF inj_mix] bij_def subset_UNIV)
  moreover have "?N \<le> 2 ^ 53"
    using assms by (simp add: nat_le_iff ceiling_le_iff)
  ultimately show ?thesis by (simp only: card_words_below)
qed

end
