(* ===== verification/ChaosLife.thy ===== *)
theory ChaosLife
  imports ChaosSample
begin

text \<open>
  An injector over time: what a compiled rule does against its list of actions, the injector and its
  proxies under any sequence of operations (\<open>reach\<close>), and the budget under concurrent calls
  (\<open>race\<close>).
\<close>

section \<open>A compiled rule runs its actions in order\<close>

datatype ending = EndCall | EndErr goerr | EndPanic any

fun run_actions :: "action list \<Rightarrow> int \<times> ending" where
  "run_actions [] = (0, EndCall)"
| "run_actions (a # as) =
     (if decides a
      then (0, case a_err a of Some e \<Rightarrow> EndErr e | None \<Rightarrow> EndPanic (a_panic a))
      else (a_latency a + fst (run_actions as), snd (run_actions as)))"

definition ending_of :: "compiled \<Rightarrow> ending" where
  "ending_of c =
     (if c_hasPanic c then EndPanic (c_panicV c)
      else case c_err c of Some e \<Rightarrow> EndErr e | None \<Rightarrow> EndCall)"

lemma wrap64_mod: "wrap64 (wrap64 x + y) = wrap64 (x + y)"
proof -
  have "wrap64 x + y + 2 ^ 63 = (x + 2 ^ 63) mod 2 ^ 64 + y" by (simp add: wrap64_def)
  then have "(wrap64 x + y + 2 ^ 63) mod 2 ^ 64 = ((x + 2 ^ 63) mod 2 ^ 64 + y) mod 2 ^ 64"
    by (simp only:)
  also have "\<dots> = (x + y + 2 ^ 63) mod 2 ^ 64"
    by (simp only: mod_add_left_eq) (simp add: algebra_simps)
  finally show ?thesis by (simp add: wrap64_def)
qed

lemma wrap64_0 [simp]: "wrap64 0 = 0"
  by (simp add: wrap64_def)

lemma wrap64_id: "- (2 ^ 63) \<le> x \<Longrightarrow> x < 2 ^ 63 \<Longrightarrow> wrap64 x = x"
  by (simp add: wrap64_def)

lemma fold_compile_action:
  assumes "\<forall>a\<in>set as. one_fault a" "\<forall>a\<in>set (butlast as). \<not> decides a"
    and "ending_of c = EndCall"
  shows "c_latency c = wrap64 t \<Longrightarrow>
           c_latency (fold compile_action as c) = wrap64 (t + fst (run_actions as)) \<and>
           ending_of (fold compile_action as c) = snd (run_actions as)"
  using assms
proof (induction as arbitrary: c t)
  case Nil
  then show ?case by simp
next
  case (Cons a as)
  show ?case
  proof (cases "decides a")
    case True
    with Cons.prems have "as = []" by (auto split: if_splits)
    with True Cons.prems show ?thesis
      by (auto simp: compile_action_def ending_of_def decides_def one_fault_def split: option.splits if_splits)
  next
    case False
    let ?c = "compile_action a c"
    from False Cons.prems have "0 < a_latency a" by (auto simp: one_fault_def decides_def)
    with Cons.prems have "c_latency ?c = wrap64 (t + a_latency a)" "ending_of ?c = EndCall"
      by (auto simp: compile_action_def wrap64_mod ending_of_def split: if_splits)
    moreover have "\<forall>b\<in>set as. one_fault b" "\<forall>b\<in>set (butlast as). \<not> decides b"
      using Cons.prems by (auto split: if_splits)
    ultimately have "c_latency (fold compile_action as ?c) = wrap64 (t + a_latency a + fst (run_actions as)) \<and>
        ending_of (fold compile_action as ?c) = snd (run_actions as)"
      by (intro Cons.IH) auto
    with False show ?thesis by (simp add: add.assoc)
  qed
qed

lemma compile_rule_runs:
  assumes "check r = None"
  shows "c_latency (compile_rule r) = wrap64 (fst (run_actions (r_actions r)))"
    and "ending_of (compile_rule r) = snd (run_actions (r_actions r))"
  using assms fold_compile_action [of "r_actions r" _ 0]
  by (simp_all add: compile_rule_def check_spec actions_ok_def ending_of_def)

lemma compile_action_fields [simp]:
  "c_rate (compile_action a c) = c_rate c" "c_maxCount (compile_action a c) = c_maxCount c"
  "c_hasWindow (compile_action a c) = c_hasWindow c" "c_from (compile_action a c) = c_from c"
  "c_until (compile_action a c) = c_until c"
  by (simp_all add: compile_action_def)

lemma fold_compile_fields [simp]:
  "c_rate (fold compile_action as c) = c_rate c"
  "c_maxCount (fold compile_action as c) = c_maxCount c"
  "c_hasWindow (fold compile_action as c) = c_hasWindow c"
  "c_from (fold compile_action as c) = c_from c" "c_until (fold compile_action as c) = c_until c"
  by (induction as arbitrary: c) simp_all

lemma compile_rule_fields [simp]:
  "c_rate (compile_rule r) = r_rate r" "c_maxCount (compile_rule r) = r_maxCount r"
  "c_hasWindow (compile_rule r) = (r_from r \<noteq> 0 \<or> r_until r \<noteq> 0)"
  "c_from (compile_rule r) = r_from r" "c_until (compile_rule r) = r_until r"
  by (simp_all add: compile_rule_def isZero_def)

lemma errorResult_from_spec:
  "errorResult_from outs n =
     (if \<exists>i<n. outs ! i = TError then int (GREATEST i. i < n \<and> outs ! i = TError) else - 1)"
proof (induction n)
  case 0
  show ?case by simp
next
  case (Suc n)
  show ?case
  proof (cases "outs ! n = TError")
    case True
    then have "(GREATEST i. i < Suc n \<and> outs ! i = TError) = n"
      by (intro Greatest_equality) auto
    with True show ?thesis by auto
  next
    case False
    then have "(\<lambda>i. i < Suc n \<and> outs ! i = TError) = (\<lambda>i. i < n \<and> outs ! i = TError)"
      by (auto simp: less_Suc_eq fun_eq_iff)
    with False Suc show ?thesis by simp
  qed
qed

text \<open>What the rule's documentation says a faulted call does.\<close>

definition in_window :: "gotime \<Rightarrow> rule \<Rightarrow> bool" where
  "in_window now r \<longleftrightarrow>
     (r_from r = 0 \<or> r_from r \<le> now) \<and> (r_until r = 0 \<or> now \<le> r_until r)"

definition faulted :: "rule \<Rightarrow> methodT \<Rightarrow> any list \<Rightarrow> effect list \<times> outcome" where
  "faulted r m args =
     (let (t, e) = run_actions (r_actions r); d = wrap64 t in
      ((if d > 0 then [wait m args d] else []),
       (case e of
          EndPanic v \<Rightarrow> Panicked v
        | EndErr x \<Rightarrow>
            (if TError \<in> set (m_out m)
             then Returned ((map zero_of (m_out m))[nat (errorResult m) := AErr x])
             else Proceeded)
        | EndCall \<Rightarrow> Proceeded)))"

lemma errorResult_nonneg: "0 \<le> errorResult m \<longleftrightarrow> TError \<in> set (m_out m)"
  by (auto simp: errorResult_def errorResult_from_spec in_set_conv_nth)

lemma apply_fault_faulted:
  "check r = None \<Longrightarrow> apply_fault (compile_rule r) (errorResult m) m args = faulted r m args"
  using compile_rule_runs [of r]
  by (auto simp: apply_fault_def faulted_def Let_def errorResult_nonneg ending_of_def
      split: prod.splits option.splits if_splits ending.splits)

lemma active_in_window:
  "\<not> (c_hasWindow (compile_rule r) \<and> \<not> active now (compile_rule r)) \<longleftrightarrow> in_window now r"
  by (auto simp: active_def in_window_def isZero_def)

section \<open>Injectors and proxies over time\<close>

text \<open>
  A world is one injector and the proxies built from it. \<open>reach\<close> holds of the worlds that
  operations run one after the other lead to. A \<open>MaxCount\<close> is a Go \<open>int\<close>.
\<close>

record world =
  w_inj :: injector
  w_views :: "proxyView list"

definition go_ints :: "rule list \<Rightarrow> bool" where
  "go_ints rs \<longleftrightarrow> (\<forall>r\<in>set rs. r_maxCount r < 2 ^ 63)"

inductive reach :: "world \<Rightarrow> bool" where
  new: "New_injector rs = Inr s \<Longrightarrow> go_ints rs \<Longrightarrow> reach \<lparr>w_inj = s, w_views = []\<rparr>"
| wrap: "reach w \<Longrightarrow> reach (w\<lparr>w_views := w_views w @ [WrapOf f ms]\<rparr>)"
| set_rules: "reach w \<Longrightarrow> go_ints rs \<Longrightarrow> reach (w\<lparr>w_inj := snd (Set_rules rs (w_inj w))\<rparr>)"
| disable: "reach w \<Longrightarrow> reach (w\<lparr>w_inj := Disable (w_inj w)\<rparr>)"
| enable: "reach w \<Longrightarrow> reach (w\<lparr>w_inj := Enable (w_inj w)\<rparr>)"
| call: "reach w \<Longrightarrow> v < length (w_views w) \<Longrightarrow> i < length (methods (w_views w ! v)) \<Longrightarrow>
    intercept now i args (w_inj w) (w_views w ! v) = (res, s', b') \<Longrightarrow>
    reach \<lparr>w_inj = s', w_views = (w_views w)[v := b']\<rparr>"

definition published :: "injector \<Rightarrow> bool" where
  "published s \<longleftrightarrow>
     validateSet (in_rules s) = None \<and> go_ints (in_rules s) \<and>
     plan_id (in_plan s) < plan_supply s \<and>
     in_plan s = build_plan (plan_id (in_plan s)) (in_enabled s) (in_rules s)"

definition budgets_ok :: "injector \<Rightarrow> bool" where
  "budgets_ok s \<longleftrightarrow>
     (\<forall>k i. plan_supply s \<le> k \<longrightarrow> budget s (k, i) = 0) \<and>
     (\<forall>i<length (in_rules s). 0 < r_maxCount (in_rules s ! i) \<longrightarrow>
        uint (budget s (plan_id (in_plan s), i)) \<le> r_maxCount (in_rules s ! i))"

text \<open>Two bindings that differ at most in their sampling counters.\<close>

definition same_bound :: "bound \<Rightarrow> bound \<Rightarrow> bool" where
  "same_bound e e' \<longleftrightarrow> b_rule e = b_rule e' \<and> b_errOut e = b_errOut e'"

definition view_ok :: "injector \<Rightarrow> proxyView \<Rightarrow> bool" where
  "view_ok s b \<longleftrightarrow>
     (\<forall>bd. cur b = Some bd \<longrightarrow>
        bd_plan bd < plan_supply s \<and>
        (bd_plan bd = plan_id (in_plan s) \<longrightarrow>
           list_all2 same_bound (bd_table bd) (bd_table (fresh_binding (in_plan s) b))))"

definition world_ok :: "world \<Rightarrow> bool" where
  "world_ok w \<longleftrightarrow>
     published (w_inj w) \<and> budgets_ok (w_inj w) \<and> (\<forall>b\<in>set (w_views w). view_ok (w_inj w) b)"

lemma plan_id_build [simp]: "plan_id (build_plan k en rs) = k"
  by (simp add: build_plan_def empty_plan_def)

lemma compileds_build: "compileds (build_plan k en rs) = (if en then map compile_rule rs else [])"
  by (simp add: build_plan_def empty_plan_def)

lemma rebuild_published:
  "validateSet (in_rules s) = None \<Longrightarrow> go_ints (in_rules s) \<Longrightarrow> published (rebuild s)"
  by (simp add: published_def rebuild_def)

lemma rebuild_budgets: "(\<forall>k i. plan_supply s \<le> k \<longrightarrow> budget s (k, i) = 0) \<Longrightarrow> budgets_ok (rebuild s)"
  by (auto simp: budgets_ok_def rebuild_def)

lemma rebuild_view:
  "view_ok s b \<Longrightarrow> plan_supply s' = plan_supply s \<Longrightarrow> view_ok (rebuild s') b"
  by (fastforce simp: view_ok_def rebuild_def)

lemma resolve_ok:
  assumes "view_ok s b" "resolve s b = (bd, b')"
  shows "cur b' = Some bd \<and> bd_plan bd = plan_id (in_plan s) \<and>
         list_all2 same_bound (bd_table bd) (bd_table (fresh_binding (in_plan s) b)) \<and>
         ifaceName b' = ifaceName b \<and> methods b' = methods b"
proof -
  have "list_all2 same_bound xs xs" for xs by (simp add: list_all2_refl same_bound_def)
  with assms show ?thesis
    by (auto simp: resolve_def view_ok_def Let_def fresh_binding_def split: option.splits if_splits)
qed

lemma same_bound_bump:
  assumes "list_all2 same_bound es fs"
  shows "list_all2 same_bound (es[i := (es ! i)\<lparr>b_seq := x\<rparr>]) fs"
  using assms
  by (cases "i < length es") (auto simp: list_all2_conv_all_nth same_bound_def nth_list_update)

section \<open>One call in a well-formed world\<close>

definition call_bound :: "injector \<Rightarrow> proxyView \<Rightarrow> nat \<Rightarrow> bound" where
  "call_bound s b i = bd_table (fst (resolve s b)) ! i"

lemma call_bound_rule:
  assumes "view_ok s b" "i < length (methods b)"
  shows "b_rule (call_bound s b i) =
           map_option (Pair (plan_id (in_plan s)))
             (plan_match (in_plan s) (ifaceName b) (m_name (methods b ! i)))"
    and "b_rule (call_bound s b i) \<noteq> None \<Longrightarrow>
           b_errOut (call_bound s b i) = errorResult (methods b ! i)"
proof -
  obtain bd b1 where r: "resolve s b = (bd, b1)" by (cases "resolve s b")
  from resolve_ok [OF assms(1) r] assms(2)
  have "same_bound (bd_table bd ! i) (bd_table (fresh_binding (in_plan s) b) ! i)"
    by (auto simp: list_all2_conv_all_nth fresh_binding_def)
  with assms(2) r show "b_rule (call_bound s b i) =
      map_option (Pair (plan_id (in_plan s))) (plan_match (in_plan s) (ifaceName b) (m_name (methods b ! i)))"
    and "b_rule (call_bound s b i) \<noteq> None \<Longrightarrow> b_errOut (call_bound s b i) = errorResult (methods b ! i)"
    by (auto simp: call_bound_def same_bound_def fresh_binding_def bind_method_def split: option.splits)
qed

text \<open>The guards of \<open>intercept\<close> and the state it leaves.\<close>

definition admitted :: "gotime \<Rightarrow> compiled \<Rightarrow> 64 word \<Rightarrow> bool" where
  "admitted now r bud \<longleftrightarrow>
     \<not> (c_hasWindow r \<and> \<not> active now r) \<and> \<not> (c_maxCount r > 0 \<and> bud \<ge> of_int (c_maxCount r))"

lemma intercept_unowned:
  "b_rule (call_bound s b i) = None \<Longrightarrow>
   intercept now i args s b = (([], Proceeded), s, snd (resolve s b))"
  by (cases "resolve s b") (simp add: intercept_def call_bound_def Let_def)

lemma intercept_owned:
  assumes "b_rule (call_bound s b i) = Some ref"
  shows "intercept now i args s b =
     (let r = rule_at s ref; e = call_bound s b i; b1 = snd (resolve s b) in
      if admitted now r (budget s ref)
      then (if \<not> sample (b_seq e + 1) \<ge> c_rate r
            then (apply_fault r (b_errOut e) (methods b ! i) args,
                  if c_maxCount r > 0 then spend ref s else s, bump i b1)
            else (([], Proceeded), s, bump i b1))
      else (([], Proceeded), s, b1))"
  using assms
  by (cases "resolve s b") (auto simp: intercept_def call_bound_def admitted_def Let_def)

lemma spend_fields [simp]:
  "in_rules (spend ref s) = in_rules s" "in_enabled (spend ref s) = in_enabled s"
  "in_plan (spend ref s) = in_plan s" "plan_supply (spend ref s) = plan_supply s"
  by (simp_all add: spend_def)

lemma published_spend [simp]: "published (spend ref s) = published s"
  by (simp add: published_def)

lemma view_ok_spend [simp]: "view_ok (spend ref s) b = view_ok s b"
  by (simp add: view_ok_def)

lemma view_ok_resolve:
  assumes "published s" "view_ok s b"
  shows "view_ok s (snd (resolve s b))" "view_ok s (bump i (snd (resolve s b)))"
proof -
  obtain bd b1 where r: "resolve s b = (bd, b1)" by (cases "resolve s b")
  from resolve_ok [OF assms(2) r] assms(1)
  show "view_ok s (snd (resolve s b))" "view_ok s (bump i (snd (resolve s b)))"
    unfolding r by (auto simp: view_ok_def bump_def fresh_binding_def published_def same_bound_bump)
qed

lemma published_rule:
  assumes "published s" "plan_match (in_plan s) f m = Some j"
  shows "in_enabled s" "j < length (in_rules s)" "rule_at s (plan_id (in_plan s), j) = compile_rule (in_rules s ! j)"
    and "check (in_rules s ! j) = None"
proof -
  let ?k = "plan_id (in_plan s)"
  from assms(1) have v: "validateSet (in_rules s) = None"
    and p: "in_plan s = build_plan ?k (in_enabled s) (in_rules s)"
    by (simp_all add: published_def)
  show en: "in_enabled s"
  proof (rule ccontr)
    assume "\<not> in_enabled s"
    with p have "in_plan s = build_plan ?k False (in_rules s)" by simp
    then have "plan_match (in_plan s) f m = None" by (metis plan_match_disabled)
    with assms(2) show False by simp
  qed
  with p have p': "in_plan s = build_plan ?k True (in_rules s)" by simp
  then have "plan_match (build_plan ?k True (in_rules s)) f m = Some j"
    using assms(2) by metis
  with v show j: "j < length (in_rules s)" by (simp add: plan_match_owner owner_def)
  then show "check (in_rules s ! j) = None" using v by (simp add: validateSet_spec)
  have "compileds (in_plan s) = map compile_rule (in_rules s)"
    by (subst p') (simp add: compileds_build)
  with j show "rule_at s (?k, j) = compile_rule (in_rules s ! j)"
    by (simp add: rule_at_def)
qed

lemma published_match:
  assumes "published s" "in_enabled s"
  shows "plan_match (in_plan s) f m = Some j \<longleftrightarrow> owner (map cond_of (in_rules s)) (Cond f m) j"
  using assms plan_match_owner [of "in_rules s" "plan_id (in_plan s)" f m j]
  by (simp add: published_def)

lemma admitted_budget:
  assumes "check r = None" "r_maxCount r < 2 ^ 63"
  shows "admitted now (compile_rule r) bud \<longleftrightarrow>
           in_window now r \<and> (r_maxCount r = 0 \<or> uint bud < r_maxCount r)"
proof -
  from assms have m: "0 \<le> r_maxCount r" by (simp add: check_spec)
  with assms have "uint (of_int (r_maxCount r) :: 64 word) = r_maxCount r"
    by (simp add: uint_word_of_int_eq take_bit_int_eq_self)
  then have "bud \<ge> of_int (r_maxCount r) \<longleftrightarrow> r_maxCount r \<le> uint bud"
    by (simp add: word_le_def)
  with m show ?thesis
    using active_in_window [of r now] by (auto simp: admitted_def)
qed

lemma budgets_ok_spend:
  assumes "budgets_ok s" "j < length (in_rules s)" "uint (budget s ref) < r_maxCount (in_rules s ! j)"
    and "ref = (plan_id (in_plan s), j)" "published s"
  shows "budgets_ok (spend ref s)"
proof -
  have "r_maxCount (in_rules s ! j) < 2 ^ 63"
    using assms(2,5) by (simp add: published_def go_ints_def)
  with assms(3) have "uint (budget s ref) + 1 < 2 ^ 64" by simp
  then have "uint (budget s ref + 1) = uint (budget s ref) + 1"
    by (simp add: uint_plus_if' )
  with assms show ?thesis
    by (auto simp: budgets_ok_def spend_def published_def)
qed

section \<open>Every reachable world is well-formed\<close>

lemma world_ok_call:
  assumes ok: "world_ok w" and v: "v < length (w_views w)" "i < length (methods (w_views w ! v))"
    and run: "intercept now i args (w_inj w) (w_views w ! v) = (res, s', b')"
  shows "world_ok \<lparr>w_inj = s', w_views = (w_views w)[v := b']\<rparr>"
proof -
  let ?s = "w_inj w" and ?b = "w_views w ! v"
  from ok v have pub: "published ?s" and bud: "budgets_ok ?s" and b: "view_ok ?s ?b"
    and views: "\<forall>b\<in>set (w_views w). view_ok ?s b"
    by (auto simp: world_ok_def)
  note vw = view_ok_resolve [OF pub b]
  have s': "published s' \<and> budgets_ok s' \<and> view_ok s' b' \<and> (\<forall>b. view_ok ?s b \<longrightarrow> view_ok s' b)"
  proof (cases "b_rule (call_bound ?s ?b i)")
    case None
    with run have "s' = ?s" "b' = snd (resolve ?s ?b)" by (auto simp: intercept_unowned)
    with pub bud vw show ?thesis by simp
  next
    case (Some ref)
    from call_bound_rule(1) [OF b v(2), unfolded Some, symmetric] obtain j where
      ref: "ref = (plan_id (in_plan ?s), j)" and
      m: "plan_match (in_plan ?s) (ifaceName ?b) (m_name (methods ?b ! i)) = Some j"
      by (auto simp: map_option_eq_Some)
    note j = published_rule [OF pub m]
    from j(2) pub have mc: "r_maxCount (in_rules ?s ! j) < 2 ^ 63"
      by (simp add: published_def go_ints_def)
    have out: "(s' = ?s \<or> s' = spend ref ?s \<and>
        uint (budget ?s ref) < r_maxCount (in_rules ?s ! j)) \<and>
        (b' = snd (resolve ?s ?b) \<or> b' = bump i (snd (resolve ?s ?b)))"
      using run j(3,4) mc
      by (auto simp: intercept_owned [OF Some] Let_def ref admitted_budget split: if_splits)
    with pub bud vw budgets_ok_spend [OF bud j(2) _ ref pub] show ?thesis by auto
  qed
  with views have "\<forall>b\<in>set ((w_views w)[v := b']). view_ok s' b"
    using set_update_subset_insert [of "w_views w" v b'] by blast
  with s' show ?thesis by (simp add: world_ok_def)
qed

lemma world_ok_rebuild:
  assumes "world_ok w" "validateSet (in_rules s) = None" "go_ints (in_rules s)"
    and "plan_supply s = plan_supply (w_inj w)" "budget s = budget (w_inj w)"
  shows "world_ok (w\<lparr>w_inj := rebuild s\<rparr>)"
proof -
  from assms have "\<forall>k i. plan_supply s \<le> k \<longrightarrow> budget s (k, i) = 0"
    by (simp add: world_ok_def budgets_ok_def)
  then have "budgets_ok (rebuild s)" by (rule rebuild_budgets)
  moreover have "\<forall>b\<in>set (w_views w). view_ok (rebuild s) b"
    using assms by (auto simp: world_ok_def intro: rebuild_view)
  ultimately show ?thesis
    using assms by (simp add: world_ok_def rebuild_published)
qed

lemma reach_world_ok: "reach w \<Longrightarrow> world_ok w"
proof (induction rule: reach.induct)
  case (new rs s)
  then have v: "validateSet rs = None"
    and s: "s = rebuild \<lparr>in_rules = rs, in_enabled = True, in_plan = empty_plan 0,
                          plan_supply = 1, budget = (\<lambda>_. 0)\<rparr>"
    by (auto simp: New_injector_def split: option.splits)
  from v new(2) show ?case
    unfolding s by (simp add: world_ok_def rebuild_published rebuild_budgets)
next
  case (wrap w f ms)
  then show ?case by (auto simp: world_ok_def WrapOf_def view_ok_def)
next
  case (set_rules w rs)
  then show ?case
    by (auto simp: Set_rules_def world_ok_rebuild split: option.splits)
next
  case (disable w)
  then show ?case
    unfolding Disable_def by (intro world_ok_rebuild) (auto simp: world_ok_def published_def)
next
  case (enable w)
  then show ?case
    unfolding Enable_def by (intro world_ok_rebuild) (auto simp: world_ok_def published_def)
next
  case (call w v i now args res s' b')
  then show ?case by (intro world_ok_call)
qed

lemma reach_view:
  "reach w \<Longrightarrow> v < length (w_views w) \<Longrightarrow> published (w_inj w) \<and> view_ok (w_inj w) (w_views w ! v)"
  using reach_world_ok [of w] by (auto simp: world_ok_def)

section \<open>The budget under concurrent calls\<close>

text \<open>
  The atomic operations of \<open>intercept\<close> on one rule with a limit, taken by \<open>n\<close> goroutines in any
  order: the load and the comparison of the budget, the increment of the sampling counter with
  the comparison against the rate, and the increment of the budget.
\<close>

datatype pc = Idle | Checked | Sampled

record race =
  rc_budget :: "64 word"
  rc_seq :: "64 word"
  rc_pc :: "pc list"

inductive race_step :: "int \<Rightarrow> gofloat \<Rightarrow> race \<Rightarrow> race \<Rightarrow> bool" for mc rate where
  over: "t < length (rc_pc s) \<Longrightarrow> rc_pc s ! t = Idle \<Longrightarrow> rc_budget s \<ge> of_int mc \<Longrightarrow> race_step mc rate s s"
| under: "t < length (rc_pc s) \<Longrightarrow> rc_pc s ! t = Idle \<Longrightarrow> \<not> rc_budget s \<ge> of_int mc \<Longrightarrow>
    race_step mc rate s (s\<lparr>rc_pc := (rc_pc s)[t := Checked]\<rparr>)"
| miss: "t < length (rc_pc s) \<Longrightarrow> rc_pc s ! t = Checked \<Longrightarrow> sample (rc_seq s + 1) \<ge> rate \<Longrightarrow>
    race_step mc rate s (s\<lparr>rc_seq := rc_seq s + 1, rc_pc := (rc_pc s)[t := Idle]\<rparr>)"
| hit: "t < length (rc_pc s) \<Longrightarrow> rc_pc s ! t = Checked \<Longrightarrow> \<not> sample (rc_seq s + 1) \<ge> rate \<Longrightarrow>
    race_step mc rate s (s\<lparr>rc_seq := rc_seq s + 1, rc_pc := (rc_pc s)[t := Sampled]\<rparr>)"
| count: "t < length (rc_pc s) \<Longrightarrow> rc_pc s ! t = Sampled \<Longrightarrow>
    race_step mc rate s (s\<lparr>rc_budget := rc_budget s + 1, rc_pc := (rc_pc s)[t := Idle]\<rparr>)"

inductive_cases race_stepE: "race_step mc rate s s'"

definition race_init :: "nat \<Rightarrow> race" where
  "race_init n = \<lparr>rc_budget = 0, rc_seq = 0, rc_pc = replicate n Idle\<rparr>"

definition in_flight :: "race \<Rightarrow> nat" where
  "in_flight s = length (filter (\<lambda>p. p \<noteq> Idle) (rc_pc s))"

definition race_inv :: "int \<Rightarrow> nat \<Rightarrow> race \<Rightarrow> bool" where
  "race_inv mc n s \<longleftrightarrow>
     length (rc_pc s) = n \<and> uint (rc_budget s) + int (in_flight s) \<le> mc - 1 + int n"

lemma in_flight_le: "in_flight s \<le> length (rc_pc s)"
  by (simp add: in_flight_def)

lemma filter_update:
  "t < length xs \<Longrightarrow>
   length (filter P (xs[t := x])) + (if P (xs ! t) then 1 else 0) =
   length (filter P xs) + (if P x then 1 else 0)"
proof (induction xs arbitrary: t)
  case (Cons y xs)
  show ?case
  proof (cases t)
    case (Suc t')
    with Cons.prems have "t' < length xs" by simp
    from Cons.IH [OF this] Suc show ?thesis by simp
  qed simp
qed simp

lemma race_inv_step:
  assumes "race_step mc rate s s'" "race_inv mc n s" "0 < mc" "mc - 1 + int n < 2 ^ 64"
  shows "race_inv mc n s'"
  using assms(1)
proof (cases rule: race_step.cases)
  case (under t)
  have "uint (of_int mc :: 64 word) \<le> mc"
    using assms(3) by (simp add: uint_word_of_int_eq take_bit_int_less_eq_self_iff)
  moreover have "uint (rc_budget s) < uint (of_int mc :: 64 word)"
    using under by (simp add: word_le_def not_le)
  ultimately have "uint (rc_budget s) \<le> mc - 1" by simp
  moreover have "in_flight s' \<le> n"
    using in_flight_le [of s'] under assms(2) by (simp add: race_inv_def)
  ultimately show ?thesis
    using under assms(2) by (simp add: race_inv_def)
next
  case (count t)
  have e: "in_flight s' + 1 = in_flight s"
    using filter_update [of t "rc_pc s" "\<lambda>p. p \<noteq> Idle" Idle] count by (simp add: in_flight_def)
  then have "uint (rc_budget s) + 1 \<le> mc - 1 + int n"
    using assms(2) by (simp add: race_inv_def)
  with assms(4) have "uint (rc_budget s + 1) = uint (rc_budget s) + 1"
    by (simp add: uint_plus_if')
  with e assms(2) count show ?thesis by (simp add: race_inv_def)
next
  case (miss t)
  have "in_flight s' \<le> in_flight s"
    using filter_update [of t "rc_pc s" "\<lambda>p. p \<noteq> Idle" Idle] miss by (simp add: in_flight_def)
  with miss assms(2) show ?thesis by (simp add: race_inv_def)
next
  case (hit t)
  have "in_flight s' = in_flight s"
    using filter_update [of t "rc_pc s" "\<lambda>p. p \<noteq> Idle" Sampled] hit by (simp add: in_flight_def)
  with hit assms(2) show ?thesis by (simp add: race_inv_def)
qed (use assms(2) in simp)

lemma race_inv_steps:
  assumes "(race_step mc rate)\<^sup>*\<^sup>* s s'" "race_inv mc n s" "0 < mc" "mc - 1 + int n < 2 ^ 64"
  shows "race_inv mc n s'"
  using assms(1,2)
  by (induction rule: rtranclp_induct) (auto intro: race_inv_step assms(3,4))

lemma race_inv_init: "0 < mc \<Longrightarrow> race_inv mc n (race_init n)"
  by (simp add: race_inv_def race_init_def in_flight_def)

end
