(* ===== verification/ChaosSpec.thy ===== *)
theory ChaosSpec
  imports ChaosOwner
begin

text \<open>
  chaos/spec.go: rules as data. The parsers of the \<open>time\<close> package are the arguments
  \<open>parse_duration\<close> and \<open>parse_time\<close> of the conversion, over which every lemma is general.
\<close>

record specAction =
  sa_latency :: string
  sa_error :: string
  sa_panic :: string

record spec =
  s_interface :: string
  s_method :: string
  s_rate :: gofloat
  s_actions :: "specAction list"
  s_maxCount :: int
  s_from :: string
  s_until :: string

datatype specErr =
    SpecFaultCount string nat nat
  | SpecBadLatency string nat string
  | SpecBadFrom string string
  | SpecBadUntil string string
  | SpecCheck ruleErr

definition nonempty_count :: "string list \<Rightarrow> nat" where
  "nonempty_count ss = length (filter (\<lambda>s. s \<noteq> []) ss)"

definition SpecAction_action ::
  "(string \<Rightarrow> duration option) \<Rightarrow> specAction \<Rightarrow> string \<Rightarrow> nat \<Rightarrow> specErr + action" where
  "SpecAction_action parse_duration a loc i =
     (let n = nonempty_count [sa_latency a, sa_error a, sa_panic a] in
      if n \<noteq> 1 then Inl (SpecFaultCount loc i n)
      else if sa_latency a \<noteq> [] then
        (case parse_duration (sa_latency a) of
           None \<Rightarrow> Inl (SpecBadLatency loc i (sa_latency a))
         | Some d \<Rightarrow> Inr (Delay d))
      else if sa_error a \<noteq> [] then Inr (Fail (Some (ErrWrap ErrInjected (sa_error a))))
      else Inr (Panic (AStr (sa_panic a))))"

fun spec_actions ::
  "(string \<Rightarrow> duration option) \<Rightarrow> string \<Rightarrow> nat \<Rightarrow> specAction list \<Rightarrow> specErr + action list" where
  "spec_actions pd loc i [] = Inr []"
| "spec_actions pd loc i (a # as) =
     (case SpecAction_action pd a loc i of
        Inl e \<Rightarrow> Inl e
      | Inr act \<Rightarrow>
          (case spec_actions pd loc (i + 1) as of Inl e \<Rightarrow> Inl e | Inr acts \<Rightarrow> Inr (act # acts)))"

definition Spec_Rule ::
  "(string \<Rightarrow> duration option) \<Rightarrow> (string \<Rightarrow> gotime option) \<Rightarrow> spec \<Rightarrow> specErr + rule" where
  "Spec_Rule pd parse_time s =
     (let loc = describe (s_interface s) (s_method s);
          r = \<lparr>r_interface = s_interface s, r_method = s_method s, r_rate = s_rate s,
               r_actions = [], r_maxCount = s_maxCount s, r_from = 0, r_until = 0\<rparr>
      in case spec_actions pd loc 0 (s_actions s) of
           Inl e \<Rightarrow> Inl e
         | Inr acts \<Rightarrow>
             (case (if s_from s = [] then Some 0 else parse_time (s_from s)) of
                None \<Rightarrow> Inl (SpecBadFrom loc (s_from s))
              | Some f \<Rightarrow>
                  (case (if s_until s = [] then Some 0 else parse_time (s_until s)) of
                     None \<Rightarrow> Inl (SpecBadUntil loc (s_until s))
                   | Some u \<Rightarrow>
                       (let r' = r\<lparr>r_actions := acts, r_from := f, r_until := u\<rparr>
                        in case check r' of Some e \<Rightarrow> Inl (SpecCheck e) | None \<Rightarrow> Inr r'))))"

section \<open>What a converted rule is\<close>

text \<open>The action a \<open>SpecAction\<close> denotes.\<close>

definition denotes :: "(string \<Rightarrow> duration option) \<Rightarrow> specAction \<Rightarrow> action \<Rightarrow> bool" where
  "denotes pd a act \<longleftrightarrow>
     (sa_latency a \<noteq> [] \<and> sa_error a = [] \<and> sa_panic a = [] \<and>
        (\<exists>d. pd (sa_latency a) = Some d \<and> act = Delay d)) \<or>
     (sa_latency a = [] \<and> sa_error a \<noteq> [] \<and> sa_panic a = [] \<and>
        act = Fail (Some (ErrWrap ErrInjected (sa_error a)))) \<or>
     (sa_latency a = [] \<and> sa_error a = [] \<and> sa_panic a \<noteq> [] \<and> act = Panic (AStr (sa_panic a)))"

lemma SpecAction_action_iff: "SpecAction_action pd a w i = Inr act \<longleftrightarrow> denotes pd a act"
  by (auto simp: SpecAction_action_def denotes_def nonempty_count_def Let_def split: option.splits)

lemma spec_actions_Cons:
  "spec_actions pd w i (a # as) = Inr acts \<longleftrightarrow>
     (\<exists>act rest. acts = act # rest \<and> SpecAction_action pd a w i = Inr act \<and>
        spec_actions pd w (i + 1) as = Inr rest)"
  by (auto split: sum.splits)

lemma spec_actions_iff:
  "spec_actions pd w i as = Inr acts \<longleftrightarrow> list_all2 (denotes pd) as acts"
proof (induction as arbitrary: i acts)
  case Nil
  show ?case by auto
next
  case (Cons a as)
  show ?case
    unfolding spec_actions_Cons SpecAction_action_iff Cons.IH list_all2_Cons1 by auto
qed

lemma Spec_Rule_Inr:
  "Spec_Rule pd pt s = Inr r \<longleftrightarrow>
     (\<exists>acts f u. spec_actions pd (describe (s_interface s) (s_method s)) 0 (s_actions s) = Inr acts \<and>
        (if s_from s = [] then Some 0 else pt (s_from s)) = Some f \<and>
        (if s_until s = [] then Some 0 else pt (s_until s)) = Some u \<and>
        r = \<lparr>r_interface = s_interface s, r_method = s_method s, r_rate = s_rate s,
             r_actions = acts, r_maxCount = s_maxCount s, r_from = f, r_until = u\<rparr> \<and>
        check r = None)"
  unfolding Spec_Rule_def Let_def
  by (auto split: sum.split option.split)

lemma Spec_Rule_iff:
  "Spec_Rule pd pt s = Inr r \<longleftrightarrow>
     r_interface r = s_interface s \<and> r_method r = s_method s \<and> r_rate r = s_rate s \<and>
     r_maxCount r = s_maxCount s \<and>
     list_all2 (denotes pd) (s_actions s) (r_actions r) \<and>
     (if s_from s = [] then r_from r = 0 else pt (s_from s) = Some (r_from r)) \<and>
     (if s_until s = [] then r_until r = 0 else pt (s_until s) = Some (r_until r)) \<and>
     check r = None"
  by (cases r) (auto simp: Spec_Rule_Inr spec_actions_iff split: if_splits)

lemma denotes_error:
  "denotes pd a act \<Longrightarrow> a_err act = Some e \<Longrightarrow> errors_Is e ErrInjected"
  by (auto simp: denotes_def Delay_def Fail_def Panic_def)

end
