(* ===== verification/ChaosProps.thy ===== *)
theory ChaosProps
  imports ChaosLife ChaosSpec
begin

text \<open>
  The properties of the chaos package: which rule sets are accepted, which rule a call belongs to,
  what a call does, how often it does it, and the life cycle of an injector.
\<close>

section \<open>Concrete rules for the witnesses\<close>

definition mk_rule :: "string \<Rightarrow> string \<Rightarrow> action list \<Rightarrow> int \<Rightarrow> rule" where
  "mk_rule f m as mc =
     \<lparr>r_interface = f, r_method = m, r_rate = Fin 1, r_actions = as, r_maxCount = mc,
      r_from = 0, r_until = 0\<rparr>"

definition get_rule :: rule where
  "get_rule = mk_rule ''Repo'' ''Get'' [Delay 5, Fail (Some (ErrText ''down''))] 1"

definition repo_rule :: rule where
  "repo_rule = mk_rule ''Repo'' [] [Delay 7] 0"

definition any_rule :: rule where
  "any_rule = mk_rule [] [] [Panic (AStr ''boom'')] 0"

definition demo_rules :: "rule list" where
  "demo_rules = [any_rule, repo_rule, get_rule]"

lemmas demo_defs =
  demo_rules_def any_rule_def repo_rule_def get_rule_def mk_rule_def Delay_def Fail_def Panic_def

lemma demo_rules_valid: "validateSet demo_rules = None"
  by (simp add: demo_defs validateSet_def check_def fault_count_def panics_def isNaN_def isZero_def
      cond_of_def Let_def)

definition demo_method :: methodT where
  "demo_method = \<lparr>m_name = ''Get'', m_in = [TContext], m_out = [TOther ''int'' (AInt 0), TError]\<rparr>"

definition demo_world :: world where
  "demo_world =
     \<lparr>w_inj = rebuild \<lparr>in_rules = demo_rules, in_enabled = True, in_plan = empty_plan 0,
                       plan_supply = 1, budget = (\<lambda>_. 0)\<rparr>,
      w_views = [WrapOf ''Repo'' [demo_method]]\<rparr>"

lemma demo_go_ints: "go_ints demo_rules"
  by (simp add: go_ints_def demo_defs)

lemma reach_demo: "reach demo_world"
proof -
  have "reach \<lparr>w_inj = rebuild \<lparr>in_rules = demo_rules, in_enabled = True, in_plan = empty_plan 0,
                       plan_supply = 1, budget = (\<lambda>_. 0)\<rparr>, w_views = []\<rparr>"
    by (rule reach.new [of demo_rules]) (simp_all add: New_injector_def demo_rules_valid demo_go_ints)
  from reach.wrap [OF this, of "''Repo''" "[demo_method]"] show ?thesis
    by (simp add: demo_world_def)
qed

section \<open>Accepted rules\<close>

text \<open>
  \<open>check\<close> accepts a rule exactly when its rate is a number in (0, 1], its limit is not
  negative, its window is not reversed, it has actions, each of them asks for exactly one fault,
  and only the last decides the call.
\<close>

theorem check_accepts:
  "check r = None \<longleftrightarrow>
     (\<exists>q. r_rate r = Fin q \<and> 0 < q \<and> q \<le> 1) \<and> 0 \<le> r_maxCount r \<and>
     (r_from r = 0 \<or> r_until r = 0 \<or> r_from r \<le> r_until r) \<and> actions_ok (r_actions r)"
  by (rule check_spec)

text \<open>
  C25. \<open>validateSet\<close> accepts a rule set exactly when every rule is accepted and the conditions are
  strictly ordered by specificity: no two are the same, and any two that match a common call are
  comparable.
\<close>

theorem validateSet_accepts:
  "validateSet rs = None \<longleftrightarrow>
     (\<forall>r\<in>set rs. check r = None) \<and> distinct (map cond_of rs) \<and>
     (\<forall>r\<in>set rs. \<forall>r'\<in>set rs.
        (\<exists>call. call \<le> cond_of r \<and> call \<le> cond_of r') \<longrightarrow>
        cond_of r \<le> cond_of r' \<or> cond_of r' \<le> cond_of r)"
  by (auto simp: validateSet_spec ordered_conditions_def overlap_def comparable_def)

theorem validateSet_accepts_witness:
  "distinct (map cond_of demo_rules)"
  using validateSet_accepts [of demo_rules] demo_rules_valid by simp

section \<open>The rule that owns a call\<close>

text \<open>
  C26. On an accepted rule set the plan's lookup returns the rule that owns the call: the one rule
  that matches it and is more specific than every other rule that matches. It returns nothing
  exactly when no rule matches.
\<close>

theorem match_finds_owner:
  assumes "validateSet rs = None"
  shows "(plan_match (build_plan k True rs) f m = Some i \<longleftrightarrow>
            i < length rs \<and> Cond f m \<le> cond_of (rs ! i) \<and>
            (\<forall>j<length rs. j \<noteq> i \<and> Cond f m \<le> cond_of (rs ! j) \<longrightarrow> cond_of (rs ! i) < cond_of (rs ! j))) \<and>
         (plan_match (build_plan k True rs) f m = None \<longleftrightarrow> (\<forall>r\<in>set rs. \<not> Cond f m \<le> cond_of r))"
proof -
  have d: "distinct (map cond_of rs)" and o: "ordered_conditions (map cond_of rs)"
    using assms by (simp_all add: validateSet_spec ordered_conditions_def)
  have lt: "cond_of (rs ! i) \<le> cond_of (rs ! j) \<longleftrightarrow> cond_of (rs ! i) < cond_of (rs ! j)"
    if "i < length rs" "j < length rs" "j \<noteq> i" for i j
    using that d by (auto simp: less_le distinct_conv_nth)
  have "owner (map cond_of rs) (Cond f m) i \<longleftrightarrow>
      i < length rs \<and> Cond f m \<le> cond_of (rs ! i) \<and>
      (\<forall>j<length rs. j \<noteq> i \<and> Cond f m \<le> cond_of (rs ! j) \<longrightarrow> cond_of (rs ! i) < cond_of (rs ! j))"
    using lt by (auto simp: owner_def)
  moreover have "plan_match (build_plan k True rs) f m = None \<longleftrightarrow> (\<forall>r\<in>set rs. \<not> Cond f m \<le> cond_of r)"
    using d plans.walk_None [of "map cond_of rs" f m] by (simp add: plan_match_walk)
  ultimately show ?thesis
    using plan_match_owner [OF assms] by blast
qed

theorem match_finds_owner_witness:
  "Cond ''Repo'' ''Get'' \<le> cond_of (demo_rules ! 2)"
  using match_finds_owner [OF demo_rules_valid, of 0 "''Repo''" "''Get''" 2]
  by (simp add: plan_match_def build_plan_def demo_defs empty_plan_def add_rule_def Let_def)

section \<open>What a call does\<close>

text \<open>
  C27. In every reachable state of an enabled injector, a call that a rule owns is faulted exactly
  when the clock is in the rule's window, the rule's budget is not used up and the sample of the
  call's ordinal lies below the rate; it then runs the rule's actions in their order. Otherwise
  it proceeds untouched, and no other rule steps in.
\<close>

theorem call_is_faulted:
  assumes "reach w" and "v < length (w_views w)" and "i < length (methods (w_views w ! v))"
    and "Enabled (w_inj w)"
    and "owner (map cond_of (Rules (w_inj w)))
           (Cond (ifaceName (w_views w ! v)) (m_name (methods (w_views w ! v) ! i))) j"
  shows "fst (intercept now i args (w_inj w) (w_views w ! v)) =
     (let r = Rules (w_inj w) ! j; m = methods (w_views w ! v) ! i;
          k = b_seq (call_bound (w_inj w) (w_views w ! v) i) + 1 in
      if in_window now r \<and>
         (r_maxCount r = 0 \<or> uint (budget (w_inj w) (plan_id (in_plan (w_inj w)), j)) < r_maxCount r) \<and>
         sample k < r_rate r
      then faulted r m args
      else ([], Proceeded))"
proof -
  let ?s = "w_inj w" and ?b = "w_views w ! v"
  let ?r = "in_rules ?s ! j"
  from reach_view [OF assms(1,2)] have pub: "published ?s" and vw: "view_ok ?s ?b" by auto
  have m: "plan_match (in_plan ?s) (ifaceName ?b) (m_name (methods ?b ! i)) = Some j"
    using assms(4,5) published_match [OF pub] by (simp add: Enabled_def Rules_def)
  note rule = published_rule [OF pub m]
  from call_bound_rule [OF vw assms(3)] m
  have ref: "b_rule (call_bound ?s ?b i) = Some (plan_id (in_plan ?s), j)"
    and e: "b_errOut (call_bound ?s ?b i) = errorResult (methods ?b ! i)" by auto
  from rule(2) pub have mc: "r_maxCount ?r < 2 ^ 63" by (simp add: published_def go_ints_def)
  from rule(4) obtain q where q: "r_rate ?r = Fin q" by (auto simp: check_spec)
  have "(\<not> r_rate ?r \<le> sample k) = (sample k < r_rate ?r)" for k
    by (simp add: q sample_def not_le)
  then show ?thesis
    using rule(3,4) mc
    by (auto simp: intercept_owned [OF ref] Let_def admitted_budget apply_fault_faulted e Rules_def)
qed

theorem call_is_faulted_witness:
  "fst (intercept 0 0 [AObj ''ctx'' 1] (w_inj demo_world) (w_views demo_world ! 0)) =
     ([WaitCtx (AObj ''ctx'' 1) 5], Returned [AInt 0, AErr (ErrText ''down'')])"
proof -
  have o: "owner (map cond_of (Rules (w_inj demo_world)))
           (Cond (ifaceName (w_views demo_world ! 0)) (m_name (methods (w_views demo_world ! 0) ! 0))) 2"
    by (auto simp: owner_def demo_world_def Rules_def rebuild_def demo_defs cond_of_def WrapOf_def
        demo_method_def less_eq_condition_def less_Suc_eq numeral_eq_Suc)
  have b: "sample k < r_rate get_rule" for k
    using sample_bounds(2) [of k] by (simp add: get_rule_def mk_rule_def)
  from call_is_faulted [OF reach_demo _ _ _ o, of 0 "[AObj ''ctx'' 1]"] b
  show ?thesis
    by (simp add: demo_world_def Enabled_def Rules_def rebuild_def WrapOf_def demo_rules_def
        in_window_def Let_def)
       (simp add: demo_defs demo_method_def faulted_def wait_def callContext_def Let_def decides_def
        panics_def wrap64_def errorResult_def)
qed

lemma unowned_intercept:
  assumes "reach w" and "v < length (w_views w)" and "i < length (methods (w_views w ! v))"
    and "\<not> Enabled (w_inj w) \<or>
         (\<forall>r\<in>set (Rules (w_inj w)).
            \<not> Cond (ifaceName (w_views w ! v)) (m_name (methods (w_views w ! v) ! i)) \<le> cond_of r)"
  shows "fst (intercept now i args (w_inj w) (w_views w ! v)) = ([], Proceeded) \<and>
         fst (snd (intercept now i args (w_inj w) (w_views w ! v))) = w_inj w"
proof -
  let ?s = "w_inj w" and ?b = "w_views w ! v"
  from reach_view [OF assms(1,2)] have pub: "published ?s" and vw: "view_ok ?s ?b" by auto
  have "plan_match (in_plan ?s) (ifaceName ?b) (m_name (methods ?b ! i)) = None"
  proof (rule ccontr)
    assume "\<not> ?thesis"
    then obtain j where m: "plan_match (in_plan ?s) (ifaceName ?b) (m_name (methods ?b ! i)) = Some j"
      by auto
    from published_rule(1,2) [OF pub m] published_match [OF pub] m assms(4) show False
      by (auto simp: Enabled_def Rules_def owner_def)
  qed
  with call_bound_rule(1) [OF vw assms(3)] have "b_rule (call_bound ?s ?b i) = None" by simp
  then show ?thesis by (simp add: intercept_unowned)
qed

text \<open>
  C28. A call that no rule owns, and every call while the injector is disabled, proceeds without
  effects and leaves budgets and rules alone.
\<close>

theorem unowned_call_untouched:
  assumes "reach w" and "v < length (w_views w)" and "i < length (methods (w_views w ! v))"
    and "\<not> Enabled (w_inj w) \<or>
         (\<forall>r\<in>set (Rules (w_inj w)).
            \<not> Cond (ifaceName (w_views w ! v)) (m_name (methods (w_views w ! v) ! i)) \<le> cond_of r)"
  shows "fst (intercept now i args (w_inj w) (w_views w ! v)) = ([], Proceeded) \<and>
         fst (snd (intercept now i args (w_inj w) (w_views w ! v))) = w_inj w"
  using assms by (rule unowned_intercept)

definition disabled_world :: world where
  "disabled_world = demo_world\<lparr>w_inj := Disable (w_inj demo_world)\<rparr>"

lemma reach_disabled: "reach disabled_world"
  unfolding disabled_world_def by (rule reach.disable [OF reach_demo])

theorem unowned_call_untouched_witness:
  "fst (intercept 0 0 [ANil] (w_inj disabled_world) (w_views disabled_world ! 0)) = ([], Proceeded)"
  using unowned_call_untouched [OF reach_disabled, of 0 0 0 "[ANil]"]
  by (simp add: disabled_world_def Disable_def demo_world_def rebuild_def Enabled_def WrapOf_def)

section \<open>How often\<close>

text \<open>
  C29. A sample is at least 0 and below 1, so a rule of rate 1 faults every call, and over the
  ordinals of the 64-bit counter exactly \<open>\<lceil>rate * 2^53\<rceil> * 2^11\<close> of the \<open>2^64\<close> calls are faulted: the
  fraction is the rate, up to the granularity of the sample.
\<close>

theorem sampling_is_exact:
  assumes "0 < q" and "q \<le> 1"
  shows "Fin 0 \<le> sample n \<and> sample n < Fin 1 \<and>
         card {k. sample k < Fin q} = nat \<lceil>q * 2 ^ 53\<rceil> * 2 ^ 11"
  using sample_bounds card_sample_less [OF assms] by blast

theorem sampling_is_exact_witness:
  "card {k. sample k < Fin (1 / 4)} = 2 ^ 62"
  using sampling_is_exact [of "1 / 4" 0] by simp

text \<open>
  Between two installations of rules: calls through the proxies, and new proxies. \<open>faults j\<close> counts the
  calls of such a run that rule \<open>j\<close> owns and that did not just proceed.
\<close>

datatype chaos_op = Call gotime nat nat "any list" | Wrap string "methodT list"

fun op_ok :: "world \<Rightarrow> chaos_op \<Rightarrow> bool" where
  "op_ok w (Call now v i vals) = (v < length (w_views w) \<and> i < length (methods (w_views w ! v)))"
| "op_ok w (Wrap f ms) = True"

fun op_step :: "chaos_op \<Rightarrow> world \<Rightarrow> world" where
  "op_step (Call now v i vals) w =
     (case intercept now i vals (w_inj w) (w_views w ! v) of
        (res, s', b') \<Rightarrow> \<lparr>w_inj = s', w_views = (w_views w)[v := b']\<rparr>)"
| "op_step (Wrap f ms) w = w\<lparr>w_views := w_views w @ [WrapOf f ms]\<rparr>"

fun op_fault :: "nat \<Rightarrow> world \<Rightarrow> chaos_op \<Rightarrow> bool" where
  "op_fault j w (Call now v i vals) =
     (owner (map cond_of (Rules (w_inj w)))
        (Cond (ifaceName (w_views w ! v)) (m_name (methods (w_views w ! v) ! i))) j \<and>
      fst (intercept now i vals (w_inj w) (w_views w ! v)) \<noteq> ([], Proceeded))"
| "op_fault j w (Wrap f ms) = False"

fun ops_ok :: "world \<Rightarrow> chaos_op list \<Rightarrow> bool" where
  "ops_ok w [] = True"
| "ops_ok w (a # as) = (op_ok w a \<and> ops_ok (op_step a w) as)"

fun faults :: "nat \<Rightarrow> world \<Rightarrow> chaos_op list \<Rightarrow> nat" where
  "faults j w [] = 0"
| "faults j w (a # as) = (if op_fault j w a then 1 else 0) + faults j (op_step a w) as"

definition limit_ref :: "world \<Rightarrow> nat \<Rightarrow> rule_ref" where
  "limit_ref w j = (plan_id (in_plan (w_inj w)), j)"

lemma reach_op: "reach w \<Longrightarrow> op_ok w a \<Longrightarrow> reach (op_step a w)"
  by (cases a) (auto intro: reach.wrap reach.call split: prod.split)

text \<open>One call leaves rules and plan alone and counts its fault.\<close>

lemma call_counts:
  assumes reach: "reach w" and v: "v < length (w_views w)" "i < length (methods (w_views w ! v))"
    and run: "intercept now i vals (w_inj w) (w_views w ! v) = (res, s', b')"
    and j: "j < length (Rules (w_inj w))" "0 < r_maxCount (Rules (w_inj w) ! j)"
  shows "in_rules s' = in_rules (w_inj w)" "in_plan s' = in_plan (w_inj w)"
    and "uint (budget (w_inj w) (limit_ref w j)) +
           (if op_fault j w (Call now v i vals) then 1 else 0) \<le> uint (budget s' (limit_ref w j))"
proof -
  let ?s = "w_inj w" and ?b = "w_views w ! v" and ?ref = "limit_ref w j"
  from reach_view [OF reach v(1)] have pub: "published ?s" and vw: "view_ok ?s ?b" by auto
  have "in_rules s' = in_rules ?s \<and> in_plan s' = in_plan ?s \<and>
      uint (budget ?s ?ref) + (if op_fault j w (Call now v i vals) then 1 else 0) \<le> uint (budget s' ?ref)"
  proof (cases "b_rule (call_bound ?s ?b i)")
    case None
    with run show ?thesis by (auto simp: intercept_unowned)
  next
    case (Some ref)
    from call_bound_rule(1) [OF vw v(2), unfolded Some, symmetric] obtain k where
      ref: "ref = (plan_id (in_plan ?s), k)" and
      m: "plan_match (in_plan ?s) (ifaceName ?b) (m_name (methods ?b ! i)) = Some k"
      by (auto simp: map_option_eq_Some)
    note k = published_rule [OF pub m]
    from k(2) pub have mc: "r_maxCount (in_rules ?s ! k) < 2 ^ 63"
      by (simp add: published_def go_ints_def)
    have own: "op_fault j w (Call now v i vals) \<longleftrightarrow> k = j \<and> res \<noteq> ([], Proceeded)"
      using published_match [OF pub k(1), of "ifaceName ?b" "m_name (methods ?b ! i)" j] m run by (auto simp: Rules_def)
    have spent: "s' = ?s \<and> res = ([], Proceeded) \<or>
        s' = ?s \<and> r_maxCount (in_rules ?s ! k) \<le> 0 \<or>
        s' = spend ref ?s \<and> uint (budget ?s ref) < r_maxCount (in_rules ?s ! k)"
      using run k(3,4) mc by (auto simp: intercept_owned [OF Some] Let_def ref admitted_budget split: if_splits)
    moreover have "uint (budget ?s ref + 1) = uint (budget ?s ref) + 1"
      if "uint (budget ?s ref) < r_maxCount (in_rules ?s ! k)"
      using that mc by (simp add: uint_plus_if')
    ultimately show ?thesis
      using own j(2) by (auto simp: spend_def ref limit_ref_def Rules_def)
  qed
  then show "in_rules s' = in_rules ?s" "in_plan s' = in_plan ?s"
    "uint (budget ?s ?ref) + (if op_fault j w (Call now v i vals) then 1 else 0) \<le> uint (budget s' ?ref)"
    by simp_all
qed

lemma op_counts:
  assumes "reach w" "op_ok w a" "j < length (Rules (w_inj w))" "0 < r_maxCount (Rules (w_inj w) ! j)"
  shows "Rules (w_inj (op_step a w)) = Rules (w_inj w)" "limit_ref (op_step a w) j = limit_ref w j"
    and "uint (budget (w_inj w) (limit_ref w j)) + (if op_fault j w a then 1 else 0) \<le>
           uint (budget (w_inj (op_step a w)) (limit_ref w j))"
proof -
  have "Rules (w_inj (op_step a w)) = Rules (w_inj w) \<and> limit_ref (op_step a w) j = limit_ref w j \<and>
      uint (budget (w_inj w) (limit_ref w j)) + (if op_fault j w a then 1 else 0) \<le>
        uint (budget (w_inj (op_step a w)) (limit_ref w j))"
  proof (cases a)
    case (Call now v i vals)
    obtain res s' b' where run: "intercept now i vals (w_inj w) (w_views w ! v) = (res, s', b')"
      by (cases "intercept now i vals (w_inj w) (w_views w ! v)")
    from call_counts [OF assms(1) _ _ run assms(3,4)] assms(2) Call run show ?thesis
      by (simp add: Rules_def limit_ref_def)
  qed (simp add: limit_ref_def)
  then show "Rules (w_inj (op_step a w)) = Rules (w_inj w)" "limit_ref (op_step a w) j = limit_ref w j"
    "uint (budget (w_inj w) (limit_ref w j)) + (if op_fault j w a then 1 else 0) \<le>
       uint (budget (w_inj (op_step a w)) (limit_ref w j))" by simp_all
qed

text \<open>
  C30. Calls that run one after the other are never faulted more often than the limit allows: in any
  run of calls and new proxies between two installations of rules, the calls a rule with a limit owns
  and that did not just proceed, added to the faults counted before the run, are at most its
  \<open>MaxCount\<close>; the rule's counter counts every one of them and stays within the limit itself.
\<close>

theorem budget_within_limit:
  assumes "reach w" and "ops_ok w ops" and "j < length (Rules (w_inj w))" and "0 < r_maxCount (Rules (w_inj w) ! j)"
  shows "uint (budget (w_inj w) (limit_ref w j)) + int (faults j w ops) \<le>
           uint (budget (w_inj (fold op_step ops w)) (limit_ref w j)) \<and>
         uint (budget (w_inj (fold op_step ops w)) (limit_ref w j)) \<le> r_maxCount (Rules (w_inj w) ! j)"
  using assms
proof (induction ops arbitrary: w)
  case Nil
  then show ?case
    using reach_world_ok [of w] by (auto simp: world_ok_def budgets_ok_def Rules_def limit_ref_def)
next
  case (Cons a ops)
  have op: "op_ok w a" using Cons.prems(2) by simp
  note c = op_counts [OF Cons.prems(1) op Cons.prems(3,4)]
  from Cons.IH [of "op_step a w"] Cons.prems c(1,2) reach_op [OF Cons.prems(1) op]
  have "uint (budget (w_inj (op_step a w)) (limit_ref w j)) + int (faults j (op_step a w) ops) \<le>
          uint (budget (w_inj (fold op_step ops (op_step a w))) (limit_ref w j)) \<and>
        uint (budget (w_inj (fold op_step ops (op_step a w))) (limit_ref w j)) \<le> r_maxCount (Rules (w_inj w) ! j)"
    by simp
  with c(3) show ?case by (auto split: if_splits)
qed

definition spent_world :: world where
  "spent_world =
     (case intercept 0 0 [ANil] (w_inj demo_world) (w_views demo_world ! 0) of
        (res, s', b') \<Rightarrow> \<lparr>w_inj = s', w_views = (w_views demo_world)[0 := b']\<rparr>)"

lemma reach_spent: "reach spent_world"
  unfolding spent_world_def
  by (cases "intercept 0 0 [ANil] (w_inj demo_world) (w_views demo_world ! 0)")
     (use reach.call [OF reach_demo, of 0 0 0 "[ANil]"] in \<open>simp add: demo_world_def WrapOf_def\<close>)

theorem budget_within_limit_witness:
  "faults 2 demo_world [Call 0 0 0 [ANil], Call 0 0 0 [ANil]] \<le> 1"
proof -
  have "ops_ok demo_world [Call 0 0 0 [ANil], Call 0 0 0 [ANil]]"
  proof -
    have "methods b' = methods b" if "intercept t i a s b = (r, s', b')" for t i a s b r s' b'
      using that by (auto simp: intercept_def resolve_def bump_def Let_def split: option.splits if_splits prod.splits)
    then show ?thesis
      by (cases "intercept 0 0 [ANil] (w_inj demo_world) (w_views demo_world ! 0)")
         (auto simp: demo_world_def WrapOf_def)
  qed
  then show ?thesis
    using budget_within_limit [OF reach_demo, of "[Call 0 0 0 [ANil], Call 0 0 0 [ANil]]" 2]
    by (simp add: demo_world_def rebuild_def Rules_def demo_defs limit_ref_def)
qed

lemma rate_one_hits: "\<not> sample k \<ge> Fin 1"
  using sample_bounds(2) [of k] by (cases "sample k") auto

text \<open>The first call of the rule with limit one is faulted.\<close>

lemma first_call_counts: "faults 2 demo_world [Call 0 0 0 [ANil]] = 1"
proof -
  let ?b = "w_views demo_world ! 0"
  have o: "owner (map cond_of (Rules (w_inj demo_world)))
      (Cond (ifaceName ?b) (m_name (methods ?b ! 0))) 2"
    by (auto simp: owner_def demo_world_def Rules_def rebuild_def demo_defs cond_of_def WrapOf_def
        demo_method_def less_eq_condition_def less_Suc_eq numeral_eq_Suc)
  have "v < length (w_views demo_world) \<Longrightarrow> v = 0" for v by (simp add: demo_world_def)
  from reach_view [OF reach_demo, of 0] have pub: "published (w_inj demo_world)" "view_ok (w_inj demo_world) ?b"
    by (simp_all add: demo_world_def)
  have "in_enabled (w_inj demo_world)" by (simp add: demo_world_def rebuild_def)
  with o published_match [OF pub(1)] have m: "plan_match (in_plan (w_inj demo_world)) (ifaceName ?b) (m_name (methods ?b ! 0)) = Some 2"
    by (simp add: Rules_def)
  have len: "0 < length (methods ?b)" by (simp add: demo_world_def WrapOf_def)
  have ref: "b_rule (call_bound (w_inj demo_world) ?b 0) = Some (limit_ref demo_world 2)"
    using call_bound_rule(1) [OF pub(2) len] m by (simp add: limit_ref_def)
  have r: "rule_at (w_inj demo_world) (limit_ref demo_world 2) = compile_rule get_rule" "check get_rule = None"
    using published_rule(3,4) [OF pub(1) m] by (simp_all add: limit_ref_def demo_world_def rebuild_def demo_rules_def)
  have "budget (w_inj demo_world) (limit_ref demo_world 2) = 0" by (simp add: demo_world_def rebuild_def)
  moreover have "admitted 0 (compile_rule get_rule) 0"
    using admitted_budget [OF r(2), of 0 0] by (simp add: get_rule_def mk_rule_def in_window_def)
  moreover have "c_rate (compile_rule get_rule) = Fin 1" "c_latency (compile_rule get_rule) = 5"
    by (simp_all add: demo_defs compile_rule_def compile_action_def wrap64_def)
  ultimately have "fst (intercept 0 0 [ANil] (w_inj demo_world) ?b) \<noteq> ([], Proceeded)"
    using rate_one_hits by (simp add: intercept_owned [OF ref] r(1) Let_def apply_fault_def)
  with o show ?thesis by simp
qed

text \<open>
  With \<open>n\<close> goroutines in flight on a rule of limit \<open>mc\<close>, in any order of their atomic
  operations, the rule's faults stay below \<open>mc + n\<close>.
\<close>

theorem concurrent_budget_bound:
  assumes "(race_step mc rate)\<^sup>*\<^sup>* (race_init n) s" and "0 < mc" and "mc - 1 + int n < 2 ^ 64"
  shows "uint (rc_budget s) < mc + int n"
proof -
  have "race_inv mc n s"
    using race_inv_steps [OF assms(1) race_inv_init [OF assms(2)] assms(2,3)] .
  then have "uint (rc_budget s) + int (in_flight s) \<le> mc - 1 + int n" by (simp add: race_inv_def)
  then show ?thesis by simp
qed

text \<open>Two goroutines pass the check of a limit of one before either counts its fault.\<close>

definition over_race :: race where
  "over_race = \<lparr>rc_budget = 2, rc_seq = 2, rc_pc = [Idle, Idle]\<rparr>"

lemma race_overshoots: "(race_step 1 (Fin 1))\<^sup>*\<^sup>* (race_init 2) over_race"
proof -
  let ?s = "\<lambda>b q p. \<lparr>rc_budget = b, rc_seq = q, rc_pc = p\<rparr>"
  have s1: "race_step 1 (Fin 1) (?s 0 0 [Idle, Idle]) (?s 0 0 [Checked, Idle])"
    using race_step.under [of 0 "?s 0 0 [Idle, Idle]" 1] by simp
  have s2: "race_step 1 (Fin 1) (?s 0 0 [Checked, Idle]) (?s 0 0 [Checked, Checked])"
    using race_step.under [of 1 "?s 0 0 [Checked, Idle]" 1] by simp
  have s3: "race_step 1 (Fin 1) (?s 0 0 [Checked, Checked]) (?s 0 1 [Sampled, Checked])"
    using race_step.hit [of 0 "?s 0 0 [Checked, Checked]" "Fin 1" 1] rate_one_hits by simp
  have s4: "race_step 1 (Fin 1) (?s 0 1 [Sampled, Checked]) (?s 0 2 [Sampled, Sampled])"
    using race_step.hit [of 1 "?s 0 1 [Sampled, Checked]" "Fin 1" 1] rate_one_hits by simp
  have s5: "race_step 1 (Fin 1) (?s 0 2 [Sampled, Sampled]) (?s 1 2 [Idle, Sampled])"
    using race_step.count [of 0 "?s 0 2 [Sampled, Sampled]" 1 "Fin 1"] by simp
  have s6: "race_step 1 (Fin 1) (?s 1 2 [Idle, Sampled]) (?s 2 2 [Idle, Idle])"
    using race_step.count [of 1 "?s 1 2 [Idle, Sampled]" 1 "Fin 1"] by simp
  have init: "race_init 2 = ?s 0 0 [Idle, Idle]"
    by (simp add: race_init_def numeral_2_eq_2)
  note step = converse_rtranclp_into_rtranclp [of "race_step 1 (Fin 1)"]
  show ?thesis
    unfolding over_race_def init
    by (rule step [OF s1], rule step [OF s2], rule step [OF s3], rule step [OF s4],
        rule step [OF s5], rule step [OF s6], rule rtranclp.rtrancl_refl)
qed

theorem concurrent_budget_bound_witness:
  "uint (rc_budget over_race) < 1 + int 2"
  using concurrent_budget_bound [OF race_overshoots] by simp

text \<open>
  The limit itself is not kept under concurrency: the load of the budget and its increment are
  separate operations, and two goroutines can both fault a call of a rule whose limit is one.
\<close>

theorem limit_can_be_exceeded:
  "\<exists>s. (race_step 1 (Fin 1))\<^sup>*\<^sup>* (race_init 2) s \<and> uint (rc_budget s) = 2"
  using race_overshoots by (auto simp: over_race_def intro: exI [of _ over_race])

section \<open>The life cycle\<close>

text \<open>
  C31. \<open>Set\<close> is all or nothing: a rejected rule set leaves the injector as it was; an accepted one
  is installed, enabled, and starts every budget at zero.
\<close>

theorem Set_all_or_nothing:
  assumes "reach w"
  shows "case Set_rules rs (w_inj w) of
           (Some e, s) \<Rightarrow> s = w_inj w \<and> validateSet rs = Some e
         | (None, s) \<Rightarrow> Rules s = rs \<and> Enabled s \<and> validateSet rs = None \<and>
             (\<forall>i. budget s (plan_id (in_plan s), i) = 0)"
  using reach_world_ok [OF assms]
  by (auto simp: Set_rules_def world_ok_def budgets_ok_def rebuild_def Rules_def Enabled_def
      split: option.splits)

theorem Set_all_or_nothing_witness:
  "snd (Set_rules [any_rule, any_rule] (w_inj demo_world)) = w_inj demo_world"
proof -
  have "validateSet [any_rule, any_rule] \<noteq> None"
    by (simp add: validateSet_spec ordered_conditions_def)
  then show ?thesis
    using Set_all_or_nothing [OF reach_demo, of "[any_rule, any_rule]"]
    by (auto simp: Set_rules_def split: option.splits)
qed

text \<open>
  \<open>Disable\<close> keeps the rules, and \<open>Enable\<close> resumes them, but the budgets start over: after the
  two, no rule has a fault counted against it, whatever it had before.
\<close>

theorem Enable_restarts_budgets:
  assumes "reach w"
  shows "Rules (Enable (Disable (w_inj w))) = Rules (w_inj w) \<and>
         Enabled (Enable (Disable (w_inj w))) \<and> \<not> Enabled (Disable (w_inj w)) \<and>
         budget (Enable (Disable (w_inj w))) (plan_id (in_plan (Enable (Disable (w_inj w)))), i) = 0"
  using reach_world_ok [OF assms]
  by (auto simp: world_ok_def budgets_ok_def rebuild_def Rules_def Enabled_def Enable_def Disable_def)

theorem Enable_restarts_budgets_witness:
  "budget (Enable (Disable (w_inj spent_world)))
     (plan_id (in_plan (Enable (Disable (w_inj spent_world)))), 2) = 0"
  using Enable_restarts_budgets [OF reach_spent] by blast

section \<open>Rules as data\<close>

text \<open>
  C40. Rules converted from specs that pass \<open>Validate\<close> cannot make \<open>Set\<close> panic; each keeps the
  condition, rate and limit of its spec, its actions in order, and its window: the parsed \<open>From\<close> and
  \<open>Until\<close>, no bound where they are empty. Every error it injects wraps \<open>ErrInjected\<close>.
\<close>

theorem specs_cannot_panic_Set:
  assumes "list_all2 (\<lambda>sp r. Spec_Rule pd pt sp = Inr r) sps rs" and "Validate rs = None"
  shows "fst (Set_rules rs s) = None \<and>
         list_all2 (\<lambda>sp r. cond_of r = Cond (s_interface sp) (s_method sp) \<and> r_rate r = s_rate sp \<and>
            r_maxCount r = s_maxCount sp \<and> list_all2 (denotes pd) (s_actions sp) (r_actions r) \<and>
            (if s_from sp = [] then r_from r = 0 else pt (s_from sp) = Some (r_from r)) \<and>
            (if s_until sp = [] then r_until r = 0 else pt (s_until sp) = Some (r_until r))) sps rs \<and>
         (\<forall>r\<in>set rs. \<forall>a\<in>set (r_actions r). \<forall>e. a_err a = Some e \<longrightarrow> errors_Is e ErrInjected)"
proof -
  have conv: "list_all2 (\<lambda>sp r. cond_of r = Cond (s_interface sp) (s_method sp) \<and> r_rate r = s_rate sp \<and>
      r_maxCount r = s_maxCount sp \<and> list_all2 (denotes pd) (s_actions sp) (r_actions r) \<and>
      (if s_from sp = [] then r_from r = 0 else pt (s_from sp) = Some (r_from r)) \<and>
      (if s_until sp = [] then r_until r = 0 else pt (s_until sp) = Some (r_until r))) sps rs"
    using assms(1) by (rule list_all2_mono) (simp add: Spec_Rule_iff cond_of_def)
  moreover have "\<forall>r\<in>set rs. \<forall>a\<in>set (r_actions r). \<forall>e. a_err a = Some e \<longrightarrow> errors_Is e ErrInjected"
    using conv by (fastforce simp: list_all2_conv_all_nth in_set_conv_nth dest: denotes_error)
  ultimately show ?thesis
    using assms(2) by (simp add: Set_rules_def Validate_def)
qed

definition demo_spec :: spec where
  "demo_spec =
     \<lparr>s_interface = [], s_method = ''Save'', s_rate = Fin 1,
      s_actions = [\<lparr>sa_latency = ''5ms'', sa_error = [], sa_panic = []\<rparr>,
                   \<lparr>sa_latency = [], sa_error = ''disk full'', sa_panic = []\<rparr>],
      s_maxCount = 100, s_from = [], s_until = []\<rparr>"

definition demo_parse :: "string \<Rightarrow> duration option" where
  "demo_parse t = (if t = ''5ms'' then Some 5000000 else None)"

definition spec_rule :: rule where
  "spec_rule = mk_rule [] ''Save'' [Delay 5000000, Fail (Some (ErrWrap ErrInjected ''disk full''))] 100"

lemma demo_spec_rule: "Spec_Rule demo_parse (\<lambda>_. None) demo_spec = Inr spec_rule"
  by (simp add: Spec_Rule_def demo_spec_def spec_rule_def demo_parse_def SpecAction_action_def
      nonempty_count_def mk_rule_def check_def isNaN_def isZero_def fault_count_def panics_def
      Delay_def Fail_def Let_def)

theorem specs_cannot_panic_Set_witness:
  "fst (Set_rules [spec_rule] (w_inj demo_world)) = None"
proof -
  have "Validate [spec_rule] = None"
    by (simp add: Validate_def validateSet_def spec_rule_def mk_rule_def check_def isNaN_def
        isZero_def fault_count_def panics_def Delay_def Fail_def Let_def)
  then show ?thesis
    using specs_cannot_panic_Set [of demo_parse "\<lambda>_. None" "[demo_spec]" "[spec_rule]" "w_inj demo_world"]
      demo_spec_rule by simp
qed

text \<open>
  The delays of an accepted rule are added as 64-bit durations and can wrap: two accepted delays
  can leave a negative latency, with which the faulted call does not sleep at all.
\<close>

theorem latency_can_wrap:
  "\<exists>r. r_actions r = [Delay (2 ^ 62), Delay (2 ^ 62)] \<and> check r = None \<and>
       c_latency (compile_rule r) = - (2 ^ 63)"
proof -
  let ?r = "mk_rule [] [] [Delay (2 ^ 62), Delay (2 ^ 62)] 0"
  have "check ?r = None"
    by (simp add: mk_rule_def check_def isNaN_def isZero_def fault_count_def panics_def Delay_def)
  moreover have "c_latency (compile_rule ?r) = - (2 ^ 63)"
    by (simp add: mk_rule_def compile_rule_def compile_action_def Delay_def wrap64_def)
  ultimately show ?thesis
    by (intro exI [of _ ?r]) (simp add: mk_rule_def)
qed

end
