(* ===== verification/ChaosAlias.thy ===== *)
theory ChaosAlias
  imports ChaosProps
begin

text \<open>
  Who can reach an injector's rules: \<open>New\<close>, \<open>Set\<close> and \<open>Rules\<close> of chaos/chaos.go with Go's slices, that
  is with arrays in a memory the caller and the injector share, and \<open>cloneRules\<close>, which keeps their
  parts of it apart. The operations on rule lists in ChaosRules are the abstract specification; the
  operations on slices refine it whatever the caller writes in between.
\<close>

section \<open>Slices and arrays\<close>

text \<open>
  A slice is a part of an array; \<open>None\<close> is the nil slice. Arrays of actions and arrays of rules share
  one supply of addresses. The capacity of a slice plays no part: nothing here appends in place.
\<close>

record slice =
  s_arr :: nat
  s_off :: nat
  s_len :: nat

record srule =
  sr_interface :: string
  sr_method :: string
  sr_rate :: gofloat
  sr_actions :: "slice option"
  sr_maxCount :: int
  sr_from :: gotime
  sr_until :: gotime

record gomem =
  act_arrays :: "nat \<Rightarrow> action list"
  rule_arrays :: "nat \<Rightarrow> srule list"
  next_arr :: nat

definition read_slice :: "(nat \<Rightarrow> 'a list) \<Rightarrow> slice option \<Rightarrow> 'a list" where
  "read_slice arrays s =
     (case s of None \<Rightarrow> [] | Some s \<Rightarrow> take (s_len s) (drop (s_off s) (arrays (s_arr s))))"

text \<open>The rule a caller sees through a rule's slice of actions.\<close>

definition rule_of :: "gomem \<Rightarrow> srule \<Rightarrow> rule" where
  "rule_of m r =
     \<lparr>r_interface = sr_interface r, r_method = sr_method r, r_rate = sr_rate r,
      r_actions = read_slice (act_arrays m) (sr_actions r), r_maxCount = sr_maxCount r,
      r_from = sr_from r, r_until = sr_until r\<rparr>"

definition read_rules :: "gomem \<Rightarrow> slice option \<Rightarrow> rule list" where
  "read_rules m s = map (rule_of m) (read_slice (rule_arrays m) s)"

definition whole :: "nat \<Rightarrow> 'a list \<Rightarrow> slice" where
  "whole a xs = \<lparr>s_arr = a, s_off = 0, s_len = length xs\<rparr>"

definition alloc_actions :: "action list \<Rightarrow> gomem \<Rightarrow> slice \<times> gomem" where
  "alloc_actions xs m =
     (whole (next_arr m) xs,
      m\<lparr>act_arrays := (act_arrays m)(next_arr m := xs), next_arr := next_arr m + 1\<rparr>)"

definition alloc_rules :: "srule list \<Rightarrow> gomem \<Rightarrow> slice \<times> gomem" where
  "alloc_rules xs m =
     (whole (next_arr m) xs,
      m\<lparr>rule_arrays := (rule_arrays m)(next_arr m := xs), next_arr := next_arr m + 1\<rparr>)"

text \<open>\<open>append([]Action(nil), xs...)\<close>: a fresh array, or still nil when there is nothing to append.\<close>

definition append_nil :: "action list \<Rightarrow> gomem \<Rightarrow> slice option \<times> gomem" where
  "append_nil xs m =
     (if xs = [] then (None, m) else (let (s, m') = alloc_actions xs m in (Some s, m')))"

text \<open>
  \<open>cloneRules\<close>: a fresh array of rules with the elements copied, and then, rule by rule, a fresh
  array for every slice of actions that is not nil.
\<close>

fun clone_actions :: "srule list \<Rightarrow> gomem \<Rightarrow> srule list \<times> gomem" where
  "clone_actions [] m = ([], m)"
| "clone_actions (r # rs) m =
     (let (s, m1) = (case sr_actions r of
                       None \<Rightarrow> (None, m)
                     | Some _ \<Rightarrow> append_nil (read_slice (act_arrays m) (sr_actions r)) m);
          (rs', m2) = clone_actions rs m1
      in (r\<lparr>sr_actions := s\<rparr> # rs', m2))"

definition cloneRules :: "slice option \<Rightarrow> gomem \<Rightarrow> slice \<times> gomem" where
  "cloneRules rules m =
     (let (out, m1) = alloc_rules (read_slice (rule_arrays m) rules) m;
          (rs, m2) = clone_actions (read_slice (rule_arrays m1) (Some out)) m1
      in (out, m2\<lparr>rule_arrays := (rule_arrays m2)(s_arr out := rs)\<rparr>))"

section \<open>The injector on slices\<close>

text \<open>
  The injector's own slice of rules with the rest of its state. \<open>callers\<close> are the arrays its
  callers hold slices of: those they made and those \<open>Rules\<close> gave them.
\<close>

record shared =
  sh_mem :: gomem
  callers :: "nat set"
  sh_rules :: slice
  sh_enabled :: bool
  sh_plan :: plan
  sh_supply :: nat
  sh_budget :: "nat \<times> nat \<Rightarrow> 64 word"

text \<open>The abstract injector: its rules are what its slice reads now.\<close>

definition injector_of :: "shared \<Rightarrow> injector" where
  "injector_of s =
     \<lparr>in_rules = read_rules (sh_mem s) (Some (sh_rules s)), in_enabled = sh_enabled s,
      in_plan = sh_plan s, plan_supply = sh_supply s, budget = sh_budget s\<rparr>"

definition rebuild_shared :: "shared \<Rightarrow> shared" where
  "rebuild_shared s =
     s\<lparr>sh_plan := build_plan (sh_supply s) (sh_enabled s) (read_rules (sh_mem s) (Some (sh_rules s))),
       sh_supply := sh_supply s + 1\<rparr>"

definition New_shared :: "slice option \<Rightarrow> nat set \<Rightarrow> gomem \<Rightarrow> setErr + shared" where
  "New_shared rules cs m =
     (case validateSet (read_rules m rules) of
        Some e \<Rightarrow> Inl e
      | None \<Rightarrow>
          (let (own, m') = cloneRules rules m in
           Inr (rebuild_shared \<lparr>sh_mem = m', callers = cs, sh_rules = own, sh_enabled = True,
                  sh_plan = empty_plan 0, sh_supply = 1, sh_budget = (\<lambda>_. 0)\<rparr>)))"

definition Set_shared :: "slice option \<Rightarrow> shared \<Rightarrow> setErr option \<times> shared" where
  "Set_shared rules s =
     (case validateSet (read_rules (sh_mem s) rules) of
        Some e \<Rightarrow> (Some e, s)
      | None \<Rightarrow>
          (let (own, m') = cloneRules rules (sh_mem s) in
           (None, rebuild_shared (s\<lparr>sh_mem := m', sh_rules := own, sh_enabled := True\<rparr>))))"

definition Disable_shared :: "shared \<Rightarrow> shared" where
  "Disable_shared s = rebuild_shared (s\<lparr>sh_enabled := False\<rparr>)"

definition Enable_shared :: "shared \<Rightarrow> shared" where
  "Enable_shared s = rebuild_shared (s\<lparr>sh_enabled := True\<rparr>)"

text \<open>\<open>Rules\<close> hands a clone out: every array allocated for it is the caller's from then on.\<close>

definition Rules_shared :: "shared \<Rightarrow> slice \<times> shared" where
  "Rules_shared s =
     (let (out, m') = cloneRules (Some (sh_rules s)) (sh_mem s) in
      (out, s\<lparr>sh_mem := m', callers := callers s \<union> {next_arr (sh_mem s)..<next_arr m'}\<rparr>))"

section \<open>What callers can do\<close>

definition held :: "nat set \<Rightarrow> slice option \<Rightarrow> bool" where
  "held cs s \<longleftrightarrow> (case s of None \<Rightarrow> True | Some s \<Rightarrow> s_arr s \<in> cs)"

text \<open>
  Callers allocate arrays, store actions into arrays of actions and rules into arrays of rules, as
  long as they hold the arrays involved.
\<close>

inductive caller_step :: "shared \<Rightarrow> shared \<Rightarrow> bool" where
  make_actions:
    "caller_step s (s\<lparr>sh_mem := snd (alloc_actions xs (sh_mem s)),
                      callers := insert (next_arr (sh_mem s)) (callers s)\<rparr>)"
| make_rules:
    "\<forall>r\<in>set rs. held (callers s) (sr_actions r) \<Longrightarrow>
     caller_step s (s\<lparr>sh_mem := snd (alloc_rules rs (sh_mem s)),
                      callers := insert (next_arr (sh_mem s)) (callers s)\<rparr>)"
| store_action:
    "a \<in> callers s \<Longrightarrow>
     caller_step s (s\<lparr>sh_mem := (sh_mem s)\<lparr>act_arrays :=
       (act_arrays (sh_mem s))(a := (act_arrays (sh_mem s) a)[i := x])\<rparr>\<rparr>)"
| store_rule:
    "a \<in> callers s \<Longrightarrow> held (callers s) (sr_actions r) \<Longrightarrow>
     caller_step s (s\<lparr>sh_mem := (sh_mem s)\<lparr>rule_arrays :=
       (rule_arrays (sh_mem s))(a := (rule_arrays (sh_mem s) a)[i := r])\<rparr>\<rparr>)"

text \<open>What callers hold before there is an injector: allocated arrays, closed under what they refer to.\<close>

definition callers_ok :: "nat set \<Rightarrow> gomem \<Rightarrow> bool" where
  "callers_ok cs m \<longleftrightarrow>
     cs \<subseteq> {..<next_arr m} \<and> (\<forall>a\<in>cs. \<forall>r\<in>set (rule_arrays m a). held cs (sr_actions r)) \<and>
     (\<forall>a. next_arr m \<le> a \<longrightarrow> rule_arrays m a = [])"

inductive sreach :: "shared \<Rightarrow> bool" where
  new: "callers_ok cs m \<Longrightarrow> held cs rules \<Longrightarrow> New_shared rules cs m = Inr s \<Longrightarrow> sreach s"
| set: "sreach s \<Longrightarrow> held (callers s) rules \<Longrightarrow> sreach (snd (Set_shared rules s))"
| disable: "sreach s \<Longrightarrow> sreach (Disable_shared s)"
| enable: "sreach s \<Longrightarrow> sreach (Enable_shared s)"
| rules: "sreach s \<Longrightarrow> sreach (snd (Rules_shared s))"
| caller: "sreach s \<Longrightarrow> caller_step s s' \<Longrightarrow> sreach s'"

section \<open>Cloning\<close>

lemma held_None [simp]: "held A None"
  by (simp add: held_def)

lemma held_mono: "held A s \<Longrightarrow> A \<subseteq> B \<Longrightarrow> held B s"
  by (auto simp: held_def split: option.splits)

lemma read_None [simp]: "read_slice f None = []"
  by (simp add: read_slice_def)

lemma read_whole [simp]: "f a = xs \<Longrightarrow> read_slice f (Some (whole a xs)) = xs"
  by (simp add: read_slice_def whole_def)

lemma whole_arr [simp]: "s_arr (whole a xs) = a"
  by (simp add: whole_def)

lemma set_read_slice: "set (read_slice f (Some t)) \<subseteq> set (f (s_arr t))"
  by (auto simp: read_slice_def dest: in_set_takeD in_set_dropD)

lemma read_slice_cong: "held A s \<Longrightarrow> (\<And>a. a \<in> A \<Longrightarrow> f a = g a) \<Longrightarrow> read_slice f s = read_slice g s"
  by (auto simp: read_slice_def held_def split: option.splits)

text \<open>A rule reads the same in two memories that agree on the arrays its actions may be in.\<close>

lemma rule_of_cong:
  "held A (sr_actions r) \<Longrightarrow> (\<And>a. a \<in> A \<Longrightarrow> act_arrays m a = act_arrays m' a) \<Longrightarrow> rule_of m r = rule_of m' r"
  using read_slice_cong [of A "sr_actions r" "act_arrays m" "act_arrays m'"] by (simp add: rule_of_def)

lemma map_rule_of_cong:
  "\<forall>r\<in>set rs. held A (sr_actions r) \<Longrightarrow> (\<And>a. a \<in> A \<Longrightarrow> act_arrays m a = act_arrays m' a) \<Longrightarrow>
   map (rule_of m) rs = map (rule_of m') rs"
  using rule_of_cong [of A _ m m'] by simp

lemma append_nil_spec:
  assumes "append_nil xs m = (s, m')"
  shows "read_slice (act_arrays m') s = xs" and "next_arr m \<le> next_arr m'"
    and "rule_arrays m' = rule_arrays m" and "a < next_arr m \<Longrightarrow> act_arrays m' a = act_arrays m a"
    and "held {next_arr m..<next_arr m'} s"
proof -
  have "read_slice (act_arrays m') s = xs \<and> next_arr m \<le> next_arr m' \<and>
      rule_arrays m' = rule_arrays m \<and> (a < next_arr m \<longrightarrow> act_arrays m' a = act_arrays m a) \<and>
      held {next_arr m..<next_arr m'} s"
  proof (cases "xs = []")
    case False
    with assms have "s = Some (whole (next_arr m) xs)"
      and "m' = m\<lparr>act_arrays := (act_arrays m)(next_arr m := xs), next_arr := next_arr m + 1\<rparr>"
      by (simp_all add: append_nil_def alloc_actions_def)
    then show ?thesis by (simp add: held_def)
  qed (use assms in \<open>simp add: append_nil_def\<close>)
  then show "read_slice (act_arrays m') s = xs" "next_arr m \<le> next_arr m'"
    "rule_arrays m' = rule_arrays m" "a < next_arr m \<Longrightarrow> act_arrays m' a = act_arrays m a"
    "held {next_arr m..<next_arr m'} s" by blast+
qed

text \<open>
  Cloning actions reads the same rules, puts them into new arrays only and touches no old array.
\<close>

lemma clone_actions_spec:
  assumes "clone_actions rs m = (rs', m')" and "\<forall>r\<in>set rs. held {..<next_arr m} (sr_actions r)"
  shows "map (rule_of m') rs' = map (rule_of m) rs \<and> next_arr m \<le> next_arr m' \<and>
         rule_arrays m' = rule_arrays m \<and> (\<forall>a. a < next_arr m \<longrightarrow> act_arrays m' a = act_arrays m a) \<and>
         (\<forall>r\<in>set rs'. held {next_arr m..<next_arr m'} (sr_actions r))"
  using assms
proof (induction rs arbitrary: m rs' m')
  case (Cons r rs)
  let ?xs = "read_slice (act_arrays m) (sr_actions r)"
  obtain s mr where c: "(case sr_actions r of None \<Rightarrow> (None, m) | Some _ \<Rightarrow> append_nil ?xs m) = (s, mr)"
    by fastforce
  obtain rs1 where rest: "clone_actions rs mr = (rs1, m')" and rs': "rs' = r\<lparr>sr_actions := s\<rparr> # rs1"
    using Cons.prems(1) c by (auto split: prod.splits)
  have one: "read_slice (act_arrays mr) s = ?xs" "next_arr m \<le> next_arr mr"
    "rule_arrays mr = rule_arrays m" "\<And>a. a < next_arr m \<Longrightarrow> act_arrays mr a = act_arrays m a"
    "held {next_arr m..<next_arr mr} s"
    using c append_nil_spec [of ?xs m s mr] by (auto split: option.splits)
  have "\<forall>r\<in>set rs. held {..<next_arr mr} (sr_actions r)"
    using Cons.prems(2) one(2) by (auto intro: held_mono)
  note ih = Cons.IH [OF rest this]
  have "read_slice (act_arrays m') s = ?xs"
    using ih one(1) read_slice_cong [OF one(5), of "act_arrays m'" "act_arrays mr"] by simp
  then have "rule_of m' (r\<lparr>sr_actions := s\<rparr>) = rule_of m r"
    by (simp add: rule_of_def)
  moreover have "map (rule_of mr) rs = map (rule_of m) rs"
    using Cons.prems(2) one(4) by (intro map_rule_of_cong [of _ "{..<next_arr m}"]) auto
  ultimately show ?case
    using ih one rs' by (auto intro: held_mono)
qed simp

text \<open>
  \<open>cloneRules\<close> on a slice whose arrays are allocated: the clone reads the same rules, lies in new
  arrays throughout, and every old array is as it was.
\<close>

definition closed_mem :: "gomem \<Rightarrow> slice option \<Rightarrow> bool" where
  "closed_mem m s \<longleftrightarrow> (\<forall>r\<in>set (read_slice (rule_arrays m) s). held {..<next_arr m} (sr_actions r))"

lemma cloneRules_spec:
  assumes "cloneRules s m = (out, m')" and "closed_mem m s"
  shows "read_rules m' (Some out) = read_rules m s" and "s_arr out = next_arr m"
    and "next_arr m < next_arr m'"
    and "a < next_arr m \<Longrightarrow> act_arrays m' a = act_arrays m a \<and> rule_arrays m' a = rule_arrays m a"
    and "\<forall>r\<in>set (rule_arrays m' (next_arr m)). held {next_arr m..<next_arr m'} (sr_actions r)"
    and "a \<noteq> next_arr m \<Longrightarrow> rule_arrays m' a = rule_arrays m a"
proof -
  let ?xs = "read_slice (rule_arrays m) s"
  let ?m = "m\<lparr>rule_arrays := (rule_arrays m)(next_arr m := ?xs), next_arr := next_arr m + 1\<rparr>"
  obtain rs mc where c: "clone_actions ?xs ?m = (rs, mc)" by fastforce
  have out: "out = whole (next_arr m) ?xs" and m': "m' = mc\<lparr>rule_arrays := (rule_arrays mc)(next_arr m := rs)\<rparr>"
    using assms(1) c by (auto simp: cloneRules_def alloc_rules_def)
  have "\<forall>r\<in>set ?xs. held {..<next_arr ?m} (sr_actions r)"
    using assms(2) by (auto simp: closed_mem_def intro: held_mono)
  note sp = clone_actions_spec [OF c this]
  have len: "length rs = length ?xs"
    using sp by (metis length_map)
  have "read_slice (rule_arrays m') (Some out) = rs"
    by (simp add: out m' read_slice_def whole_def len [unfolded read_slice_def])
  moreover have "rule_of m' = rule_of mc" "rule_of ?m = rule_of m"
    by (auto simp: rule_of_def m')
  ultimately show "read_rules m' (Some out) = read_rules m s"
    using sp by (simp add: read_rules_def)
  show "s_arr out = next_arr m" by (simp add: out)
  show "next_arr m < next_arr m'" using sp by (simp add: m')
  show "a < next_arr m \<Longrightarrow> act_arrays m' a = act_arrays m a \<and> rule_arrays m' a = rule_arrays m a"
    using sp by (simp add: m')
  show "\<forall>r\<in>set (rule_arrays m' (next_arr m)). held {next_arr m..<next_arr m'} (sr_actions r)"
    using sp by (auto simp: m' intro: held_mono)
  show "a \<noteq> next_arr m \<Longrightarrow> rule_arrays m' a = rule_arrays m a"
    using sp by (simp add: m')
qed

section \<open>The injector's arrays and the callers' arrays\<close>

definition apart :: "shared \<Rightarrow> bool" where
  "apart s \<longleftrightarrow>
     (let m = sh_mem s; own = {..<next_arr m} - callers s in
      callers_ok (callers s) m \<and> s_arr (sh_rules s) \<in> own \<and>
      (\<forall>r\<in>set (rule_arrays m (s_arr (sh_rules s))). held own (sr_actions r)))"

lemma closed_held: "callers_ok cs m \<Longrightarrow> held cs s \<Longrightarrow> closed_mem m s"
proof (cases s)
  case (Some t)
  assume cs: "callers_ok cs m" and "held cs s"
  with Some have "t \<in> {t. s_arr t \<in> cs}" by (simp add: held_def)
  then have "\<forall>r\<in>set (rule_arrays m (s_arr t)). held {..<next_arr m} (sr_actions r)"
    using cs by (auto simp: callers_ok_def intro: held_mono)
  then show ?thesis
    using Some set_read_slice [of "rule_arrays m" t] by (auto simp: closed_mem_def)
qed (simp add: closed_mem_def)

lemma apart_closed: "apart s \<Longrightarrow> closed_mem (sh_mem s) (Some (sh_rules s))"
  using set_read_slice [of "rule_arrays (sh_mem s)" "sh_rules s"]
  by (auto simp: closed_mem_def apart_def Let_def intro: held_mono)

text \<open>What a clone leaves true of the callers, and that it is out of their reach.\<close>

lemma callers_ok_clone:
  assumes "cloneRules rules m = (out, m')" and "closed_mem m rules" and "callers_ok cs m"
  shows "callers_ok cs m'" and "callers_ok (cs \<union> {next_arr m..<next_arr m'}) m'"
    and "s_arr out \<in> {..<next_arr m'} - cs"
    and "\<forall>r\<in>set (rule_arrays m' (s_arr out)). held ({..<next_arr m'} - cs) (sr_actions r)"
proof -
  note cl = cloneRules_spec [OF assms(1,2)]
  from assms(3) have cs: "cs \<subseteq> {..<next_arr m}" and "\<And>a r. a \<in> cs \<Longrightarrow> r \<in> set (rule_arrays m a) \<Longrightarrow> held cs (sr_actions r)"
    and none: "\<And>a. next_arr m \<le> a \<Longrightarrow> rule_arrays m a = []" by (auto simp: callers_ok_def)
  then have refs: "held cs (sr_actions r)" if "a \<in> cs" "r \<in> set (rule_arrays m' a)" for a r
    using that cl(4) [of a] by auto
  have none': "rule_arrays m' a = []" if "next_arr m < a" for a
    using none cl(6) [of a] that by simp
  from cl(3) cs refs none' show "callers_ok cs m'" by (auto simp: callers_ok_def)
  show "callers_ok (cs \<union> {next_arr m..<next_arr m'}) m'"
    unfolding callers_ok_def
  proof (intro conjI ballI allI impI)
    fix a r assume a: "a \<in> cs \<union> {next_arr m..<next_arr m'}" and r: "r \<in> set (rule_arrays m' a)"
    then consider "a \<in> cs" | "a = next_arr m" using none' [of a] by fastforce
    then show "held (cs \<union> {next_arr m..<next_arr m'}) (sr_actions r)"
      using refs r cl(5) by cases (auto intro: held_mono)
  qed (use cs cl(3) none' in auto)
  show "s_arr out \<in> {..<next_arr m'} - cs" using cl(2,3) cs by auto
  have "{next_arr m..<next_arr m'} \<subseteq> {..<next_arr m'} - cs" using cs by auto
  then show "\<forall>r\<in>set (rule_arrays m' (s_arr out)). held ({..<next_arr m'} - cs) (sr_actions r)"
    using cl(2,5) by (auto intro: held_mono)
qed

text \<open>Whatever leaves the injector's arrays alone leaves what it reads alone.\<close>

lemma read_rules_own:
  assumes "apart s" and "\<And>a. a \<in> {..<next_arr (sh_mem s)} - callers s \<Longrightarrow>
      act_arrays m a = act_arrays (sh_mem s) a \<and> rule_arrays m a = rule_arrays (sh_mem s) a"
  shows "read_rules m (Some (sh_rules s)) = read_rules (sh_mem s) (Some (sh_rules s))"
proof -
  let ?own = "{..<next_arr (sh_mem s)} - callers s"
  have own: "s_arr (sh_rules s) \<in> ?own"
    and refs: "\<forall>r\<in>set (rule_arrays (sh_mem s) (s_arr (sh_rules s))). held ?own (sr_actions r)"
    using assms(1) by (auto simp: apart_def Let_def)
  let ?rs = "read_slice (rule_arrays (sh_mem s)) (Some (sh_rules s))"
  have "read_slice (rule_arrays m) (Some (sh_rules s)) = ?rs"
    using own assms(2) by (simp add: read_slice_def)
  moreover have "map (rule_of m) ?rs = map (rule_of (sh_mem s)) ?rs"
    using refs set_read_slice [of "rule_arrays (sh_mem s)" "sh_rules s"] assms(2)
    by (intro map_rule_of_cong [of _ ?own]) auto
  ultimately show ?thesis by (simp add: read_rules_def)
qed

lemma in_set_update_or: "x \<in> set (xs[i := y]) \<Longrightarrow> x = y \<or> x \<in> set xs"
  using set_update_subset_insert [of xs i y] by auto

lemma caller_step_own:
  assumes "caller_step s s'" and "apart s"
  shows "sh_rules s' = sh_rules s" and "sh_enabled s' = sh_enabled s" and "sh_plan s' = sh_plan s"
    and "sh_supply s' = sh_supply s" and "sh_budget s' = sh_budget s"
    and "\<And>a. a \<in> {..<next_arr (sh_mem s)} - callers s \<Longrightarrow>
      act_arrays (sh_mem s') a = act_arrays (sh_mem s) a \<and> rule_arrays (sh_mem s') a = rule_arrays (sh_mem s) a"
  using assms by (auto elim!: caller_step.cases simp: alloc_actions_def alloc_rules_def)

lemma injector_of_rebuild: "injector_of (rebuild_shared s) = rebuild (injector_of s)"
  by (simp add: injector_of_def rebuild_shared_def rebuild_def)

lemma apart_fields [simp]:
  "apart (s\<lparr>sh_enabled := b\<rparr>) = apart s" "apart (rebuild_shared s) = apart s"
  by (simp_all add: apart_def rebuild_shared_def)

lemma caller_step_apart:
  assumes "caller_step s s'" and "apart s"
  shows "apart s'" and "injector_of s' = injector_of s"
proof -
  note own = caller_step_own [OF assms]
  let ?own = "{..<next_arr (sh_mem s)} - callers s"
  have ok: "callers_ok (callers s) (sh_mem s)" and "s_arr (sh_rules s) \<in> ?own"
    and "\<forall>r\<in>set (rule_arrays (sh_mem s) (s_arr (sh_rules s))). held ?own (sr_actions r)"
    using assms(2) by (auto simp: apart_def Let_def)
  moreover have "callers_ok (callers s') (sh_mem s')" and "?own \<subseteq> {..<next_arr (sh_mem s')} - callers s'"
    using assms(1) ok
    by (cases; fastforce simp: callers_ok_def alloc_actions_def alloc_rules_def subset_iff
          dest!: in_set_update_or intro: held_mono)+
  ultimately show "apart s'"
    using own(1,6) by (auto simp: apart_def Let_def intro: held_mono)
  show "injector_of s' = injector_of s"
    using own read_rules_own [OF assms(2) own(6)] by (simp add: injector_of_def)
qed

lemma apart_own:
  assumes "cloneRules rules m = (own, m')" and "closed_mem m rules" and "callers_ok cs m"
    and "sh_mem s = m'" and "callers s = cs" and "sh_rules s = own"
  shows "apart s" and "read_rules (sh_mem s) (Some (sh_rules s)) = read_rules m rules"
  using callers_ok_clone [OF assms(1-3)] cloneRules_spec(1) [OF assms(1,2)] assms(4-6)
  by (simp_all add: apart_def Let_def)

lemma New_shared_refines:
  assumes "New_shared rules cs m = Inr s" and "callers_ok cs m" and "held cs rules"
  shows "apart s" and "New_injector (read_rules m rules) = Inr (injector_of s)"
proof -
  obtain own m' where c: "cloneRules rules m = (own, m')" by fastforce
  let ?s = "\<lparr>sh_mem = m', callers = cs, sh_rules = own, sh_enabled = True,
               sh_plan = empty_plan 0, sh_supply = 1, sh_budget = (\<lambda>_. 0)\<rparr>"
  from assms(1) c have v: "validateSet (read_rules m rules) = None" and s: "s = rebuild_shared ?s"
    by (auto simp: New_shared_def split: option.splits)
  note own = apart_own [OF c closed_held [OF assms(2,3)] assms(2), of ?s]
  from own(1) show "apart s" by (simp add: s)
  from own(2) v show "New_injector (read_rules m rules) = Inr (injector_of s)"
    by (simp add: New_injector_def s injector_of_rebuild) (simp add: injector_of_def)
qed

lemma New_injector_rules: "New_injector rs = Inr s \<Longrightarrow> in_rules s = rs"
  by (auto simp: New_injector_def rebuild_def split: option.splits)

lemma New_shared_callers: "New_shared rules cs m = Inr s \<Longrightarrow> callers s = cs"
  by (cases "cloneRules rules m") (auto simp: New_shared_def rebuild_shared_def split: option.splits)

lemma Set_shared_refines:
  assumes "apart s" and "held (callers s) rules"
  shows "apart (snd (Set_shared rules s))"
    and "map_prod id injector_of (Set_shared rules s) = Set_rules (read_rules (sh_mem s) rules) (injector_of s)"
proof -
  obtain own m' where c: "cloneRules rules (sh_mem s) = (own, m')" by fastforce
  let ?s = "s\<lparr>sh_mem := m', sh_rules := own, sh_enabled := True\<rparr>"
  have ok: "callers_ok (callers s) (sh_mem s)" using assms(1) by (simp add: apart_def Let_def)
  note own = apart_own [OF c closed_held [OF ok assms(2)] ok, of ?s]
  from own(1) assms(1) c show "apart (snd (Set_shared rules s))"
    by (simp add: Set_shared_def split: option.split)
  from own(2) c show "map_prod id injector_of (Set_shared rules s) =
      Set_rules (read_rules (sh_mem s) rules) (injector_of s)"
    by (simp add: Set_shared_def Set_rules_def injector_of_rebuild split: option.split)
       (simp add: injector_of_def)
qed

lemma Rules_shared_refines:
  assumes "apart s" and "Rules_shared s = (out, s')"
  shows "apart s'" and "injector_of s' = injector_of s"
    and "read_rules (sh_mem s') (Some out) = Rules (injector_of s)"
proof -
  let ?m = "sh_mem s" and ?own = "{..<next_arr (sh_mem s)} - callers s"
  obtain m' where c: "cloneRules (Some (sh_rules s)) ?m = (out, m')"
    and s': "s' = s\<lparr>sh_mem := m', callers := callers s \<union> {next_arr ?m..<next_arr m'}\<rparr>"
    using assms(2) by (auto simp: Rules_shared_def split: prod.splits)
  have ok: "callers_ok (callers s) ?m" and own: "s_arr (sh_rules s) \<in> ?own"
    "\<forall>r\<in>set (rule_arrays ?m (s_arr (sh_rules s))). held ?own (sr_actions r)"
    using assms(1) by (auto simp: apart_def Let_def)
  note cl = cloneRules_spec [OF c apart_closed [OF assms(1)]]
  note co = callers_ok_clone [OF c apart_closed [OF assms(1)] ok]
  have "?own \<subseteq> {..<next_arr m'} - (callers s \<union> {next_arr ?m..<next_arr m'})" using cl(3) by auto
  then show "apart s'"
    using own co(2) cl(4) by (auto simp: apart_def s' Let_def intro: held_mono)
  have "read_rules m' (Some (sh_rules s)) = read_rules ?m (Some (sh_rules s))"
    using cl(4) by (intro read_rules_own [OF assms(1)]) auto
  then show "injector_of s' = injector_of s" by (simp add: s' injector_of_def)
  from cl(1) show "read_rules (sh_mem s') (Some out) = Rules (injector_of s)"
    by (simp add: s' Rules_def injector_of_def)
qed

lemma sreach_apart: "sreach s \<Longrightarrow> apart s"
proof (induction rule: sreach.induct)
  case (rules s)
  then show ?case using Rules_shared_refines(1) [of s] by (metis prod.collapse)
qed (simp_all add: New_shared_refines(1) Set_shared_refines(1) caller_step_apart(1)
       Disable_shared_def Enable_shared_def)

section \<open>Callers cannot reach the rules\<close>

text \<open>
  C32. In every reachable state a caller's writes to the arrays it holds, those it passed to \<open>New\<close> and
  \<open>Set\<close> and those it got from \<open>Rules\<close>, change nothing of the injector; and every operation does on
  slices what it does on lists: \<open>Set\<close> installs the rules its argument holds at the call, \<open>Disable\<close>
  and \<open>Enable\<close> compile the rules last passed to \<open>Set\<close>, and \<open>Rules\<close> returns a copy.
\<close>

theorem callers_cannot_reach_rules:
  assumes "sreach s"
  shows "(caller_step s s' \<longrightarrow> injector_of s' = injector_of s) \<and>
         (held (callers s) rules \<longrightarrow>
            map_prod id injector_of (Set_shared rules s) =
            Set_rules (read_rules (sh_mem s) rules) (injector_of s)) \<and>
         injector_of (Disable_shared s) = Disable (injector_of s) \<and>
         injector_of (Enable_shared s) = Enable (injector_of s) \<and>
         injector_of (snd (Rules_shared s)) = injector_of s \<and>
         read_rules (sh_mem (snd (Rules_shared s))) (Some (fst (Rules_shared s))) = Rules (injector_of s)"
proof (intro conjI impI)
  note apart = sreach_apart [OF assms]
  show "caller_step s s' \<Longrightarrow> injector_of s' = injector_of s" using caller_step_apart(2) apart by blast
  show "held (callers s) rules \<Longrightarrow> map_prod id injector_of (Set_shared rules s) =
      Set_rules (read_rules (sh_mem s) rules) (injector_of s)" using Set_shared_refines(2) apart by blast
  show "injector_of (Disable_shared s) = Disable (injector_of s)"
    "injector_of (Enable_shared s) = Enable (injector_of s)"
    by (simp_all add: Disable_shared_def Enable_shared_def Disable_def Enable_def injector_of_rebuild)
       (simp_all add: injector_of_def)
  show "injector_of (snd (Rules_shared s)) = injector_of s"
    "read_rules (sh_mem (snd (Rules_shared s))) (Some (fst (Rules_shared s))) = Rules (injector_of s)"
    using Rules_shared_refines [OF apart, of "fst (Rules_shared s)" "snd (Rules_shared s)"] by simp_all
qed

definition demo_mem :: gomem where
  "demo_mem =
     \<lparr>act_arrays = (\<lambda>_. [])(0 := [Delay 5, Fail (Some (ErrText ''down''))]),
      rule_arrays = (\<lambda>_. [])(1 := [\<lparr>sr_interface = ''Repo'', sr_method = ''Get'', sr_rate = Fin 1,
        sr_actions = Some \<lparr>s_arr = 0, s_off = 0, s_len = 2\<rparr>, sr_maxCount = 1, sr_from = 0, sr_until = 0\<rparr>]),
      next_arr = 2\<rparr>"

definition demo_rules_slice :: slice where
  "demo_rules_slice = \<lparr>s_arr = 1, s_off = 0, s_len = 1\<rparr>"

definition demo_shared :: shared where
  "demo_shared =
     (case New_shared (Some demo_rules_slice) {0, 1} demo_mem of Inr s \<Rightarrow> s)"

text \<open>The caller turns the delay of the rule it passed to \<open>New\<close> into a panic.\<close>

definition meddled :: shared where
  "meddled = demo_shared\<lparr>sh_mem := (sh_mem demo_shared)\<lparr>act_arrays :=
     (act_arrays (sh_mem demo_shared))(0 := (act_arrays (sh_mem demo_shared) 0)[0 := Panic (AStr ''boom'')])\<rparr>\<rparr>"

lemma demo_read: "read_rules demo_mem (Some demo_rules_slice) = [get_rule]"
  by (simp add: read_rules_def read_slice_def demo_mem_def demo_rules_slice_def rule_of_def demo_defs)

lemma demo_New: "New_shared (Some demo_rules_slice) {0, 1} demo_mem = Inr demo_shared"
proof -
  have "validateSet [get_rule] = None"
    using demo_rules_valid by (simp add: demo_rules_def validateSet_spec ordered_conditions_def)
  then show ?thesis
    by (simp add: demo_shared_def New_shared_def demo_read split: prod.split)
qed

lemma demo_callers: "callers_ok {0, 1} demo_mem" "held {0, 1} (Some demo_rules_slice)"
  by (simp_all add: callers_ok_def demo_mem_def held_def demo_rules_slice_def)

lemma sreach_demo: "sreach demo_shared"
  by (rule sreach.new [OF demo_callers demo_New])

theorem callers_cannot_reach_rules_witness:
  "in_rules (injector_of meddled) = [get_rule] \<and> in_rules (Enable (injector_of meddled)) = [get_rule]"
proof -
  have "callers demo_shared = {0, 1}"
    by (rule New_shared_callers [OF demo_New])
  then have "caller_step demo_shared meddled"
    unfolding meddled_def by (intro caller_step.store_action) simp
  then have "injector_of meddled = injector_of demo_shared"
    using callers_cannot_reach_rules [OF sreach_demo] by blast
  moreover have "in_rules (injector_of demo_shared) = [get_rule]"
    using New_injector_rules [OF New_shared_refines(2) [OF demo_New demo_callers]] demo_read by simp
  ultimately show ?thesis by (simp add: Enable_def rebuild_def)
qed

end
