(* ===== verification/ChaosProxy.thy ===== *)
theory ChaosProxy
  imports ChaosProps InvocationProps
begin

text \<open>
  A call through a proxy of an injector, from the registers to the registers: the interceptor of
  chaos/inject.go as an interceptor of the chain that \<open>Dispatch\<close> runs.
\<close>

section \<open>The injector's interceptor in the chain\<close>

text \<open>
  What \<open>intercept\<close> decided, as the interceptor does it: a wait reads the arguments when some parameter
  implements \<open>context.Context\<close>, and only then; after it the call panics, returns, or proceeds.
  \<open>enc\<close> turns result values into those of the frame.
\<close>

definition decide_ix :: "(any list \<Rightarrow> rets) \<Rightarrow> outcome \<Rightarrow> ix" where
  "decide_ix enc out =
     (case out of
        Proceeded \<Rightarrow> Next Return
      | Panicked v \<Rightarrow> Crash ''panic''
      | Returned vs \<Rightarrow> Return (enc vs))"

definition chaos_ix :: "(any list \<Rightarrow> rets) \<Rightarrow> methodT \<Rightarrow> effect list \<times> outcome \<Rightarrow> ix" where
  "chaos_ix enc m =
     (\<lambda>(effs, out).
        if effs \<noteq> [] \<and> list_ex implements_ctx (m_in m)
        then TakeArgs (\<lambda>_. decide_ix enc out) else decide_ix enc out)"

lemma chaos_ix_pass: "effs = [] \<or> \<not> list_ex implements_ctx (m_in m) \<Longrightarrow> chaos_ix enc m (effs, Proceeded) = pass"
  by (auto simp: chaos_ix_def decide_ix_def pass_def)

section \<open>Calls that are not faulted\<close>

text \<open>
  C10. An injector costs the calls it does not fault nothing: with the injector disabled, on a call no
  rule owns, and on a call that is at most delayed and takes no context, the call goes as if there
  were no interceptor, for every method; and for a method without stack words whose target implements
  the interface the registers go to the target's own code with the receiver rebound and come back as
  that code leaves them, its panics included. (With words on the stack the call goes through
  \<open>reflect\<close>, as it does without an injector.)
\<close>

theorem unfaulted_call_keeps_registers:
  assumes "reach w" and "v < length (w_views w)" and "i < length (methods (w_views w ! v))"
  shows "let b = w_views w ! v; m = methods b ! i; d = fst (intercept now i vals (w_inj w) b) in
         \<not> Enabled (w_inj w) \<or>
         (\<forall>r\<in>set (Rules (w_inj w)). \<not> Cond (ifaceName b) (m_name m) \<le> cond_of r) \<or>
         snd d = Proceeded \<and> \<not> list_ex implements_ctx (m_in m) \<longrightarrow>
         Dispatch R M [chaos_ix enc m d] pooled mm = Dispatch R M [] pooled mm \<and>
         (targetFun M = Some code \<and> stackBytes (pm_layout M) = 0 \<longrightarrow>
            Dispatch R M [chaos_ix enc m d] pooled mm =
              redial code (wr (AInts, 0) (le_bytes 8 (targetData M)) mm))"
  unfolding Let_def
proof (rule impI)
  let ?b = "w_views w ! v"
  let ?m = "methods ?b ! i" and ?d = "fst (intercept now i vals (w_inj w) ?b)"
  assume "\<not> Enabled (w_inj w) \<or>
      (\<forall>r\<in>set (Rules (w_inj w)). \<not> Cond (ifaceName ?b) (m_name ?m) \<le> cond_of r) \<or>
      snd ?d = Proceeded \<and> \<not> list_ex implements_ctx (m_in ?m)"
  then have "?d = ([], Proceeded) \<or> snd ?d = Proceeded \<and> \<not> list_ex implements_ctx (m_in ?m)"
    using unowned_intercept [OF assms] by blast
  then have "\<forall>p\<in>set [chaos_ix enc ?m ?d]. p = pass"
    by simp (metis chaos_ix_pass prod.collapse)
  from transparent_chain [OF this] show
    "Dispatch R M [chaos_ix enc ?m ?d] pooled mm = Dispatch R M [] pooled mm \<and>
     (targetFun M = Some code \<and> stackBytes (pm_layout M) = 0 \<longrightarrow>
        Dispatch R M [chaos_ix enc ?m ?d] pooled mm = redial code (wr (AInts, 0) (le_bytes 8 (targetData M)) mm))"
    by (auto simp: replayed_def)
qed

theorem unfaulted_call_keeps_registers_witness:
  "Dispatch demo_rt echo_method
     [chaos_ix (\<lambda>_. None) ChaosProps.demo_method (fst (intercept 0 0 [ANil] (w_inj disabled_world) (w_views disabled_world ! 0)))]
     demo_state (\<lambda>_ _. 1) =
   redial echo_code (wr (AInts, 0) (le_bytes 8 5) (\<lambda>_ _. 1))"
proof -
  let ?ix = "chaos_ix (\<lambda>_. None) ChaosProps.demo_method (fst (intercept 0 0 [ANil] (w_inj disabled_world) (w_views disabled_world ! 0)))"
  have "\<not> Enabled (w_inj disabled_world)" "0 < length (w_views disabled_world)"
    "0 < length (methods (w_views disabled_world ! 0))"
    "methods (w_views disabled_world ! 0) ! 0 = ChaosProps.demo_method"
    by (simp_all add: disabled_world_def Disable_def demo_world_def rebuild_def Enabled_def WrapOf_def)
  then have "targetFun echo_method = Some echo_code \<and> stackBytes (pm_layout echo_method) = 0 \<longrightarrow>
      Dispatch demo_rt echo_method [?ix] demo_state (\<lambda>_ _. 1) =
        redial echo_code (wr (AInts, 0) (le_bytes 8 (targetData echo_method)) (\<lambda>_ _. 1))"
    using unfaulted_call_keeps_registers [OF reach_disabled, of 0 0 0 "[ANil]" demo_rt echo_method "\<lambda>_. None" demo_state
        "\<lambda>_ _. 1" echo_code, unfolded Let_def] by metis
  then show ?thesis
    by (simp add: echo_method_def InvocationProps.demo_method_def demo_stackBytes)
qed

end
