(* ===== verification/Mockito.thy ===== *)
theory Mockito
  imports GoValues "HOL-Library.Sublist"
begin

text \<open>
  The mockito package: matchers (matcher.go), the interceptor of a mock with its stubs and call log
  (mock.go), recording per goroutine (gls.go), stubbing (stub.go), verification (verify.go) and call
  order (inorder.go).

  States and stubs are Go objects shared through pointers, so they live in stores indexed by
  address; everything that the source keeps per goroutine is a map from the goroutine's key.
\<close>

section \<open>Matchers\<close>

text \<open>
  A matcher made by \<open>Match\<close> applies its predicate to \<open>x.(T)\<close>, which panics when the argument is
  not a \<open>T\<close>: its function returns a \<open>res\<close>. A string matcher fails on any other type.
\<close>

datatype matcher =
    AnyM
  | EqM any
  | NotNilM
  | PredM string "any \<Rightarrow> bool res"
  | StringM string "string \<Rightarrow> bool"

fun Matches :: "matcher \<Rightarrow> any \<Rightarrow> bool res" where
  "Matches AnyM x = Inr True"
| "Matches (EqM v) x = Inr (deep_equal v x)"
| "Matches NotNilM x = Inr (\<not> is_nil_value x)"
| "Matches (PredM n f) x = f x"
| "Matches (StringM n f) x = Inr (case x of AStr s \<Rightarrow> f s | _ \<Rightarrow> False)"

definition Contains :: "string \<Rightarrow> matcher" where
  "Contains sub = StringM (''contains('' @ sub @ '')'') (\<lambda>s. list_ex (prefix sub) (suffixes s))"

definition HasPrefix :: "string \<Rightarrow> matcher" where
  "HasPrefix p = StringM (''hasPrefix('' @ p @ '')'') (\<lambda>s. prefix p s)"

definition HasSuffix :: "string \<Rightarrow> matcher" where
  "HasSuffix p = StringM (''hasSuffix('' @ p @ '')'') (\<lambda>s. suffix p s)"

text \<open>\<open>Match\<close> with a predicate on the values that \<open>as_T\<close> says are of type \<open>T\<close>.\<close>

definition Match :: "(any \<Rightarrow> 'a option) \<Rightarrow> ('a \<Rightarrow> bool) \<Rightarrow> matcher" where
  "Match as_T pred = PredM ''match''
     (\<lambda>x. case as_T x of None \<Rightarrow> Inl ''interface conversion'' | Some v \<Rightarrow> Inr (pred v))"

text \<open>
  \<open>argsMatch\<close>: the matcher at a position decides it where there is one, deep equality elsewhere.
  The loop runs over positions; \<open>ms\<close> are the matchers from the current position on.
\<close>

fun argsMatch_loop :: "any list \<Rightarrow> matcher list \<Rightarrow> any list \<Rightarrow> bool res" where
  "argsMatch_loop [] ms got = Inr True"
| "argsMatch_loop (w # want) ms got =
     (case ms of
        m # ms' \<Rightarrow>
          res_bind (Matches m (hd got)) (\<lambda>ok. if ok then argsMatch_loop want ms' (tl got) else Inr False)
      | [] \<Rightarrow> if deep_equal w (hd got) then argsMatch_loop want [] (tl got) else Inr False)"

definition argsMatch :: "any list \<Rightarrow> matcher list \<Rightarrow> any list \<Rightarrow> bool res" where
  "argsMatch want ms got =
     (if length want \<noteq> length got then Inr False else argsMatch_loop want ms got)"

section \<open>States\<close>

type_synonym addr = nat
type_synonym goid = nat

record stub =
  st_args :: "any list"
  st_matchers :: "matcher list"
  retSets :: "any list list"
  answer :: "(any list \<Rightarrow> any list) option"
  st_panics :: bool
  st_panicV :: any
  consumed :: nat

record Call =
  cl_method :: string
  cl_code :: nat
  cl_args :: "any list"

record mstate =
  spy :: bool
  stubs :: "nat \<Rightarrow> addr list"
  calls :: "Call list"
  verified :: "bool list"

record pendingCall =
  p_state :: addr
  p_code :: nat
  p_method :: string
  p_args :: "any list"
  p_numOut :: nat
  p_matchers :: "matcher list"

text \<open>
  The heap: mock states and stubs with their allocation counters, \<open>lasts\<close> and \<open>matchers\<close> per
  goroutine, and the registry from a proxy's data word to its state.
\<close>

record mworld =
  w_states :: "addr \<Rightarrow> mstate"
  w_next_state :: addr
  w_stubs :: "addr \<Rightarrow> stub"
  w_next_stub :: addr
  lasts :: "goid \<Rightarrow> pendingCall option"
  matchers :: "goid \<Rightarrow> matcher list"
  registry :: "nat \<Rightarrow> addr option"

definition upd_state :: "addr \<Rightarrow> (mstate \<Rightarrow> mstate) \<Rightarrow> mworld \<Rightarrow> mworld" where
  "upd_state a f w = w\<lparr>w_states := (w_states w)(a := f (w_states w a))\<rparr>"

definition upd_stub :: "addr \<Rightarrow> (stub \<Rightarrow> stub) \<Rightarrow> mworld \<Rightarrow> mworld" where
  "upd_stub a f w = w\<lparr>w_stubs := (w_stubs w)(a := f (w_stubs w a))\<rparr>"

definition empty_world :: mworld where
  "empty_world =
     \<lparr>w_states = (\<lambda>_. \<lparr>spy = False, stubs = (\<lambda>_. []), calls = [], verified = []\<rparr>), w_next_state = 0,
      w_stubs = (\<lambda>_. \<lparr>st_args = [], st_matchers = [], retSets = [], answer = None, st_panics = False,
                     st_panicV = ANil, consumed = 0\<rparr>), w_next_stub = 0,
      lasts = (\<lambda>_. None), matchers = (\<lambda>_. []), registry = (\<lambda>_. None)\<rparr>"

text \<open>\<open>Mock\<close> and \<open>Spy\<close>; \<open>d\<close> is the data word of the proxy that \<open>weave.New\<close> returns.\<close>

definition new_state :: "bool \<Rightarrow> nat \<Rightarrow> mworld \<Rightarrow> addr \<times> mworld" where
  "new_state is_spy d w =
     (let a = w_next_state w in
      (a, w\<lparr>w_states := (w_states w)(a := \<lparr>spy = is_spy, stubs = (\<lambda>_. []), calls = [], verified = []\<rparr>),
            w_next_state := a + 1, registry := (registry w)(d \<mapsto> a)\<rparr>))"

definition Mock :: "nat \<Rightarrow> mworld \<Rightarrow> addr \<times> mworld" where
  "Mock d w = new_state False d w"

definition Spy :: "nat \<Rightarrow> mworld \<Rightarrow> addr \<times> mworld" where
  "Spy d w = new_state True d w"

definition stateOf :: "nat \<Rightarrow> mworld \<Rightarrow> addr res" where
  "stateOf d w =
     (case registry w d of None \<Rightarrow> Inl ''mockito: value is not a mock or spy'' | Some a \<Rightarrow> Inr a)"

section \<open>Per-goroutine recording\<close>

definition pushMatcher :: "goid \<Rightarrow> matcher \<Rightarrow> mworld \<Rightarrow> mworld" where
  "pushMatcher g m w = w\<lparr>matchers := (matchers w)(g := matchers w g @ [m])\<rparr>"

definition takeMatchers :: "goid \<Rightarrow> mworld \<Rightarrow> matcher list \<times> mworld" where
  "takeMatchers g w = (matchers w g, w\<lparr>matchers := (matchers w)(g := [])\<rparr>)"

text \<open>
  The matcher functions stand where the call's arguments stand: each records its matcher for the
  running goroutine and returns a placeholder, the zero value of \<open>T\<close> or the value of \<open>Eq\<close>. Go
  evaluates the arguments of a call from left to right.
\<close>

definition Any :: "goid \<Rightarrow> any \<Rightarrow> mworld \<Rightarrow> any \<times> mworld" where
  "Any g zero w = (zero, pushMatcher g AnyM w)"

definition Eq :: "goid \<Rightarrow> any \<Rightarrow> mworld \<Rightarrow> any \<times> mworld" where
  "Eq g v w = (v, pushMatcher g (EqM v) w)"

definition NotNil :: "goid \<Rightarrow> any \<Rightarrow> mworld \<Rightarrow> any \<times> mworld" where
  "NotNil g zero w = (zero, pushMatcher g NotNilM w)"

definition push_zero :: "goid \<Rightarrow> matcher \<Rightarrow> any \<Rightarrow> mworld \<Rightarrow> any \<times> mworld" where
  "push_zero g m zero w = (zero, pushMatcher g m w)"

datatype argx =
    Plain any
  | UseAny any
  | UseEq any
  | UseNotNil any
  | UseMatch any "any \<Rightarrow> any option" "any \<Rightarrow> bool"
  | UseContains string
  | UseHasPrefix string
  | UseHasSuffix string

fun eval_arg :: "goid \<Rightarrow> argx \<Rightarrow> mworld \<Rightarrow> any \<times> mworld" where
  "eval_arg g (Plain v) w = (v, w)"
| "eval_arg g (UseAny zero) w = Any g zero w"
| "eval_arg g (UseEq v) w = Eq g v w"
| "eval_arg g (UseNotNil zero) w = NotNil g zero w"
| "eval_arg g (UseMatch zero as_T pred) w = push_zero g (Match as_T pred) zero w"
| "eval_arg g (UseContains sub) w = push_zero g (Contains sub) (AStr []) w"
| "eval_arg g (UseHasPrefix p) w = push_zero g (HasPrefix p) (AStr []) w"
| "eval_arg g (UseHasSuffix p) w = push_zero g (HasSuffix p) (AStr []) w"

fun eval_args :: "goid \<Rightarrow> argx list \<Rightarrow> mworld \<Rightarrow> any list \<times> mworld" where
  "eval_args g [] w = ([], w)"
| "eval_args g (x # xs) w =
     (let (v, w1) = eval_arg g x w; (vs, w2) = eval_args g xs w1 in (v # vs, w2))"

definition recordLast :: "goid \<Rightarrow> pendingCall \<Rightarrow> mworld \<Rightarrow> mworld" where
  "recordLast g p w = w\<lparr>lasts := (lasts w)(g \<mapsto> p)\<rparr>"

definition popLast :: "goid \<Rightarrow> mworld \<Rightarrow> pendingCall option \<times> mworld" where
  "popLast g w = (lasts w g, w\<lparr>lasts := (lasts w)(g := None)\<rparr>)"

section \<open>The interceptor\<close>

definition record_call :: "Call \<Rightarrow> mstate \<Rightarrow> mstate" where
  "record_call c s = s\<lparr>calls := calls s @ [c], verified := verified s @ [False]\<rparr>"

definition rollback :: "mstate \<Rightarrow> mstate" where
  "rollback s =
     (if calls s = [] then s
      else s\<lparr>calls := butlast (calls s), verified := take (length (calls s) - 1) (verified s)\<rparr>)"

text \<open>\<open>findStub\<close> walks the method's stubs from the last to the first.\<close>

fun find_from :: "(addr \<Rightarrow> stub) \<Rightarrow> addr list \<Rightarrow> any list \<Rightarrow> addr option res" where
  "find_from h [] args = Inr None"
| "find_from h (a # as) args =
     res_bind (argsMatch (st_args (h a)) (st_matchers (h a)) args)
       (\<lambda>ok. if ok then Inr (Some a) else find_from h as args)"

definition findStub :: "(addr \<Rightarrow> stub) \<Rightarrow> mstate \<Rightarrow> nat \<Rightarrow> any list \<Rightarrow> addr option res" where
  "findStub h s code args = find_from h (rev (stubs s code)) args"

text \<open>
  \<open>values\<close>: an answer computes the results from the arguments; otherwise the group at \<open>consumed\<close>,
  or the last one, is handed out. A nil result becomes the zero value of its result type, which
  \<open>reflect\<close> refuses for a position the method does not have.
\<close>

fun convert_rets :: "rtype list \<Rightarrow> nat \<Rightarrow> any list \<Rightarrow> any list res" where
  "convert_rets outs i [] = Inr []"
| "convert_rets outs i (r # rs) =
     (if r = ANil
      then (if i < length outs
            then res_bind (convert_rets outs (i + 1) rs) (\<lambda>vs. Inr (zero_of (outs ! i) # vs))
            else Inl ''reflect: Func index out of bounds'')
      else res_bind (convert_rets outs (i + 1) rs) (\<lambda>vs. Inr (r # vs)))"

definition stub_rets :: "stub \<Rightarrow> any list \<Rightarrow> any list \<times> stub" where
  "stub_rets st args =
     (case answer st of
        Some f \<Rightarrow> (f args, st)
      | None \<Rightarrow>
          if retSets st \<noteq> []
          then (retSets st ! (if consumed st \<ge> length (retSets st) then length (retSets st) - 1
                              else consumed st),
                st\<lparr>consumed := consumed st + 1\<rparr>)
          else ([], st))"

datatype moutcome = MReturn "any list" | MPanic any | MRuntimePanic string | MProceed

record invocation =
  iv_code :: nat
  iv_method :: methodT
  iv_args :: "any list"

definition run_stub :: "addr \<Rightarrow> invocation \<Rightarrow> mworld \<Rightarrow> moutcome \<times> mworld" where
  "run_stub a c w =
     (let st = w_stubs w a in
      if st_panics st then (MPanic (st_panicV st), w)
      else (let (rets, st') = stub_rets st (iv_args c); w' = upd_stub a (\<lambda>_. st') w in
        case convert_rets (m_out (iv_method c)) 0 rets of
          Inl e \<Rightarrow> (MRuntimePanic e, w')
        | Inr vs \<Rightarrow> (MReturn vs, w')))"

definition record_invocation :: "goid \<Rightarrow> addr \<Rightarrow> invocation \<Rightarrow> mworld \<Rightarrow> mworld" where
  "record_invocation g s c w =
     (let (ms, w1) = takeMatchers g w;
          w2 = upd_state s (record_call \<lparr>cl_method = m_name (iv_method c), cl_code = iv_code c,
                                         cl_args = iv_args c\<rparr>) w1
      in recordLast g \<lparr>p_state = s, p_code = iv_code c, p_method = m_name (iv_method c),
                       p_args = iv_args c, p_numOut = length (m_out (iv_method c)),
                       p_matchers = ms\<rparr> w2)"

definition intercept :: "goid \<Rightarrow> addr \<Rightarrow> invocation \<Rightarrow> mworld \<Rightarrow> moutcome \<times> mworld" where
  "intercept g s c w =
     (let w1 = record_invocation g s c w in
      case findStub (w_stubs w1) (w_states w1 s) (iv_code c) (iv_args c) of
        Inl e \<Rightarrow> (MRuntimePanic e, w1)
      | Inr (Some a) \<Rightarrow> run_stub a c w1
      | Inr None \<Rightarrow>
          if spy (w_states w1 s) then (MProceed, w1)
          else (MReturn (map zero_of (m_out (iv_method c))), w1))"

section \<open>Stubbing\<close>

record Stubber =
  sb_s :: addr
  sb_code :: nat
  sb_args :: "any list"
  sb_matchers :: "matcher list"
  sb_numOut :: nat
  sb_stub :: "addr option"

definition whenRecorded :: "goid \<Rightarrow> mworld \<Rightarrow> Stubber res \<times> mworld" where
  "whenRecorded g w =
     (case popLast g w of
        (None, w1) \<Rightarrow> (Inl ''mockito: When must wrap a mock method call'', w1)
      | (Some p, w1) \<Rightarrow>
          (Inr \<lparr>sb_s = p_state p, sb_code = p_code p, sb_args = p_args p, sb_matchers = p_matchers p,
                sb_numOut = p_numOut p, sb_stub = None\<rparr>,
           upd_state (p_state p) rollback w1))"

definition addStub :: "nat \<Rightarrow> addr \<Rightarrow> mstate \<Rightarrow> mstate" where
  "addStub code a s = s\<lparr>stubs := (stubs s)(code := stubs s code @ [a])\<rparr>"

definition stubOrCreate :: "Stubber \<Rightarrow> mworld \<Rightarrow> (addr \<times> Stubber) \<times> mworld" where
  "stubOrCreate sb w =
     (case sb_stub sb of
        Some a \<Rightarrow> ((a, sb), w)
      | None \<Rightarrow>
          (let a = w_next_stub w;
               st = \<lparr>st_args = sb_args sb, st_matchers = sb_matchers sb, retSets = [], answer = None,
                     st_panics = False, st_panicV = ANil, consumed = 0\<rparr>;
               w1 = w\<lparr>w_stubs := (w_stubs w)(a := st), w_next_stub := a + 1\<rparr>
           in ((a, sb\<lparr>sb_stub := Some a\<rparr>), upd_state (sb_s sb) (addStub (sb_code sb) a) w1)))"

definition ThenReturn :: "any list \<Rightarrow> Stubber \<Rightarrow> mworld \<Rightarrow> Stubber \<times> mworld" where
  "ThenReturn results sb w =
     (let ((a, sb'), w1) = stubOrCreate sb w;
          groups = (if sb_numOut sb = 1 then map (\<lambda>r. [r]) results else [results])
      in (sb', upd_stub a (\<lambda>st. st\<lparr>retSets := retSets st @ groups\<rparr>) w1))"

definition ThenAnswer :: "(any list \<Rightarrow> any list) \<Rightarrow> Stubber \<Rightarrow> mworld \<Rightarrow> Stubber \<times> mworld" where
  "ThenAnswer f sb w =
     (let ((a, sb'), w1) = stubOrCreate sb w in (sb', upd_stub a (\<lambda>st. st\<lparr>answer := Some f\<rparr>) w1))"

definition ThenPanic :: "any \<Rightarrow> Stubber \<Rightarrow> mworld \<Rightarrow> Stubber \<times> mworld" where
  "ThenPanic v sb w =
     (let ((a, sb'), w1) = stubOrCreate sb w
      in (sb', upd_stub a (\<lambda>st. st\<lparr>st_panics := True, st_panicV := v\<rparr>) w1))"

end
