(* ===== verification/MockitoVerify.thy ===== *)
theory MockitoVerify
  imports Mockito
begin

text \<open>
  mockito's verification (verify.go) and call order (inorder.go). A verification passes, reports
  through a bound \<open>testing.TB\<close>, or panics; a panic of a matcher's predicate is a panic of the
  verification.
\<close>

section \<open>Verifiers\<close>

record Verifier =
  v_s :: addr
  v_code :: nat
  v_method :: string
  v_args :: "any list"
  v_matchers :: "matcher list"
  v_timeout :: int
  v_t :: bool

datatype failure =
    WrongTimes int int | TooFew int int | TooMany int int | NotBetween int int int
  | TimedOut failure | Interactions nat | Unexpected "Call list" | InOrderTimes int int

datatype report = Passed | Errorf failure | Panicked failure | MatcherPanic string

definition fail :: "bool \<Rightarrow> failure \<Rightarrow> report" where
  "fail t f = (if t then Errorf f else Panicked f)"

definition verifyRecorded :: "goid \<Rightarrow> mworld \<Rightarrow> Verifier res \<times> mworld" where
  "verifyRecorded g w =
     (case popLast g w of
        (None, w1) \<Rightarrow> (Inl ''mockito: Verify must wrap a mock method call'', w1)
      | (Some p, w1) \<Rightarrow>
          (Inr \<lparr>v_s = p_state p, v_code = p_code p, v_method = p_method p, v_args = p_args p,
                v_matchers = p_matchers p, v_timeout = 0, v_t = False\<rparr>,
           upd_state (p_state p) rollback w1))"

definition bind_T :: "Verifier \<Rightarrow> Verifier" where
  "bind_T v = v\<lparr>v_t := True\<rparr>"

definition set_Timeout :: "int \<Rightarrow> Verifier \<Rightarrow> Verifier" where
  "set_Timeout d v = v\<lparr>v_timeout := d\<rparr>"

text \<open>\<open>describe\<close> renders the expected call; \<open>sprint\<close> is \<open>fmt.Sprintf("%v", _)\<close> on a value.\<close>

fun matcher_String :: "(any \<Rightarrow> string) \<Rightarrow> matcher \<Rightarrow> string" where
  "matcher_String sprint AnyM = ''any''"
| "matcher_String sprint (EqM v) = ''eq('' @ sprint v @ '')''"
| "matcher_String sprint NotNilM = ''not nil''"
| "matcher_String sprint (PredM n f) = n"
| "matcher_String sprint (StringM n f) = n"

fun describe_args :: "(any \<Rightarrow> string) \<Rightarrow> any list \<Rightarrow> matcher list \<Rightarrow> string list" where
  "describe_args sprint [] ms = []"
| "describe_args sprint (a # as) [] = sprint a # describe_args sprint as []"
| "describe_args sprint (a # as) (m # ms) = matcher_String sprint m # describe_args sprint as ms"

fun join :: "string \<Rightarrow> string list \<Rightarrow> string" where
  "join sep [] = []"
| "join sep [x] = x"
| "join sep (x # y # xs) = x @ sep @ join sep (y # xs)"

definition describe :: "(any \<Rightarrow> string) \<Rightarrow> Verifier \<Rightarrow> string" where
  "describe sprint v =
     v_method v @ ''('' @ join '', '' (describe_args sprint (v_args v) (v_matchers v)) @ '')''"

section \<open>Counting\<close>

definition wanted :: "Verifier \<Rightarrow> Call \<Rightarrow> bool res" where
  "wanted v c =
     (if cl_code c = v_code v then argsMatch (v_args v) (v_matchers v) (cl_args c) else Inr False)"

text \<open>
  \<open>countLocked\<close>: the number of matching calls, and the \<open>verified\<close> marks after the loop, also where
  a predicate panics on the way.
\<close>

fun count_loop :: "Verifier \<Rightarrow> bool \<Rightarrow> Call list \<Rightarrow> bool list \<Rightarrow> int res \<times> bool list" where
  "count_loop v mark [] vs = (Inr 0, vs)"
| "count_loop v mark (c # cs) vs =
     (case wanted v c of
        Inl e \<Rightarrow> (Inl e, vs)
      | Inr False \<Rightarrow>
          (let (r, vs') = count_loop v mark cs (tl vs) in (r, take 1 vs @ vs'))
      | Inr True \<Rightarrow>
          if mark \<and> vs = [] then (Inl ''index out of range'', vs)
          else (let (r, vs') = count_loop v mark cs (tl vs)
                in (res_bind r (\<lambda>n. Inr (n + 1)), (if mark then [True] else take 1 vs) @ vs')))"

definition countLocked :: "Verifier \<Rightarrow> bool \<Rightarrow> mworld \<Rightarrow> int res \<times> mworld" where
  "countLocked v mark w =
     (let (r, vs) = count_loop v mark (calls (w_states w (v_s v))) (verified (w_states w (v_s v)))
      in (r, upd_state (v_s v) (\<lambda>s. s\<lparr>verified := vs\<rparr>) w))"

definition Count :: "Verifier \<Rightarrow> mworld \<Rightarrow> int res" where
  "Count v w = fst (countLocked v False w)"

section \<open>Assertions\<close>

text \<open>
  Other goroutines run between the steps of an assertion: \<open>env\<close> lists the worlds that its next locked
  sections find, each with whether the deadline has passed at the end of it. \<open>wait\<close> counts in one world
  after the other. It answers \<open>None\<close> while it is still waiting at the end of the list; otherwise the
  count that failed at the deadline or none if the check passed, with the world of that poll and the
  worlds after it.
\<close>

type_synonym env = "(mworld \<times> bool) list"

fun wait_polls :: "Verifier \<Rightarrow> (int \<Rightarrow> bool) \<Rightarrow> env \<Rightarrow> (int option res \<times> mworld \<times> env) option" where
  "wait_polls v check [] = None"
| "wait_polls v check ((w, expired) # env) =
     (case Count v w of
        Inl e \<Rightarrow> Some (Inl e, w, env)
      | Inr got \<Rightarrow>
          if check got then Some (Inr None, w, env)
          else if expired then Some (Inr (Some got), w, env)
          else wait_polls v check env)"

text \<open>
  The counting that marks. \<open>assert\<close> locks and unlocks the mutex of the mock around it without a \<open>defer\<close>:
  where a predicate panics the mutex stays locked, and no later operation on the mock returns. The
  result then has no world to go on from.
\<close>

definition assert_count ::
  "Verifier \<Rightarrow> (int \<Rightarrow> bool) \<Rightarrow> (int \<Rightarrow> failure) \<Rightarrow> mworld \<Rightarrow> report \<times> mworld option" where
  "assert_count v check msg w =
     (case countLocked v True w of
        (Inl e, w1) \<Rightarrow> (MatcherPanic e, None)
      | (Inr got, w1) \<Rightarrow> (if check got then Passed else fail (v_t v) (msg got), Some w1))"

definition final_count ::
  "Verifier \<Rightarrow> (int \<Rightarrow> bool) \<Rightarrow> (int \<Rightarrow> failure) \<Rightarrow> env \<Rightarrow> (report \<times> mworld option) option" where
  "final_count v check msg env =
     (case env of [] \<Rightarrow> None | (w, expired) # env' \<Rightarrow> Some (assert_count v check msg w))"

text \<open>\<open>assert\<close>: the final count is made in the world that follows the last poll.\<close>

definition assert_that ::
  "Verifier \<Rightarrow> (int \<Rightarrow> bool) \<Rightarrow> (int \<Rightarrow> failure) \<Rightarrow> env \<Rightarrow> (report \<times> mworld option) option"
where
  "assert_that v check msg env =
     (if v_timeout v > 0
      then (case wait_polls v check env of
              None \<Rightarrow> None
            | Some (Inl e, w, env') \<Rightarrow> Some (MatcherPanic e, Some w)
            | Some (Inr (Some got), w, env') \<Rightarrow> Some (fail (v_t v) (TimedOut (msg got)), Some w)
            | Some (Inr None, w, env') \<Rightarrow> final_count v check msg env')
      else final_count v check msg env)"

definition Times :: "int \<Rightarrow> Verifier \<Rightarrow> env \<Rightarrow> (report \<times> mworld option) option" where
  "Times n v = assert_that v (\<lambda>got. got = n) (\<lambda>got. WrongTimes got n)"

definition AtLeast :: "int \<Rightarrow> Verifier \<Rightarrow> env \<Rightarrow> (report \<times> mworld option) option" where
  "AtLeast n v = assert_that v (\<lambda>got. got \<ge> n) (\<lambda>got. TooFew got n)"

definition AtMost :: "int \<Rightarrow> Verifier \<Rightarrow> env \<Rightarrow> (report \<times> mworld option) option" where
  "AtMost n v = assert_that v (\<lambda>got. got \<le> n) (\<lambda>got. TooMany got n)"

definition Between :: "int \<Rightarrow> int \<Rightarrow> Verifier \<Rightarrow> env \<Rightarrow> (report \<times> mworld option) option" where
  "Between a b v = assert_that v (\<lambda>got. got \<ge> a \<and> got \<le> b) (\<lambda>got. NotBetween got a b)"

definition Never :: "Verifier \<Rightarrow> env \<Rightarrow> (report \<times> mworld option) option" where
  "Never = Times 0"

definition Once :: "Verifier \<Rightarrow> env \<Rightarrow> (report \<times> mworld option) option" where
  "Once = Times 1"

definition verifyNoInteractions :: "nat \<Rightarrow> bool \<Rightarrow> mworld \<Rightarrow> report res" where
  "verifyNoInteractions d t w =
     res_bind (stateOf d w) (\<lambda>a.
       Inr (if length (calls (w_states w a)) > 0
            then fail t (Interactions (length (calls (w_states w a)))) else Passed))"

fun unexpected_calls :: "Call list \<Rightarrow> bool list \<Rightarrow> Call list res" where
  "unexpected_calls [] vs = Inr []"
| "unexpected_calls (c # cs) [] = Inl ''index out of range''"
| "unexpected_calls (c # cs) (v # vs) =
     res_bind (unexpected_calls cs vs) (\<lambda>us. Inr (if v then us else c # us))"

definition verifyNoMoreInteractions :: "nat \<Rightarrow> bool \<Rightarrow> mworld \<Rightarrow> report res" where
  "verifyNoMoreInteractions d t w =
     res_bind (stateOf d w) (\<lambda>a.
       res_bind (unexpected_calls (calls (w_states w a)) (verified (w_states w a))) (\<lambda>us.
         Inr (if us \<noteq> [] then fail t (Unexpected us) else Passed)))"

section \<open>Call order\<close>

record InOrder =
  io_s :: "addr option"
  io_pos :: nat

record InOrderVerifier =
  iv_code' :: nat
  iv_args' :: "any list"
  iv_matchers' :: "matcher list"

definition NewInOrder :: InOrder where
  "NewInOrder = \<lparr>io_s = None, io_pos = 0\<rparr>"

definition inorder_verify ::
  "goid \<Rightarrow> InOrder \<Rightarrow> mworld \<Rightarrow> InOrderVerifier res \<times> InOrder \<times> mworld" where
  "inorder_verify g io w =
     (case popLast g w of
        (None, w1) \<Rightarrow> (Inl ''mockito: InOrder.Verify must wrap a mock method call'', io, w1)
      | (Some p, w1) \<Rightarrow>
          (Inr \<lparr>iv_code' = p_code p, iv_args' = p_args p, iv_matchers' = p_matchers p\<rparr>,
           (if io_s io = None then io\<lparr>io_s := Some (p_state p)\<rparr> else io),
           upd_state (p_state p) rollback w1))"

definition order_wanted :: "InOrderVerifier \<Rightarrow> Call \<Rightarrow> bool res" where
  "order_wanted iv c =
     (if cl_code c = iv_code' iv then argsMatch (iv_args' iv) (iv_matchers' iv) (cl_args c)
      else Inr False)"

fun order_loop ::
  "int \<Rightarrow> InOrderVerifier \<Rightarrow> int \<Rightarrow> nat option \<Rightarrow> nat \<Rightarrow> Call list \<Rightarrow> (int \<times> nat option) res" where
  "order_loop n iv count latest i [] = Inr (count, latest)"
| "order_loop n iv count latest i (c # cs) =
     res_bind (order_wanted iv c) (\<lambda>ok.
       if ok
       then (if count + 1 = n then Inr (count + 1, Some i)
             else order_loop n iv (count + 1) (Some i) (i + 1) cs)
       else order_loop n iv count latest (i + 1) cs)"

definition order_times :: "int \<Rightarrow> InOrderVerifier \<Rightarrow> Call list \<Rightarrow> InOrder \<Rightarrow> report \<times> InOrder" where
  "order_times n iv hist io =
     (case order_loop n iv 0 None (io_pos io) (drop (io_pos io) hist) of
        Inl e \<Rightarrow> (MatcherPanic e, io)
      | Inr (count, latest) \<Rightarrow>
          if count \<noteq> n then (Panicked (InOrderTimes count n), io)
          else (Passed, case latest of Some l \<Rightarrow> io\<lparr>io_pos := l + 1\<rparr> | None \<Rightarrow> io))"

text \<open>\<open>Times\<close> of a verifier that \<open>inorder_verify\<close> returned, so \<open>io_s\<close> is set.\<close>

definition InOrder_Times :: "int \<Rightarrow> InOrderVerifier \<Rightarrow> InOrder \<Rightarrow> mworld \<Rightarrow> report \<times> InOrder" where
  "InOrder_Times n iv io w =
     (case io_s io of
        None \<Rightarrow> (MatcherPanic ''nil pointer dereference'', io)
      | Some a \<Rightarrow> order_times n iv (calls (w_states w a)) io)"

definition InOrder_Once :: "InOrderVerifier \<Rightarrow> InOrder \<Rightarrow> mworld \<Rightarrow> report \<times> InOrder" where
  "InOrder_Once = InOrder_Times 1"

end
