(* ===== verification/MockitoLog.thy ===== *)
theory MockitoLog
  imports MockitoVerify
begin

text \<open>
  Lemmas on mockito: argument matching by position, the search for a stub, the call log as an
  instance of the interface \<open>call_log\<close>, counting, and the greedy search of InOrder.
\<close>

section \<open>Matching\<close>

lemma argsMatch_loop_iff:
  "length want = length got \<Longrightarrow>
   argsMatch_loop want ms got = Inr True \<longleftrightarrow>
     (\<forall>i<length want. if i < length ms then Matches (ms ! i) (got ! i) = Inr True
                      else deep_equal (want ! i) (got ! i))"
proof (induction want ms got rule: argsMatch_loop.induct)
  case (1 ms got)
  then show ?case by simp
next
  case (2 w want ms got)
  from 2(3) obtain x xs where got: "got = x # xs" by (cases got) auto
  have all: "(\<forall>i<length (w # want). P i) \<longleftrightarrow> P 0 \<and> (\<forall>i<length want. P (Suc i))" for P
    by (auto simp: less_Suc_eq_0_disj)
  show ?case
  proof (cases ms)
    case Nil
    with got 2(3) 2(1) show ?thesis unfolding all by auto
  next
    case (Cons m ms')
    show ?thesis
    proof (cases "Matches m x = Inr True")
      case True
      with Cons got 2(3) 2(2) [of m ms' True] show ?thesis unfolding all by auto
    next
      case False
      with Cons got show ?thesis unfolding all by (auto simp: res_bind_eq_Inr_iff split: if_splits)
    qed
  qed
qed

lemma argsMatch_iff:
  "argsMatch want ms got = Inr True \<longleftrightarrow>
     length want = length got \<and>
     (\<forall>i<length want. if i < length ms then Matches (ms ! i) (got ! i) = Inr True
                      else deep_equal (want ! i) (got ! i))"
  by (simp add: argsMatch_def argsMatch_loop_iff)

lemma find_from_Some:
  "find_from h as args = Inr (Some a) \<longleftrightarrow>
     (\<exists>pre post. as = pre @ a # post \<and> argsMatch (st_args (h a)) (st_matchers (h a)) args = Inr True \<and>
        (\<forall>b\<in>set pre. argsMatch (st_args (h b)) (st_matchers (h b)) args = Inr False))"
  (is "_ \<longleftrightarrow> ?found as")
proof (induction as)
  case Nil
  show ?case by simp
next
  case (Cons b as)
  let ?r = "argsMatch (st_args (h b)) (st_matchers (h b)) args"
  have split: "?found (b # as) \<longleftrightarrow> (a = b \<and> ?r = Inr True) \<or> (?r = Inr False \<and> ?found as)"
  proof
    assume "?found (b # as)"
    then show "(a = b \<and> ?r = Inr True) \<or> (?r = Inr False \<and> ?found as)"
      by (auto simp: Cons_eq_append_conv)
  next
    assume "(a = b \<and> ?r = Inr True) \<or> (?r = Inr False \<and> ?found as)"
    then show "?found (b # as)"
    proof (elim disjE conjE exE)
      assume "a = b" "?r = Inr True"
      then show ?thesis by (intro exI [of _ "[]"] exI [of _ as]) simp
    next
      fix pre post
      assume "?r = Inr False" "as = pre @ a # post"
        "argsMatch (st_args (h a)) (st_matchers (h a)) args = Inr True"
        "\<forall>b\<in>set pre. argsMatch (st_args (h b)) (st_matchers (h b)) args = Inr False"
      then show ?thesis by (intro exI [of _ "b # pre"] exI [of _ post]) simp
    qed
  qed
  show ?case
    unfolding split Cons.IH [symmetric] by (auto simp: res_bind_eq_Inr_iff)
qed

lemma find_from_None:
  "find_from h as args = Inr None \<longleftrightarrow>
     (\<forall>b\<in>set as. argsMatch (st_args (h b)) (st_matchers (h b)) args = Inr False)"
  by (induction as) (auto simp: res_bind_eq_Inr_iff)

lemma findStub_Some:
  "findStub h s code args = Inr (Some a) \<longleftrightarrow>
     (\<exists>pre post. stubs s code = pre @ a # post \<and>
        argsMatch (st_args (h a)) (st_matchers (h a)) args = Inr True \<and>
        (\<forall>b\<in>set post. argsMatch (st_args (h b)) (st_matchers (h b)) args = Inr False))"
proof -
  have eq: "rev xs = pre @ a # post \<longleftrightarrow> xs = rev post @ a # rev pre" for xs pre post
    by (simp add: rev_swap)
  have "(\<exists>pre post. rev xs = pre @ a # post \<and> P \<and> (\<forall>b\<in>set pre. Q b)) \<longleftrightarrow>
        (\<exists>pre post. xs = pre @ a # post \<and> P \<and> (\<forall>b\<in>set post. Q b))" (is "?L \<longleftrightarrow> ?R") for xs P Q
  proof
    assume ?L
    then obtain pre post where "xs = rev post @ a # rev pre" P "\<forall>b\<in>set (rev pre). Q b"
      unfolding eq by auto
    then show ?R by blast
  next
    assume ?R
    then obtain pre post where "xs = rev (rev pre) @ a # rev (rev post)" P "\<forall>b\<in>set (rev post). Q b"
      by auto
    then show ?L unfolding eq by blast
  qed
  then show ?thesis unfolding findStub_def find_from_Some .
qed

lemma findStub_None:
  "findStub h s code args = Inr None \<longleftrightarrow>
     (\<forall>b\<in>set (stubs s code). argsMatch (st_args (h b)) (st_matchers (h b)) args = Inr False)"
  by (simp add: findStub_def find_from_None)

section \<open>The call log\<close>

text \<open>
  The interface between recording and verification: a log that grows at its end and whose newest
  entry can be taken back.
\<close>

locale call_log =
  fixes entries :: "'s \<Rightarrow> 'e list" and add :: "'c \<Rightarrow> 's \<Rightarrow> 's" and undo :: "'s \<Rightarrow> 's"
    and entry :: "'c \<Rightarrow> 'e" and ok :: "'s \<Rightarrow> bool"
  assumes entries_add: "ok s \<Longrightarrow> entries (add c s) = entries s @ [entry c]"
    and entries_undo: "ok s \<Longrightarrow> entries (undo s) = butlast (entries s)"
    and ok_add: "ok s \<Longrightarrow> ok (add c s)"
    and ok_undo: "ok s \<Longrightarrow> ok (undo s)"
begin

lemma undo_add: "ok s \<Longrightarrow> entries (undo (add c s)) = entries s"
  by (simp add: entries_add entries_undo ok_add)

lemma undo_takes_newest:
  "ok s \<Longrightarrow> entries (undo (add d (add c s))) = entries s @ [entry c]"
  by (simp add: entries_add entries_undo ok_add butlast_append)

end

definition log_ok :: "mstate \<Rightarrow> bool" where
  "log_ok s \<longleftrightarrow> length (verified s) = length (calls s)"

definition log_entries :: "mstate \<Rightarrow> (Call \<times> bool) list" where
  "log_entries s = zip (calls s) (verified s)"

lemma log_entries_eq:
  "log_ok s \<Longrightarrow> calls s = map fst (log_entries s) \<and> verified s = map snd (log_entries s)"
  by (simp add: log_entries_def log_ok_def)

lemma log_ok_rollback: "log_ok s \<Longrightarrow> log_ok (rollback s)"
  by (auto simp: log_ok_def rollback_def)

lemma rollback_butlast:
  "log_ok s \<Longrightarrow> calls (rollback s) = butlast (calls s) \<and> verified (rollback s) = butlast (verified s)"
  by (auto simp: log_ok_def rollback_def butlast_conv_take)

interpretation mock_log: call_log log_entries record_call rollback "\<lambda>c. (c, False)" log_ok
proof
  fix s c
  assume s: "log_ok s"
  show "log_entries (record_call c s) = log_entries s @ [(c, False)]"
    using s by (simp add: log_entries_def record_call_def log_ok_def)
  show "log_entries (rollback s) = butlast (log_entries s)"
    using s rollback_butlast [OF s]
    by (simp add: log_entries_def log_ok_def butlast_conv_take take_zip)
  show "log_ok (record_call c s)"
    using s by (simp add: log_ok_def record_call_def)
  show "log_ok (rollback s)"
    using s by (rule log_ok_rollback)
qed

lemma rollback_record [simp]:
  assumes "log_ok s"
  shows "calls (rollback (record_call c s)) = calls s" "verified (rollback (record_call c s)) = verified s"
proof -
  have "log_ok (rollback (record_call c s))"
    using assms by (intro mock_log.ok_undo mock_log.ok_add)
  from log_entries_eq [OF this] log_entries_eq [OF assms] mock_log.undo_add [OF assms, of c]
  show "calls (rollback (record_call c s)) = calls s" "verified (rollback (record_call c s)) = verified s"
    by simp_all
qed

lemma rollback_fields [simp]:
  "stubs (rollback s) = stubs s" "spy (rollback s) = spy s"
  by (simp_all add: rollback_def)

lemma record_call_fields [simp]:
  "stubs (record_call c s) = stubs s" "spy (record_call c s) = spy s"
  "calls (record_call c s) = calls s @ [c]"
  by (simp_all add: record_call_def)

section \<open>What a recorded call leaves\<close>

lemma run_stub_fields [simp]:
  "w_states (snd (run_stub a c w)) = w_states w" "lasts (snd (run_stub a c w)) = lasts w"
  "w_next_stub (snd (run_stub a c w)) = w_next_stub w"
  "w_next_state (snd (run_stub a c w)) = w_next_state w"
  by (auto simp: run_stub_def upd_stub_def Let_def split: prod.splits sum.splits)

lemma intercept_fields:
  assumes "intercept g s c w = (out, w')"
  shows "w_states w' = (w_states w)(s := record_call \<lparr>cl_method = m_name (iv_method c),
            cl_code = iv_code c, cl_args = iv_args c\<rparr> (w_states w s))"
    and "lasts w' = (lasts w)(g \<mapsto> \<lparr>p_state = s, p_code = iv_code c, p_method = m_name (iv_method c),
            p_args = iv_args c, p_numOut = length (m_out (iv_method c)), p_matchers = matchers w g\<rparr>)"
    and "w_next_stub w' = w_next_stub w" "w_next_state w' = w_next_state w"
proof -
  let ?w = "record_invocation g s c w"
  have "w_states ?w = (w_states w)(s := record_call \<lparr>cl_method = m_name (iv_method c),
            cl_code = iv_code c, cl_args = iv_args c\<rparr> (w_states w s))"
    and "lasts ?w = (lasts w)(g \<mapsto> \<lparr>p_state = s, p_code = iv_code c, p_method = m_name (iv_method c),
            p_args = iv_args c, p_numOut = length (m_out (iv_method c)), p_matchers = matchers w g\<rparr>)"
    and "w_next_stub ?w = w_next_stub w" "w_next_state ?w = w_next_state w"
    by (simp_all add: record_invocation_def takeMatchers_def recordLast_def upd_state_def Let_def)
  moreover have "w_states w' = w_states ?w \<and> lasts w' = lasts ?w \<and> w_next_stub w' = w_next_stub ?w \<and>
      w_next_state w' = w_next_state ?w"
  proof -
    have "w' = snd (intercept g s c w)" using assms by simp
    then show ?thesis
      by (simp add: intercept_def Let_def split: sum.splits option.splits)
  qed
  ultimately show "w_states w' = (w_states w)(s := record_call \<lparr>cl_method = m_name (iv_method c),
            cl_code = iv_code c, cl_args = iv_args c\<rparr> (w_states w s))"
    and "lasts w' = (lasts w)(g \<mapsto> \<lparr>p_state = s, p_code = iv_code c, p_method = m_name (iv_method c),
            p_args = iv_args c, p_numOut = length (m_out (iv_method c)), p_matchers = matchers w g\<rparr>)"
    and "w_next_stub w' = w_next_stub w" "w_next_state w' = w_next_state w"
    by simp_all
qed

end
