(* ===== verification/MockitoRuns.thy ===== *)
theory MockitoRuns
  imports MockitoLog
begin

text \<open>
  Runs of a mock: the reachable worlds and their invariant, sequences of calls against a stub,
  counting with marks, and the greedy search of InOrder against list embedding.
\<close>

section \<open>Reachable worlds\<close>

definition stubber_ok :: "Stubber \<Rightarrow> mworld \<Rightarrow> bool" where
  "stubber_ok sb w \<longleftrightarrow> (\<forall>a. sb_stub sb = Some a \<longrightarrow> a < w_next_stub w)"

inductive mreach :: "mworld \<Rightarrow> bool" where
  start: "mreach empty_world"
| mock: "mreach w \<Longrightarrow> mreach (snd (new_state is_spy d w))"
| push: "mreach w \<Longrightarrow> mreach (pushMatcher g m w)"
| call: "mreach w \<Longrightarrow> intercept g s c w = (out, w') \<Longrightarrow> mreach w'"
| stubbing: "mreach w \<Longrightarrow> mreach (snd (whenRecorded g w))"
| thenReturn: "mreach w \<Longrightarrow> stubber_ok sb w \<Longrightarrow> mreach (snd (ThenReturn rs sb w))"
| thenAnswer: "mreach w \<Longrightarrow> stubber_ok sb w \<Longrightarrow> mreach (snd (ThenAnswer f sb w))"
| thenPanic: "mreach w \<Longrightarrow> stubber_ok sb w \<Longrightarrow> mreach (snd (ThenPanic v sb w))"
| verify: "mreach w \<Longrightarrow> mreach (snd (verifyRecorded g w))"
| count: "mreach w \<Longrightarrow> mark \<longrightarrow> (\<exists>n. fst (countLocked v mark w) = Inr n) \<Longrightarrow> mreach (snd (countLocked v mark w))"
| order: "mreach w \<Longrightarrow> mreach (snd (snd (inorder_verify g io w)))"

definition mock_inv :: "mworld \<Rightarrow> bool" where
  "mock_inv w \<longleftrightarrow>
     (\<forall>a. log_ok (w_states w a)) \<and>
     (\<forall>a code. set (stubs (w_states w a) code) \<subseteq> {..<w_next_stub w})"

lemma length_count_loop:
  "length vs = length cs \<Longrightarrow> length (snd (count_loop v mark cs vs)) = length cs"
proof (induction v mark cs vs rule: count_loop.induct)
  case (2 v mark c cs vs)
  then obtain b bs where "vs = b # bs" by (cases vs) auto
  with 2 show ?case
    by (auto simp: Let_def split: sum.splits bool.splits prod.splits)
qed auto

lemma mock_inv_upd:
  assumes "mock_inv w" "\<And>s. log_ok s \<Longrightarrow> log_ok (f s)" "\<And>s. stubs (f s) = stubs s"
  shows "mock_inv (upd_state a f w)"
  using assms by (auto simp: mock_inv_def upd_state_def)

lemma mock_inv_lasts [simp]: "mock_inv (w\<lparr>lasts := l\<rparr>) = mock_inv w"
  "mock_inv (w\<lparr>matchers := m\<rparr>) = mock_inv w"
  by (simp_all add: mock_inv_def)

lemma mock_inv_upd_stub [simp]: "mock_inv (upd_stub a f w) = mock_inv w"
  by (simp add: mock_inv_def upd_stub_def)

lemma mock_inv_rollback: "mock_inv w \<Longrightarrow> mock_inv (upd_state a rollback w)"
  by (rule mock_inv_upd) (simp_all add: log_ok_rollback)

lemma popLast_snd [simp]: "snd (popLast g w) = w\<lparr>lasts := (lasts w)(g := None)\<rparr>"
  by (simp add: popLast_def)

lemma mock_inv_create:
  assumes "mock_inv w"
  shows "mock_inv (snd (stubOrCreate sb w))"
proof (cases "sb_stub sb")
  case None
  then show ?thesis
    using assms
    by (fastforce simp: stubOrCreate_def mock_inv_def upd_state_def addStub_def log_ok_def Let_def
        split: if_splits)
qed (use assms in \<open>simp add: stubOrCreate_def\<close>)

lemma then_ops:
  "\<exists>f. snd (ThenReturn rs sb w) = upd_stub (fst (fst (stubOrCreate sb w))) f (snd (stubOrCreate sb w))"
  "\<exists>f. snd (ThenAnswer g sb w) = upd_stub (fst (fst (stubOrCreate sb w))) f (snd (stubOrCreate sb w))"
  "\<exists>f. snd (ThenPanic v sb w) = upd_stub (fst (fst (stubOrCreate sb w))) f (snd (stubOrCreate sb w))"
  by (auto simp: ThenReturn_def ThenAnswer_def ThenPanic_def Let_def split: prod.splits)

lemma mreach_inv: "mreach w \<Longrightarrow> mock_inv w"
proof (induction rule: mreach.induct)
  case start
  show ?case by (simp add: mock_inv_def empty_world_def log_ok_def)
next
  case (mock w is_spy d)
  then show ?case by (simp add: mock_inv_def new_state_def Let_def log_ok_def)
next
  case (push w g m)
  then show ?case by (simp add: pushMatcher_def)
next
  case (call w g s c out w')
  note f = intercept_fields [OF call.hyps(2)]
  from call.IH show ?case
    unfolding mock_inv_def f(1,3) by (auto simp: mock_log.ok_add)
next
  case (stubbing w g)
  then show ?case
    by (auto simp: whenRecorded_def popLast_def intro: mock_inv_rollback split: option.splits)
next
  case (verify w g)
  then show ?case
    by (auto simp: verifyRecorded_def popLast_def intro: mock_inv_rollback split: option.splits)
next
  case (order w g io)
  then show ?case
    by (auto simp: inorder_verify_def popLast_def intro: mock_inv_rollback split: option.splits)
next
  case (count w mark v)
  have "length (verified (w_states w (v_s v))) = length (calls (w_states w (v_s v)))"
    using count.IH by (simp add: mock_inv_def log_ok_def)
  from length_count_loop [OF this, of v mark] count.IH show ?case
    by (auto simp: countLocked_def mock_inv_def upd_state_def log_ok_def Let_def split: prod.splits)
next
  case (thenReturn w sb rs)
  with then_ops(1) [of rs sb w] mock_inv_create [of w sb] show ?case by auto
next
  case (thenAnswer w sb f)
  with then_ops(2) [of f sb w] mock_inv_create [of w sb] show ?case by auto
next
  case (thenPanic w sb v)
  with then_ops(3) [of v sb w] mock_inv_create [of w sb] show ?case by auto
qed

section \<open>Calls against one stub\<close>

fun run_calls :: "(goid \<times> addr \<times> invocation) list \<Rightarrow> mworld \<Rightarrow> moutcome list \<times> mworld" where
  "run_calls [] w = ([], w)"
| "run_calls ((g, s, c) # cs) w =
     (let (out, w1) = intercept g s c w; (outs, w2) = run_calls cs w1 in (out # outs, w2))"

definition hits :: "pendingCall \<Rightarrow> goid \<times> addr \<times> invocation \<Rightarrow> bool" where
  "hits p = (\<lambda>(g, s, c). s = p_state p \<and> iv_code c = p_code p \<and>
     argsMatch (p_args p) (p_matchers p) (iv_args c) = Inr True)"

text \<open>The stub at \<open>a\<close> is the newest of the method \<open>p\<close> recorded, and is registered nowhere else.\<close>

definition newest :: "pendingCall \<Rightarrow> addr \<Rightarrow> mworld \<Rightarrow> bool" where
  "newest p a w \<longleftrightarrow>
     (\<exists>pre. stubs (w_states w (p_state p)) (p_code p) = pre @ [a]) \<and>
     (\<forall>s code. a \<in> set (stubs (w_states w s) code) \<longrightarrow> s = p_state p \<and> code = p_code p)"

definition return_stub :: "pendingCall \<Rightarrow> any list list \<Rightarrow> nat \<Rightarrow> stub" where
  "return_stub p rs k =
     \<lparr>st_args = p_args p, st_matchers = p_matchers p, retSets = rs, answer = None, st_panics = False,
      st_panicV = ANil, consumed = k\<rparr>"

definition handed_out :: "any list list \<Rightarrow> nat \<Rightarrow> methodT \<Rightarrow> moutcome" where
  "handed_out rs k m =
     (case convert_rets (m_out m) 0 (rs ! min k (length rs - 1)) of
        Inl e \<Rightarrow> MRuntimePanic e | Inr vs \<Rightarrow> MReturn vs)"

lemma newest_intercept: "intercept g s c w = (out, w') \<Longrightarrow> newest p a w' = newest p a w"
  using intercept_fields(1) [of g s c w out w'] by (auto simp: newest_def)

lemma w_stubs_record [simp]: "w_stubs (record_invocation g s c w) = w_stubs w"
  by (simp add: record_invocation_def takeMatchers_def recordLast_def upd_state_def Let_def)

lemma stubs_record: "stubs (w_states (record_invocation g s c w) t) = stubs (w_states w t)"
  by (simp add: record_invocation_def takeMatchers_def recordLast_def upd_state_def Let_def)

lemma intercept_hit:
  assumes "newest p a w" "w_stubs w a = return_stub p rs k" "rs \<noteq> []" "hits p (g, s, c)"
  shows "fst (intercept g s c w) = handed_out rs k (iv_method c)"
    and "w_stubs (snd (intercept g s c w)) a = return_stub p rs (k + 1)"
proof -
  let ?w = "record_invocation g s c w"
  from assms(1,4) obtain pre where "stubs (w_states ?w s) (iv_code c) = pre @ [a]"
    by (auto simp: newest_def hits_def stubs_record)
  then have "findStub (w_stubs ?w) (w_states ?w s) (iv_code c) (iv_args c) = Inr (Some a)"
    unfolding findStub_Some using assms(2,4)
    by (intro exI [of _ pre] exI [of _ "[]"]) (auto simp: return_stub_def hits_def)
  then have i: "intercept g s c w = run_stub a c ?w" by (simp add: intercept_def Let_def)
  have "(if k \<ge> length rs then length rs - 1 else k) = min k (length rs - 1)"
    using assms(3) by (cases rs) auto
  then show "fst (intercept g s c w) = handed_out rs k (iv_method c)"
    and "w_stubs (snd (intercept g s c w)) a = return_stub p rs (k + 1)"
    using assms(2,3) unfolding i
    by (auto simp: run_stub_def stub_rets_def return_stub_def handed_out_def upd_stub_def Let_def
        split: sum.splits)
qed

lemma intercept_miss:
  assumes "newest p a w" "w_stubs w a = return_stub p rs k" "\<not> hits p (g, s, c)"
  shows "w_stubs (snd (intercept g s c w)) a = w_stubs w a"
proof -
  let ?w = "record_invocation g s c w"
  show ?thesis
  proof (cases "findStub (w_stubs ?w) (w_states ?w s) (iv_code c) (iv_args c)")
    case (Inr r)
    show ?thesis
    proof (cases r)
      case (Some b)
      with Inr have "b \<in> set (stubs (w_states w s) (iv_code c))"
        and "argsMatch (st_args (w_stubs w b)) (st_matchers (w_stubs w b)) (iv_args c) = Inr True"
        by (auto simp: findStub_Some stubs_record)
      with assms have "b \<noteq> a" by (auto simp: newest_def hits_def return_stub_def)
      then have "w_stubs (snd (run_stub b c ?w)) a = w_stubs w a"
        by (auto simp: run_stub_def upd_stub_def Let_def split: prod.splits sum.splits)
      with Inr Some show ?thesis by (simp add: intercept_def Let_def)
    qed (use Inr in \<open>simp add: intercept_def Let_def\<close>)
  qed (simp add: intercept_def Let_def)
qed

text \<open>What \<open>When(call).ThenReturn(vs...)\<close> leaves on a method with one result.\<close>

lemma ThenReturn_newest:
  assumes "mock_inv w" and "lasts w g = Some p" and "p_numOut p = 1"
    and "whenRecorded g w = (Inr sb, w1)" and "ThenReturn vs sb w1 = (sb', w2)"
  shows "newest p (w_next_stub w) w2"
    and "w_stubs w2 = (w_stubs w)(w_next_stub w := return_stub p (map (\<lambda>r. [r]) vs) 0)"
    and "stubs (w_states w2 s) code =
      stubs (w_states w s) code @ (if s = p_state p \<and> code = p_code p then [w_next_stub w] else [])"
    and "matchers w2 = matchers w" and "lasts w2 g = None"
proof -
  let ?a = "w_next_stub w" and ?rs = "map (\<lambda>r. [r]) vs"
  have fresh: "?a \<notin> set (stubs (w_states w s) code)" for s code
    using assms(1) by (auto simp: mock_inv_def)
  from assms(2,4) have sb: "sb = \<lparr>sb_s = p_state p, sb_code = p_code p, sb_args = p_args p,
      sb_matchers = p_matchers p, sb_numOut = p_numOut p, sb_stub = None\<rparr>"
    and w1: "w1 = upd_state (p_state p) rollback (w\<lparr>lasts := (lasts w)(g := None)\<rparr>)"
    by (simp_all add: whenRecorded_def popLast_def)
  from assms(3,5) have w2: "w2 = upd_stub ?a (\<lambda>st. st\<lparr>retSets := retSets st @ ?rs\<rparr>)
      (upd_state (p_state p) (addStub (p_code p) ?a)
        (w1\<lparr>w_stubs := (w_stubs w1)(?a := return_stub p [] 0), w_next_stub := ?a + 1\<rparr>))"
    by (simp add: ThenReturn_def stubOrCreate_def sb w1 upd_state_def return_stub_def Let_def)
  show "newest p ?a w2"
    using fresh by (auto simp: newest_def w2 w1 upd_state_def upd_stub_def addStub_def split: if_splits)
  show "w_stubs w2 = (w_stubs w)(?a := return_stub p ?rs 0)"
    by (simp add: w2 w1 upd_stub_def upd_state_def return_stub_def)
  show "stubs (w_states w2 s) code =
      stubs (w_states w s) code @ (if s = p_state p \<and> code = p_code p then [?a] else [])"
    by (simp add: w2 w1 upd_stub_def upd_state_def addStub_def)
  show "matchers w2 = matchers w" "lasts w2 g = None"
    by (simp_all add: w2 w1 upd_stub_def upd_state_def)
qed

lemma run_calls_sequence:
  assumes "newest p a w" "w_stubs w a = return_stub p rs k" "rs \<noteq> []"
  shows "map (\<lambda>(c, out). out) (filter (\<lambda>(c, out). hits p c) (zip cs (fst (run_calls cs w)))) =
         map (\<lambda>(i, (g, s, c)). handed_out rs (k + i) (iv_method c))
           (zip [0..<length (filter (hits p) cs)] (filter (hits p) cs))"
  using assms
proof (induction cs arbitrary: w k)
  case Nil
  show ?case by simp
next
  case (Cons x cs)
  obtain g s c where x: "x = (g, s, c)" by (cases x) auto
  obtain out w1 where i: "intercept g s c w = (out, w1)" by fastforce
  obtain outs w2 where r: "run_calls cs w1 = (outs, w2)" by fastforce
  have n: "newest p a w1" using newest_intercept [OF i] Cons.prems(1) by simp
  show ?case
  proof (cases "hits p x")
    case True
    from intercept_hit [OF Cons.prems True [unfolded x]] i
    have out: "out = handed_out rs k (iv_method c)" and st: "w_stubs w1 a = return_stub p rs (k + 1)"
      by simp_all
    have "[0..<Suc n] = 0 # map Suc [0..<n]" for n
      by (simp add: map_Suc_upt upt_conv_Cons)
    then have "map (\<lambda>(i, (g, s, c)). handed_out rs (k + i) (iv_method c))
           (zip [0..<length (filter (hits p) (x # cs))] (filter (hits p) (x # cs))) =
        handed_out rs k (iv_method c) # map (\<lambda>(i, (g, s, c)). handed_out rs (k + 1 + i) (iv_method c))
           (zip [0..<length (filter (hits p) cs)] (filter (hits p) cs))"
      using True x by (simp add: zip_map1 case_prod_unfold comp_def del: upt_Suc)
    with True Cons.IH [OF n st Cons.prems(3)] i r out show ?thesis by (simp add: x)
  next
    case False
    from intercept_miss [OF Cons.prems(1,2) False [unfolded x]] i Cons.prems(2)
    have "w_stubs w1 a = return_stub p rs k" by simp
    from Cons.IH [OF n this Cons.prems(3)] False i r show ?thesis by (simp add: x)
  qed
qed

end
