(* ===== verification/MockitoCount.thy ===== *)
theory MockitoCount
  imports MockitoRuns
begin

text \<open>
  Counting with marks, sequences of assertions before \<open>VerifyNoMoreInteractions\<close>, and the greedy
  search of InOrder against list embedding.
\<close>

section \<open>Counting\<close>

lemma ex_bool [simp]: "\<exists>b. b" "\<exists>b. \<not> b"
  by auto

definition calm :: "Verifier \<Rightarrow> Call list \<Rightarrow> bool" where
  "calm v cs \<longleftrightarrow> (\<forall>c\<in>set cs. \<exists>b. wanted v c = Inr b)"

definition wants :: "Verifier \<Rightarrow> Call \<Rightarrow> bool" where
  "wants v c \<longleftrightarrow> wanted v c = Inr True"

definition marked :: "Verifier \<Rightarrow> Call list \<Rightarrow> bool list \<Rightarrow> bool list" where
  "marked v cs vs = map2 (\<lambda>c b. b \<or> wants v c) cs vs"

lemma count_loop_calm:
  "length vs = length cs \<Longrightarrow> calm v cs \<Longrightarrow>
   count_loop v mark cs vs =
     (Inr (int (length (filter (wants v) cs))), if mark then marked v cs vs else vs)"
proof (induction cs arbitrary: vs)
  case Nil
  then show ?case by (simp add: marked_def)
next
  case (Cons c cs)
  from Cons.prems obtain b bs where vs: "vs = b # bs" and l: "length bs = length cs"
    by (cases vs) auto
  from Cons.prems have c: "calm v cs" and w: "\<exists>x. wanted v c = Inr x" by (auto simp: calm_def)
  from w obtain x where "wanted v c = Inr x" by auto
  with Cons.IH [OF l c] show ?case
    by (cases x) (auto simp: vs marked_def wants_def)
qed

lemma countLocked_calm:
  assumes "mock_inv w" "calm v (calls (w_states w (v_s v)))"
  shows "countLocked v mark w =
     (Inr (int (length (filter (wants v) (calls (w_states w (v_s v)))))),
      if mark then upd_state (v_s v) (\<lambda>s. s\<lparr>verified := marked v (calls s) (verified s)\<rparr>) w
      else upd_state (v_s v) (\<lambda>s. s\<lparr>verified := verified s\<rparr>) w)"
proof -
  have "length (verified (w_states w (v_s v))) = length (calls (w_states w (v_s v)))"
    using assms(1) by (simp add: mock_inv_def log_ok_def)
  from count_loop_calm [OF this assms(2), of mark] show ?thesis
    by (simp add: countLocked_def upd_state_def Let_def)
qed

section \<open>Marks of a sequence of assertions\<close>

text \<open>Run the marking pass of a list of verifiers on the state at \<open>a\<close>, one after the other.\<close>

fun mark_all :: "Verifier list \<Rightarrow> mworld \<Rightarrow> mworld" where
  "mark_all [] w = w"
| "mark_all (v # vs) w = mark_all vs (snd (countLocked v True w))"

lemma fold_marked:
  "length bs = length cs \<Longrightarrow>
   fold (\<lambda>v. marked v cs) vs bs = map2 (\<lambda>c b. b \<or> (\<exists>v\<in>set vs. wants v c)) cs bs"
proof (induction vs arbitrary: bs)
  case Nil
  then show ?case by (simp add: list_eq_iff_nth_eq)
next
  case (Cons v vs)
  have "length (marked v cs bs) = length cs" using Cons.prems by (simp add: marked_def)
  from Cons.IH [OF this] Cons.prems show ?case
    by (auto simp: marked_def list_eq_iff_nth_eq)
qed

lemma mark_all_state:
  assumes "mock_inv w" "\<forall>v\<in>set vs. v_s v = a \<and> calm v (calls (w_states w a))"
  shows "calls (w_states (mark_all vs w) a) = calls (w_states w a) \<and>
         verified (w_states (mark_all vs w) a) =
           fold (\<lambda>v. marked v (calls (w_states w a))) vs (verified (w_states w a)) \<and>
         registry (mark_all vs w) = registry w"
  using assms
proof (induction vs arbitrary: w)
  case Nil
  then show ?case by simp
next
  case (Cons v vs)
  from Cons.prems have v: "v_s v = a" "calm v (calls (w_states w (v_s v)))" by auto
  let ?w = "snd (countLocked v True w)"
  have w: "?w = upd_state a (\<lambda>s. s\<lparr>verified := marked v (calls s) (verified s)\<rparr>) w"
    using countLocked_calm [OF Cons.prems(1) v(2), of True] v(1) by simp
  have len: "log_ok (w_states w a)" using Cons.prems(1) by (simp add: mock_inv_def)
  have "mock_inv ?w"
    unfolding w by (rule mock_inv_upd [OF Cons.prems(1)]) (simp_all add: log_ok_def marked_def)
  moreover have "calls (w_states ?w a) = calls (w_states w a)"
    by (simp add: w upd_state_def)
  ultimately show ?case
    using Cons.IH [of ?w] Cons.prems(2) by (simp add: w upd_state_def)
qed

lemma unexpected_calls_zip:
  "length bs = length cs \<Longrightarrow>
   unexpected_calls cs bs = Inr (map fst (filter (\<lambda>(c, b). \<not> b) (zip cs bs)))"
proof (induction cs arbitrary: bs)
  case (Cons c cs)
  then obtain b bs' where "bs = b # bs'" by (cases bs) auto
  with Cons show ?case by simp
qed simp

section \<open>InOrder\<close>

definition order_calm :: "InOrderVerifier \<Rightarrow> Call list \<Rightarrow> bool" where
  "order_calm iv cs \<longleftrightarrow> (\<forall>c\<in>set cs. \<exists>b. order_wanted iv c = Inr b)"

definition order_wants :: "InOrderVerifier \<Rightarrow> Call \<Rightarrow> bool" where
  "order_wants iv c \<longleftrightarrow> order_wanted iv c = Inr True"

lemma order_loop_calm:
  assumes "order_calm iv cs" "0 \<le> k" "k < n"
  shows "\<exists>l. order_loop n iv k l0 i cs = Inr (min n (k + int (length (filter (order_wants iv) cs))), l)"
  using assms
proof (induction cs arbitrary: k l0 i)
  case Nil
  then show ?case by simp
next
  case (Cons c cs)
  from Cons.prems have c: "order_calm iv cs" and w: "\<exists>x. order_wanted iv c = Inr x"
    by (auto simp: order_calm_def)
  from w obtain x where x: "order_wanted iv c = Inr x" by auto
  show ?case
  proof (cases x)
    case True
    show ?thesis
    proof (cases "k + 1 = n")
      case True
      with x \<open>x\<close> show ?thesis by (simp add: order_wants_def)
    next
      case False
      with Cons.prems have "0 \<le> k + 1" "k + 1 < n" by auto
      from Cons.IH [OF c this, of "Some i" "i + 1"] False x \<open>x\<close> show ?thesis
        by (simp add: order_wants_def add.assoc)
    qed
  next
    case False
    from Cons.IH [OF c Cons.prems(2,3), of l0 "i + 1"] False x show ?thesis
      by (simp add: order_wants_def)
  qed
qed

lemma order_loop_zero:
  assumes "order_calm iv cs" "n \<le> k"
  shows "\<exists>l. order_loop n iv k l0 i cs = Inr (k + int (length (filter (order_wants iv) cs)), l) \<and>
             (filter (order_wants iv) cs = [] \<longrightarrow> l = l0)"
  using assms
proof (induction cs arbitrary: k l0 i)
  case Nil
  then show ?case by simp
next
  case (Cons c cs)
  from Cons.prems have c: "order_calm iv cs" and w: "\<exists>x. order_wanted iv c = Inr x"
    by (auto simp: order_calm_def)
  from w obtain x where x: "order_wanted iv c = Inr x" by auto
  show ?case
  proof (cases x)
    case True
    with Cons.IH [OF c, of "k + 1" "Some i" "i + 1"] Cons.prems(2) x show ?thesis
      by (auto simp: order_wants_def)
  next
    case False
    with Cons.IH [OF c Cons.prems(2), of l0 "i + 1"] x show ?thesis
      by (auto simp: order_wants_def)
  qed
qed

lemma order_loop_once:
  "order_calm iv cs \<Longrightarrow>
   order_loop 1 iv 0 None i cs =
     (case dropWhile (\<lambda>c. \<not> order_wants iv c) cs of
        [] \<Rightarrow> Inr (0, None)
      | c # rest \<Rightarrow> Inr (1, Some (i + length (takeWhile (\<lambda>c. \<not> order_wants iv c) cs))))"
proof (induction cs arbitrary: i)
  case (Cons c cs)
  then have c: "order_calm iv cs" and w: "\<exists>x. order_wanted iv c = Inr x"
    by (auto simp: order_calm_def)
  from w obtain x where "order_wanted iv c = Inr x" by auto
  with Cons.IH [OF c, of "i + 1"] show ?case
    by (cases x) (auto simp: order_wants_def split: list.splits simp del: dropWhile_eq_Nil_conv)
qed simp

text \<open>A list of \<open>Verify(...).Once()\<close> against one log.\<close>

fun once_all :: "InOrderVerifier list \<Rightarrow> Call list \<Rightarrow> InOrder \<Rightarrow> bool" where
  "once_all [] hist io = True"
| "once_all (iv # ivs) hist io =
     (case order_times 1 iv hist io of (r, io') \<Rightarrow> r = Passed \<and> once_all ivs hist io')"

text \<open>\<open>embeds ivs cs\<close>: the verifiers match some calls of \<open>cs\<close> in this order.\<close>

inductive embeds :: "InOrderVerifier list \<Rightarrow> Call list \<Rightarrow> bool" where
  none: "embeds [] cs"
| skip: "embeds ivs cs \<Longrightarrow> embeds ivs (c # cs)"
| here: "order_wants iv c \<Longrightarrow> embeds ivs cs \<Longrightarrow> embeds (iv # ivs) (c # cs)"

inductive_simps embeds_simps [simp]: "embeds [] cs" "embeds (iv # ivs) []" 
inductive_cases embeds_ConsE: "embeds (iv # ivs) (c # cs)"

lemma embeds_tail: "embeds (iv # ivs) cs \<Longrightarrow> embeds ivs cs"
proof (induction cs)
  case (Cons c cs)
  from Cons.prems show ?case
    by (elim embeds_ConsE) (auto intro: embeds.intros Cons.IH)
qed simp

lemma embeds_here: "order_wants iv c \<Longrightarrow> embeds (iv # ivs) (c # cs) \<longleftrightarrow> embeds ivs cs"
  by (auto elim: embeds_ConsE intro: embeds.intros dest: embeds_tail)

lemma embeds_skip: "\<not> order_wants iv c \<Longrightarrow> embeds (iv # ivs) (c # cs) \<longleftrightarrow> embeds (iv # ivs) cs"
  by (auto elim: embeds_ConsE intro: embeds.intros)

lemma embeds_drop_until:
  "embeds (iv # ivs) cs \<longleftrightarrow>
     (case dropWhile (\<lambda>c. \<not> order_wants iv c) cs of [] \<Rightarrow> False | c # rest \<Rightarrow> embeds ivs rest)"
  by (induction cs) (auto simp: embeds_here embeds_skip)

text \<open>The same with explicit positions in the log.\<close>

definition in_order_at :: "InOrderVerifier list \<Rightarrow> Call list \<Rightarrow> nat list \<Rightarrow> bool" where
  "in_order_at ivs cs ps \<longleftrightarrow>
     length ps = length ivs \<and> sorted_wrt (<) ps \<and>
     (\<forall>i<length ivs. ps ! i < length cs \<and> order_wants (ivs ! i) (cs ! (ps ! i)))"

lemma embeds_positions: "embeds ivs cs \<Longrightarrow> \<exists>ps. in_order_at ivs cs ps"
proof (induction rule: embeds.induct)
  case (none cs)
  show ?case by (auto simp: in_order_at_def)
next
  case (skip ivs cs c)
  then obtain ps where "in_order_at ivs cs ps" by auto
  then have "in_order_at ivs (c # cs) (map Suc ps)"
    by (auto simp: in_order_at_def sorted_wrt_map)
  then show ?case by blast
next
  case (here iv c ivs cs)
  then obtain ps where ps: "in_order_at ivs cs ps" by auto
  then have "in_order_at (iv # ivs) (c # cs) (0 # map Suc ps)"
    using here.hyps by (auto simp: in_order_at_def sorted_wrt_map less_Suc_eq_0_disj)
  then show ?case by blast
qed

lemma embeds_append: "embeds ivs cs \<Longrightarrow> embeds ivs (ds @ cs)"
  by (induction ds) (auto intro: embeds.skip)

lemma positions_embeds: "in_order_at ivs cs ps \<Longrightarrow> \<forall>p\<in>set ps. k \<le> p \<Longrightarrow> embeds ivs (drop k cs)"
proof (induction ivs arbitrary: ps k)
  case Nil
  show ?case by simp
next
  case (Cons iv ivs)
  from Cons.prems(1) obtain p ps' where ps: "ps = p # ps'"
    by (cases ps) (auto simp: in_order_at_def)
  from Cons.prems(1) have p: "p < length cs" "order_wants iv (cs ! p)" and "in_order_at ivs cs ps'"
    and "\<forall>q\<in>set ps'. Suc p \<le> q"
    by (auto simp: ps in_order_at_def)
  with Cons.IH [of ps' "Suc p"] have "embeds ivs (drop (Suc p) cs)" by simp
  with p have "embeds (iv # ivs) (drop p cs)"
    by (simp add: Cons_nth_drop_Suc [symmetric] embeds_here)
  moreover have "drop k cs = take (p - k) (drop k cs) @ drop p cs"
    using Cons.prems(2) by (simp add: ps flip: drop_drop) (metis append_take_drop_id drop_drop le_add_diff_inverse2)
  ultimately show ?case by (metis embeds_append)
qed

lemma embeds_drop_iff:
  "embeds ivs (drop k cs) \<longleftrightarrow> (\<exists>ps. in_order_at ivs cs ps \<and> (\<forall>p\<in>set ps. k \<le> p))"
proof
  assume "embeds ivs (drop k cs)"
  then obtain ps where ps: "in_order_at ivs (drop k cs) ps" using embeds_positions by blast
  then have "in_order_at ivs cs (map (\<lambda>p. k + p) ps)"
    by (auto simp: in_order_at_def sorted_wrt_map less_diff_conv add.commute)
  then show "\<exists>ps. in_order_at ivs cs ps \<and> (\<forall>p\<in>set ps. k \<le> p)"
    by (intro exI [of _ "map (\<lambda>p. k + p) ps"]) auto
next
  assume "\<exists>ps. in_order_at ivs cs ps \<and> (\<forall>p\<in>set ps. k \<le> p)"
  then show "embeds ivs (drop k cs)" using positions_embeds by blast
qed

lemma once_all_iff:
  assumes "\<forall>iv\<in>set ivs. order_calm iv hist"
  shows "once_all ivs hist io \<longleftrightarrow> embeds ivs (drop (io_pos io) hist)"
  using assms
proof (induction ivs arbitrary: io)
  case Nil
  show ?case by simp
next
  case (Cons iv ivs)
  let ?d = "drop (io_pos io) hist"
  let ?t = "takeWhile (\<lambda>c. \<not> order_wants iv c) ?d"
  have calm: "order_calm iv ?d"
    using Cons.prems by (auto simp: order_calm_def dest: in_set_dropD)
  show ?case
  proof (cases "dropWhile (\<lambda>c. \<not> order_wants iv c) ?d")
    case Nil
    with order_loop_once [OF calm, of "io_pos io"] show ?thesis
      by (simp add: order_times_def embeds_drop_until del: dropWhile_eq_Nil_conv)
  next
    case (Cons c rest)
    have "?t @ c # rest = ?d" unfolding Cons [symmetric] by (rule takeWhile_dropWhile_id)
    then have "rest = drop (Suc (length ?t)) ?d"
      by (metis append_eq_conv_conj drop_Suc_Cons drop_drop drop0 plus_1_eq_Suc length_Cons
          add_Suc_right add_0_right)
    then have rest: "rest = drop (Suc (io_pos io + length ?t)) hist"
      by (simp add: add.commute)
    have "order_times 1 iv hist io = (Passed, io\<lparr>io_pos := io_pos io + length ?t + 1\<rparr>)"
      using order_loop_once [OF calm, of "io_pos io"] Cons by (simp add: order_times_def)
    with Cons Cons.IH [of "io\<lparr>io_pos := io_pos io + length ?t + 1\<rparr>"] Cons.prems rest show ?thesis
      by (simp add: embeds_drop_until)
  qed
qed

end
