(* ===== verification/MockitoProps.thy ===== *)
theory MockitoProps
  imports MockitoCount
begin

text \<open>
  The properties of mockito: which stub answers a call, sequences of results, recording-style
  triggers and the call log, verification and call order.
\<close>

section \<open>Concrete mocks for the witnesses\<close>

definition next_method :: methodT where
  "next_method = \<lparr>m_name = ''Next'', m_in = [], m_out = [TOther ''int'' (AInt 0)]\<rparr>"

definition load_method :: methodT where
  "load_method = \<lparr>m_name = ''Load'', m_in = [TOther ''string'' (AStr [])], m_out = [TOther ''int'' (AInt 0)]\<rparr>"

definition next_call :: invocation where
  "next_call = \<lparr>iv_code = 100, iv_method = next_method, iv_args = []\<rparr>"

definition load_call :: "string \<Rightarrow> invocation" where
  "load_call k = \<lparr>iv_code = 101, iv_method = load_method, iv_args = [AStr k]\<rparr>"

definition mock_world :: mworld where
  "mock_world = snd (Mock 7 empty_world)"

text \<open>The world after goroutine 1 made the call \<open>c\<close>.\<close>

definition called :: "invocation \<Rightarrow> mworld \<Rightarrow> mworld" where
  "called c w = snd (intercept 1 0 c w)"

lemmas mock_defs =
  mock_world_def called_def Mock_def new_state_def empty_world_def next_call_def load_call_def
  next_method_def load_method_def intercept_def record_invocation_def takeMatchers_def recordLast_def
  upd_state_def record_call_def findStub_def

lemma mreach_mock_world: "mreach mock_world"
  unfolding mock_world_def Mock_def by (intro mreach.mock mreach.start)

lemma mreach_called: "mreach w \<Longrightarrow> mreach (called c w)"
  unfolding called_def by (cases "intercept 1 0 c w") (auto intro: mreach.call)

section \<open>Which stub answers\<close>

text \<open>
  C33. A call is answered by the last declared stub of its method whose arguments match; when none
  matches, a mock returns the zero values of its results and a spy proceeds to the target. In each
  case the call is in the log.
\<close>

theorem latest_matching_stub_answers:
  assumes "stubs (w_states w s) (iv_code c) = pre @ mid @ post"
    and "\<forall>b\<in>set post. argsMatch (st_args (w_stubs w b)) (st_matchers (w_stubs w b)) (iv_args c) = Inr False"
    and "mid = [] \<and> pre = [] \<or>
         (\<exists>a. mid = [a] \<and> argsMatch (st_args (w_stubs w a)) (st_matchers (w_stubs w a)) (iv_args c) = Inr True)"
  shows "fst (intercept g s c w) =
           (case mid of
              a # _ \<Rightarrow> fst (run_stub a c (record_invocation g s c w))
            | [] \<Rightarrow> if spy (w_states w s) then MProceed
                    else MReturn (map zero_of (m_out (iv_method c)))) \<and>
         calls (w_states (snd (intercept g s c w)) s) =
           calls (w_states w s) @ [\<lparr>cl_method = m_name (iv_method c), cl_code = iv_code c, cl_args = iv_args c\<rparr>]"
proof -
  let ?w = "record_invocation g s c w"
  obtain out w' where i: "intercept g s c w = (out, w')" by fastforce
  have st: "stubs (w_states ?w s) (iv_code c) = pre @ mid @ post"
    using assms(1) by (simp add: stubs_record)
  have sp: "spy (w_states ?w s) = spy (w_states w s)"
    by (simp add: record_invocation_def takeMatchers_def recordLast_def upd_state_def Let_def)
  have "fst (intercept g s c w) =
      (case mid of a # _ \<Rightarrow> fst (run_stub a c ?w)
       | [] \<Rightarrow> if spy (w_states w s) then MProceed else MReturn (map zero_of (m_out (iv_method c))))"
  proof (cases mid)
    case Nil
    with st assms have "findStub (w_stubs ?w) (w_states ?w s) (iv_code c) (iv_args c) = Inr None"
      unfolding findStub_None by simp
    with Nil sp show ?thesis by (simp add: intercept_def Let_def)
  next
    case (Cons a rest)
    with assms(3) have a: "mid = [a]"
      "argsMatch (st_args (w_stubs w a)) (st_matchers (w_stubs w a)) (iv_args c) = Inr True" by auto
    with st assms(2) have "findStub (w_stubs ?w) (w_states ?w s) (iv_code c) (iv_args c) = Inr (Some a)"
      unfolding findStub_Some by (intro exI [of _ pre] exI [of _ post]) simp
    with a show ?thesis by (simp add: intercept_def Let_def)
  qed
  with intercept_fields(1) [OF i] i show ?thesis by simp
qed

theorem latest_matching_stub_answers_witness:
  "fst (intercept 1 0 (load_call ''k'') mock_world) = MReturn [AInt 0]"
  using latest_matching_stub_answers [of mock_world 0 "load_call ''k''" "[]" "[]" "[]" 1]
  by (simp add: mock_world_def Mock_def new_state_def empty_world_def Let_def load_call_def load_method_def)

section \<open>Sequences of results\<close>

text \<open>
  C35. After \<open>When(call).ThenReturn(v0, ..., vn)\<close> on a method with one result, the k-th of the calls
  that match the recorded arguments returns \<open>vk\<close>, and \<open>vn\<close> once the sequence is used up, whatever
  other calls come in between; a nil stands for the zero value.
\<close>

theorem ThenReturn_is_a_sequence:
  assumes "mreach w" and "lasts w g = Some p" and "p_numOut p = 1" and "vs \<noteq> []"
    and "whenRecorded g w = (Inr sb, w1)" and "ThenReturn vs sb w1 = (sb', w2)"
    and "\<forall>(h, s, c)\<in>set cs. length (m_out (iv_method c)) = 1"
  shows "map (\<lambda>(c, out). out) (filter (\<lambda>(c, out). hits p c) (zip cs (fst (run_calls cs w2)))) =
         map (\<lambda>(k, (h, s, c)).
                let v = vs ! min k (length vs - 1) in
                MReturn [if v = ANil then zero_of (hd (m_out (iv_method c))) else v])
           (zip [0..<length (filter (hits p) cs)] (filter (hits p) cs))"
proof -
  let ?a = "w_next_stub w" and ?rs = "map (\<lambda>r. [r]) vs"
  note made = ThenReturn_newest [OF mreach_inv [OF assms(1)] assms(2,3,5,6)]
  from made(1) have "newest p ?a w2" .
  moreover from made(2) have "w_stubs w2 ?a = return_stub p ?rs 0" by simp
  ultimately have "map (\<lambda>(c, out). out) (filter (\<lambda>(c, out). hits p c) (zip cs (fst (run_calls cs w2)))) =
      map (\<lambda>(i, (g, s, c)). handed_out ?rs (0 + i) (iv_method c))
        (zip [0..<length (filter (hits p) cs)] (filter (hits p) cs))"
    using assms(4) by (intro run_calls_sequence) simp_all
  also have "\<dots> = map (\<lambda>(k, (h, s, c)).
                let v = vs ! min k (length vs - 1) in
                MReturn [if v = ANil then zero_of (hd (m_out (iv_method c))) else v])
           (zip [0..<length (filter (hits p) cs)] (filter (hits p) cs))"
  proof (rule map_cong [OF refl])
    fix x assume mem: "x \<in> set (zip [0..<length (filter (hits p) cs)] (filter (hits p) cs))"
    obtain k h s c where x: "x = (k, (h, s, c))" by (cases x) auto
    with mem have "(h, s, c) \<in> set cs" by (auto dest: set_zip_rightD)
    with assms(7) obtain t where t: "m_out (iv_method c) = [t]"
      by (fastforce simp: length_Suc_conv)
    have "min k (length vs - 1) < length vs" using assms(4) by (cases vs) auto
    then have "?rs ! min k (length ?rs - 1) = [vs ! min k (length vs - 1)]" by simp
    with t show "(case x of (i, (g, s, c)) \<Rightarrow> handed_out ?rs (0 + i) (iv_method c)) =
        (case x of (k, (h, s, c)) \<Rightarrow>
           let v = vs ! min k (length vs - 1) in
             MReturn [if v = ANil then zero_of (hd (m_out (iv_method c))) else v])"
      by (simp add: x handed_out_def Let_def)
  qed
  finally show ?thesis .
qed

definition next_pending :: pendingCall where
  "next_pending = \<lparr>p_state = 0, p_code = 100, p_method = ''Next'', p_args = [], p_numOut = 1, p_matchers = []\<rparr>"

definition stubbed_next :: mworld where
  "stubbed_next =
     (let (sb, w1) = whenRecorded 1 (called next_call mock_world) in
      case sb of Inl e \<Rightarrow> w1 | Inr sb' \<Rightarrow> snd (ThenReturn [AInt 5, AInt 6] sb' w1))"

theorem ThenReturn_is_a_sequence_witness:
  "map (\<lambda>(c, out). out) (filter (\<lambda>(c, out). hits next_pending c)
     (zip [(2, 0, next_call), (1, 0, next_call), (1, 0, load_call ''k''), (1, 0, next_call)]
        (fst (run_calls [(2, 0, next_call), (1, 0, next_call), (1, 0, load_call ''k''), (1, 0, next_call)]
               stubbed_next)))) =
   [MReturn [AInt 5], MReturn [AInt 6], MReturn [AInt 6]]"
proof -
  let ?cs = "[(2, 0, next_call), (1, 0, next_call), (1, 0, load_call ''k''), (1, 0, next_call)]"
  obtain sb w1 where w: "whenRecorded 1 (called next_call mock_world) = (Inr sb, w1)"
    and l: "lasts (called next_call mock_world) 1 = Some next_pending"
    by (simp add: whenRecorded_def popLast_def mock_defs next_pending_def Let_def)
  obtain sb' w2 where r: "ThenReturn [AInt 5, AInt 6] sb w1 = (sb', w2)" by fastforce
  have "stubbed_next = w2" by (simp add: stubbed_next_def w r del: One_nat_def)
  with ThenReturn_is_a_sequence [OF mreach_called [OF mreach_mock_world] l _ _ w r, of ?cs]
  show ?thesis
    by (simp add: next_pending_def hits_def next_call_def load_call_def next_method_def load_method_def
        argsMatch_def upt_rec Let_def)
qed

section \<open>Recording-style triggers\<close>

text \<open>
  \<open>When(m.F(...))\<close>, \<open>Verify(m.F(...))\<close> and \<open>InOrder.Verify(m.F(...))\<close> run only after their argument, the
  trigger call \<open>c\<close> on the mock at \<open>s\<close>, came back. An answer comes back when the frame delivers its results
  (\<open>passes (Some vs)\<close>; it refuses some kinds), a call that goes on to a spy's target when the target
  returns and its results are delivered (\<open>passes None\<close>); a panic unwinds past them.
\<close>

definition trigger_returns :: "(any list option \<Rightarrow> bool) \<Rightarrow> moutcome \<Rightarrow> bool" where
  "trigger_returns passes out =
     (case out of
        MReturn vs \<Rightarrow> passes (Some vs) | MProceed \<Rightarrow> passes None
      | MPanic v \<Rightarrow> False | MRuntimePanic e \<Rightarrow> False)"

definition after_trigger ::
  "(any list option \<Rightarrow> bool) \<Rightarrow> goid \<Rightarrow> addr \<Rightarrow> invocation \<Rightarrow> (mworld \<Rightarrow> 'a) \<Rightarrow> mworld \<Rightarrow> 'a option" where
  "after_trigger passes g s c f w =
     (let (out, w1) = intercept g s c w in if trigger_returns passes out then Some (f w1) else None)"


lemma next_call_returns: "fst (intercept 1 0 next_call mock_world) = MReturn [AInt 0]"
  by (simp add: mock_defs Let_def)


text \<open>
  \<open>rollback\<close> takes back the newest call of the mock, which need not be the trigger: when
  another goroutine calls the mock between the trigger and \<open>When\<close>, the real call disappears from
  the log and the trigger stays in it.
\<close>

theorem rollback_under_interleaving:
  assumes "mreach w" and "intercept g s c w = (out1, w1)" and "intercept h s d w1 = (out2, w2)" and "g \<noteq> h"
  shows "calls (w_states (snd (whenRecorded g w2)) s) =
           calls (w_states w s) @ [\<lparr>cl_method = m_name (iv_method c), cl_code = iv_code c, cl_args = iv_args c\<rparr>]"
proof -
  have ok: "log_ok (w_states w s)" using mreach_inv [OF assms(1)] by (simp add: mock_inv_def)
  let ?c = "\<lparr>cl_method = m_name (iv_method c), cl_code = iv_code c, cl_args = iv_args c\<rparr>"
  note f = intercept_fields [OF assms(2)] and f' = intercept_fields [OF assms(3)]
  have "w_states (snd (whenRecorded g w2)) s = rollback (w_states w2 s)"
    using assms(4) by (simp add: whenRecorded_def popLast_def f'(2) f(2) upd_state_def)
  moreover have "log_ok (w_states w1 s)" using ok by (simp add: f(1) mock_log.ok_add)
  ultimately show ?thesis by (simp add: f(1) f'(1))
qed

theorem rollback_under_interleaving_witness:
  "map cl_args (calls (w_states (snd (whenRecorded 1
      (snd (intercept 2 0 (load_call ''real'') (called (load_call ''trigger'') mock_world))))) 0)) = [[AStr ''trigger'']]"
proof -
  obtain o1 w1 where i: "intercept 1 0 (load_call ''trigger'') mock_world = (o1, w1)" by fastforce
  obtain o2 w2 where j: "intercept 2 0 (load_call ''real'') w1 = (o2, w2)" by fastforce
  from rollback_under_interleaving [OF mreach_mock_world i j] i j show ?thesis
    by (simp add: called_def mock_world_def Mock_def new_state_def empty_world_def Let_def load_call_def)
qed

text \<open>
  A trigger is a real call of the stub: verifying a call that has a sequence of results hands
  out one of them, which the next real call then misses.
\<close>

theorem trigger_consumes_a_result:
  "fst (intercept 1 0 next_call stubbed_next) = MReturn [AInt 5] \<and>
   fst (intercept 1 0 next_call (snd (verifyRecorded 1 (called next_call stubbed_next)))) = MReturn [AInt 6]"
  by (simp add: stubbed_next_def mock_defs whenRecorded_def verifyRecorded_def popLast_def
      ThenReturn_def stubOrCreate_def addStub_def upd_stub_def rollback_def argsMatch_def run_stub_def
      stub_rets_def Let_def)

section \<open>Verification\<close>

text \<open>The marks an assertion of \<open>v\<close> leaves on the log of \<open>w\<close>: those that were there and the matching calls.\<close>

definition marks_of :: "Verifier \<Rightarrow> mworld \<Rightarrow> bool list" where
  "marks_of v w = map2 (\<lambda>c b. b \<or> wants v c) (calls (w_states w (v_s v))) (verified (w_states w (v_s v)))"

definition matching :: "Verifier \<Rightarrow> mworld \<Rightarrow> int" where
  "matching v w = int (length (filter (wants v) (calls (w_states w (v_s v)))))"

lemma assert_count_calm:
  assumes "mreach w" and "calm v (calls (w_states w (v_s v)))"
  shows "assert_count v check msg w =
    (if check (matching v w) then Passed else fail (v_t v) (msg (matching v w)),
     Some (upd_state (v_s v) (\<lambda>s. s\<lparr>verified := marks_of v w\<rparr>) w))"
  using countLocked_calm [OF mreach_inv [OF assms(1)] assms(2), of True]
  by (simp add: assert_count_def matching_def marks_of_def marked_def upd_state_def)

text \<open>
  C37. Without a timeout, and if no predicate panics on a logged call, \<open>Times\<close>, \<open>AtLeast\<close>, \<open>AtMost\<close>,
  \<open>Between\<close>, \<open>Never\<close> and \<open>Once\<close> pass exactly when the number of matching calls in the log satisfies them
  and report the number otherwise, through a bound T, else by a panic. Each of them, passing or
  failing, marks exactly the matching calls in addition to those marked before, and changes nothing
  else.
\<close>

theorem assertions_count_matching_calls:
  fixes w :: mworld and v :: Verifier
  defines "n \<equiv> int (length (filter (wants v) (calls (w_states w (v_s v)))))"
    and "w' \<equiv> upd_state (v_s v) (\<lambda>s. s\<lparr>verified :=
        map2 (\<lambda>c b. b \<or> wants v c) (calls (w_states w (v_s v))) (verified (w_states w (v_s v)))\<rparr>) w"
  assumes "mreach w" and "calm v (calls (w_states w (v_s v)))" and "v_timeout v \<le> 0"
  shows "Times k v ((w, e) # env) = Some (if n = k then Passed else fail (v_t v) (WrongTimes n k), Some w') \<and>
         AtLeast k v ((w, e) # env) = Some (if n \<ge> k then Passed else fail (v_t v) (TooFew n k), Some w') \<and>
         AtMost k v ((w, e) # env) = Some (if n \<le> k then Passed else fail (v_t v) (TooMany n k), Some w') \<and>
         Between j k v ((w, e) # env) =
           Some (if j \<le> n \<and> n \<le> k then Passed else fail (v_t v) (NotBetween n j k), Some w') \<and>
         Never v ((w, e) # env) = Some (if n = 0 then Passed else fail (v_t v) (WrongTimes n 0), Some w') \<and>
         Once v ((w, e) # env) = Some (if n = 1 then Passed else fail (v_t v) (WrongTimes n 1), Some w')"
  using assms(3-5) unfolding n_def w'_def
  by (simp add: Times_def AtLeast_def AtMost_def Between_def Never_def Once_def assert_that_def final_count_def
      assert_count_calm marks_of_def matching_def)

definition next_verifier :: Verifier where
  "next_verifier =
     \<lparr>v_s = 0, v_code = 100, v_method = ''Next'', v_args = [], v_matchers = [], v_timeout = 0, v_t = False\<rparr>"

lemma called_log:
  "calls (w_states (called next_call mock_world) 0) =
     [\<lparr>cl_method = ''Next'', cl_code = 100, cl_args = []\<rparr>]"
  by (simp add: mock_defs Let_def)

lemma next_wanted:
  "wanted next_verifier \<lparr>cl_method = ''Next'', cl_code = 100, cl_args = []\<rparr> = Inr True"
  by (simp add: wanted_def next_verifier_def argsMatch_def)

theorem assertions_count_matching_calls_witness:
  "\<exists>w'. Times 2 next_verifier [(called next_call mock_world, False)] = Some (Panicked (WrongTimes 1 2), Some w') \<and>
     verified (w_states w' 0) = [True]"
proof -
  have s: "v_s next_verifier = 0" "v_timeout next_verifier \<le> 0" "v_t next_verifier = False"
    by (simp_all add: next_verifier_def)
  then have "calm next_verifier (calls (w_states (called next_call mock_world) (v_s next_verifier)))"
    by (simp add: calm_def called_log next_wanted)
  moreover have "verified (w_states (called next_call mock_world) 0) = [False]" by (simp add: mock_defs Let_def)
  ultimately show ?thesis
    using assertions_count_matching_calls [OF mreach_called [OF mreach_mock_world] _ s(2), where k = 2 and e = False and env = "[]"]
    by (simp add: s called_log wants_def next_wanted fail_def upd_state_def)
qed

section \<open>Waiting\<close>

text \<open>
  The worlds an assertion with a timeout finds: reachable ones, in which no predicate panics, and the
  log of the mock only grows from one to the next.
\<close>

definition growing :: "Verifier \<Rightarrow> env \<Rightarrow> bool" where
  "growing v env \<longleftrightarrow>
     (\<forall>(u, e)\<in>set env. mreach u \<and> calm v (calls (w_states u (v_s v)))) \<and>
     sorted_wrt (\<lambda>(u, e) (u', e'). prefix (calls (w_states u (v_s v))) (calls (w_states u' (v_s v)))) env"

lemma Count_matching: "mreach u \<Longrightarrow> calm v (calls (w_states u (v_s v))) \<Longrightarrow> Count v u = Inr (matching v u)"
  using countLocked_calm [OF mreach_inv, of u v False] by (simp add: Count_def matching_def)

lemma matching_mono: "prefix (calls (w_states u (v_s v))) (calls (w_states u' (v_s v))) \<Longrightarrow> matching v u \<le> matching v u'"
  by (auto simp: matching_def prefix_def)

lemma growing_Cons:
  "growing v ((u, e) # env) \<Longrightarrow> mreach u \<and> calm v (calls (w_states u (v_s v))) \<and> growing v env \<and>
   (\<forall>(u', e')\<in>set env. matching v u \<le> matching v u')"
  by (auto simp: growing_def intro!: matching_mono)

text \<open>One poll of \<open>AtLeast\<close> with a timeout; if it counted enough, the final count does too.\<close>

lemma AtLeast_poll:
  assumes "v_timeout v > 0" and "growing v ((u, e) # env)"
  shows "AtLeast n v ((u, e) # env) =
    (if n \<le> matching v u
     then (case env of
             [] \<Rightarrow> None
           | (w, d) # later \<Rightarrow> Some (Passed, Some (upd_state (v_s v) (\<lambda>s. s\<lparr>verified := marks_of v w\<rparr>) w)))
     else if e then Some (fail (v_t v) (TimedOut (TooFew (matching v u) n)), Some u)
     else AtLeast n v env)"
proof -
  from growing_Cons [OF assms(2)] have u: "Count v u = Inr (matching v u)"
    and env: "growing v env" "\<forall>(u', e')\<in>set env. matching v u \<le> matching v u'"
    by (auto simp: Count_matching)
  show ?thesis
  proof (cases env)
    case Nil
    with u assms(1) show ?thesis by (simp add: AtLeast_def assert_that_def final_count_def)
  next
    case (Cons y later)
    obtain w d where y: "y = (w, d)" by (cases y)
    with Cons env have "mreach w" "calm v (calls (w_states w (v_s v)))" "matching v u \<le> matching v w"
      using growing_Cons [of v w d later] by auto
    with u assms(1) y Cons show ?thesis
      by (simp add: AtLeast_def assert_that_def final_count_def assert_count_calm)
  qed
qed

text \<open>
  Some poll that no expired one precedes finds \<open>n\<close> matching calls, with a world after it; and the first
  expired poll finds fewer, as did those before.
\<close>

definition in_time :: "int \<Rightarrow> Verifier \<Rightarrow> env \<Rightarrow> bool" where
  "in_time n v env \<longleftrightarrow>
     (\<exists>early x rest. env = early @ x # rest \<and> rest \<noteq> [] \<and> (\<forall>y\<in>set early. \<not> snd y) \<and> n \<le> matching v (fst x))"

definition too_late :: "int \<Rightarrow> Verifier \<Rightarrow> env \<Rightarrow> mworld \<Rightarrow> bool" where
  "too_late n v env u \<longleftrightarrow>
     (\<exists>early x rest. env = early @ x # rest \<and> x = (u, True) \<and> (\<forall>y\<in>set early. \<not> snd y) \<and> matching v u < n)"

lemma split_Cons:
  "(\<exists>early x rest. y # ys = early @ x # rest \<and> P early x rest) \<longleftrightarrow>
   P [] y ys \<or> (\<exists>early x rest. ys = early @ x # rest \<and> P (y # early) x rest)"
  by (auto simp: Cons_eq_append_conv)

lemma in_time_Cons:
  "in_time n v (y # env) \<longleftrightarrow> n \<le> matching v (fst y) \<and> env \<noteq> [] \<or> \<not> snd y \<and> in_time n v env"
  unfolding in_time_def split_Cons by simp blast

lemma too_late_Cons:
  "too_late n v (y # env) u \<longleftrightarrow> y = (u, True) \<and> matching v u < n \<or> \<not> snd y \<and> too_late n v env u"
  unfolding too_late_def split_Cons by simp blast

lemma in_time_Nil [simp]: "\<not> in_time n v []" "\<not> too_late n v [] u"
  by (simp_all add: in_time_def too_late_def)

lemma fail_not_passed [simp]: "fail t f \<noteq> Passed"
  by (simp add: fail_def)

lemma AtLeast_outcome:
  assumes "v_timeout v > 0"
  shows "growing v env \<Longrightarrow>
    ((\<exists>w'. AtLeast n v env = Some (Passed, w')) \<longleftrightarrow> in_time n v env) \<and>
    (\<forall>r w'. AtLeast n v env = Some (r, w') \<and> r \<noteq> Passed \<longrightarrow>
      (\<exists>u. too_late n v env u \<and> r = fail (v_t v) (TimedOut (TooFew (matching v u) n)) \<and> w' = Some u)) \<and>
    ((\<exists>(u, e)\<in>set (butlast env). e \<or> n \<le> matching v u) \<longrightarrow> AtLeast n v env \<noteq> None)"
proof (induction env)
  case Nil
  with assms show ?case by (simp add: AtLeast_def assert_that_def)
next
  case (Cons x env)
  obtain u e where x: "x = (u, e)" by (cases x)
  with Cons.prems growing_Cons [of v u e env] have env: "growing v env"
    "\<forall>(u', e')\<in>set env. matching v u \<le> matching v u'" by auto
  note poll = AtLeast_poll [OF assms Cons.prems [unfolded x], of n]
  show ?case
  proof (cases "n \<le> matching v u")
    case True
    show ?thesis
    proof (cases env)
      case Nil
      with True poll show ?thesis by (simp add: x in_time_Cons)
    next
      case (Cons y later)
      obtain w d where "y = (w, d)" by (cases y)
      with True Cons poll show ?thesis by (simp add: x in_time_Cons)
    qed
  next
    case False
    with Cons.IH [OF env(1)] poll show ?thesis
      by (cases e; cases "env = []") (auto simp: x in_time_Cons too_late_Cons)
  qed
qed

text \<open>
  C39. A timeout waits for calls of other goroutines. While the mock's log only grows and no predicate
  panics, \<open>AtLeast(n)\<close> with a timeout passes exactly when some poll that no expired poll precedes finds
  \<open>n\<close> matching calls (and the final count gets its turn after it): it does not give up earlier and does
  not pass before. When it does not pass it reports, at the first poll past the deadline, the count
  that poll found. It comes to an end as soon as either happens.
\<close>

theorem Timeout_waits_for_the_calls:
  assumes "v_timeout v > 0" and "growing v env"
  shows "((\<exists>w'. AtLeast n v env = Some (Passed, w')) \<longleftrightarrow>
      (\<exists>early x rest. env = early @ x # rest \<and> rest \<noteq> [] \<and> (\<forall>y\<in>set early. \<not> snd y) \<and> n \<le> matching v (fst x))) \<and>
    (\<forall>r w'. AtLeast n v env = Some (r, w') \<and> r \<noteq> Passed \<longrightarrow>
      (\<exists>u. (\<exists>early x rest. env = early @ x # rest \<and> x = (u, True) \<and> (\<forall>y\<in>set early. \<not> snd y) \<and> matching v u < n) \<and>
         r = fail (v_t v) (TimedOut (TooFew (matching v u) n)) \<and> w' = Some u)) \<and>
    ((\<exists>(u, e)\<in>set (butlast env). e \<or> n \<le> matching v u) \<longrightarrow> AtLeast n v env \<noteq> None)"
  by (rule AtLeast_outcome [OF assms, unfolded in_time_def too_late_def])

theorem Timeout_waits_for_the_calls_witness:
  "(\<exists>w'. AtLeast 1 (next_verifier\<lparr>v_timeout := 5\<rparr>)
     [(mock_world, False), (called next_call mock_world, False), (called next_call mock_world, True)] = Some (Passed, w')) \<and>
   (\<nexists>w'. AtLeast 1 (next_verifier\<lparr>v_timeout := 5\<rparr>)
     [(mock_world, True), (called next_call mock_world, False), (called next_call mock_world, True)] = Some (Passed, w'))"
proof -
  let ?v = "next_verifier\<lparr>v_timeout := 5\<rparr>" and ?w = "called next_call mock_world"
  have v: "v_s ?v = 0" "v_timeout ?v > 0" "wanted ?v c = wanted next_verifier c" for c
    by (simp_all add: next_verifier_def wanted_def)
  have log: "calls (w_states mock_world 0) = []" by (simp add: mock_defs Let_def)
  have calm: "calm ?v (calls (w_states ?w 0))" "calm ?v (calls (w_states mock_world 0))"
    by (simp_all add: calm_def called_log v(3) next_wanted log)
  have n: "matching ?v ?w = 1" "matching ?v mock_world = 0"
    using v by (simp_all add: matching_def called_log wants_def next_wanted log)
  have g: "growing ?v [(mock_world, a), (?w, b), (?w, c)]" for a b c
    using calm v(1) mreach_mock_world mreach_called [OF mreach_mock_world, of next_call]
    by (simp add: growing_def log)
  have "in_time 1 ?v [(mock_world, False), (?w, False), (?w, True)]"
    "\<not> in_time 1 ?v [(mock_world, True), (?w, False), (?w, True)]"
    using n by (simp_all add: in_time_Cons)
  then show ?thesis
    unfolding in_time_def Timeout_waits_for_the_calls [OF v(2) g, THEN conjunct1] by (rule conjI)
qed

section \<open>Nothing left to verify\<close>

text \<open>
  A series of assertions without a timeout, each a verifier with its check and message; a report does
  not end the series (the assertions are bound to a T, or the test recovers).
\<close>

type_synonym assertion = "Verifier \<times> (int \<Rightarrow> bool) \<times> (int \<Rightarrow> failure)"

fun assert_all :: "assertion list \<Rightarrow> mworld \<Rightarrow> mworld option" where
  "assert_all [] w = Some w"
| "assert_all ((v, check, msg) # as) w =
     (case assert_that v check msg [(w, False)] of
        Some (r, Some w') \<Rightarrow> assert_all as w'
      | _ \<Rightarrow> None)"

lemma assert_all_marks:
  assumes "mreach w"
    and "\<forall>(v, check, msg)\<in>set as. v_s v = a \<and> v_timeout v \<le> 0 \<and> calm v (calls (w_states w a))"
  shows "assert_all as w = Some (mark_all (map fst as) w)"
  using assms
proof (induction as arbitrary: w)
  case (Cons x as)
  obtain v check msg where x: "x = (v, check, msg)" by (cases x)
  with Cons.prems have v: "v_s v = a" "v_timeout v \<le> 0" "calm v (calls (w_states w (v_s v)))" by auto
  let ?w = "snd (countLocked v True w)"
  note count = countLocked_calm [OF mreach_inv [OF Cons.prems(1)] v(3), of True]
  from count have "mreach ?w" by (intro mreach.count [OF Cons.prems(1)]) simp
  moreover have "calls (w_states ?w a) = calls (w_states w a)"
    using v(1) count by (simp add: upd_state_def)
  ultimately have "assert_all as ?w = Some (mark_all (map fst as) ?w)"
    using Cons.IH [of ?w] Cons.prems(2) by simp
  with v(2) count show ?case
    by (simp add: x assert_that_def final_count_def assert_count_def)
qed simp

text \<open>
  C17. In a mock none of whose calls is marked, after any series of assertions without a timeout whose
  predicates do not panic, \<open>VerifyNoMoreInteractions\<close> passes exactly when every call in the log matches one
  of their verifiers, and otherwise names the calls that do not, in order. Whether the assertions
  passed makes no difference, and it never reads past the marks.
\<close>

theorem no_more_interactions_iff_covered:
  assumes "mreach w" and "registry w d = Some a" and "\<forall>b\<in>set (verified (w_states w a)). \<not> b"
    and "\<forall>(v, check, msg)\<in>set as. v_s v = a \<and> v_timeout v \<le> 0 \<and> calm v (calls (w_states w a))"
  shows "\<exists>w'. assert_all as w = Some w' \<and>
     verifyNoMoreInteractions d t w' =
     (let us = filter (\<lambda>c. \<not> (\<exists>v\<in>fst ` set as. wants v c)) (calls (w_states w a)) in
      Inr (if us = [] then Passed else fail t (Unexpected us)))"
proof -
  let ?cs = "calls (w_states w a)" and ?bs = "verified (w_states w a)" and ?vs = "map fst as"
  let ?m = "map2 (\<lambda>c b. b \<or> (\<exists>v\<in>set ?vs. wants v c)) ?cs ?bs"
  have len: "length ?bs = length ?cs"
    using mreach_inv [OF assms(1)] by (simp add: mock_inv_def log_ok_def)
  have vs: "\<forall>v\<in>set ?vs. v_s v = a \<and> calm v ?cs" using assms(4) by auto
  from mark_all_state [OF mreach_inv [OF assms(1)] vs] fold_marked [OF len, of ?vs]
  have st: "calls (w_states (mark_all ?vs w) a) = ?cs" "verified (w_states (mark_all ?vs w) a) = ?m"
    "registry (mark_all ?vs w) = registry w"
    by simp_all
  have "map fst (filter (\<lambda>(c, b). \<not> b) (zip cs (map2 (\<lambda>c b. b \<or> P c) cs bs))) = filter (\<lambda>c. \<not> P c) cs"
    if "length bs = length cs" "\<forall>b\<in>set bs. \<not> b" for P :: "Call \<Rightarrow> bool" and cs bs
    using that by (induction cs bs rule: list_induct2') auto
  from this [OF len assms(3)] unexpected_calls_zip [of ?m ?cs] len
  have "unexpected_calls ?cs ?m = Inr (filter (\<lambda>c. \<not> (\<exists>v\<in>set ?vs. wants v c)) ?cs)" by simp
  with st assms(2) have "verifyNoMoreInteractions d t (mark_all ?vs w) =
     (let us = filter (\<lambda>c. \<not> (\<exists>v\<in>fst ` set as. wants v c)) ?cs in
      Inr (if us = [] then Passed else fail t (Unexpected us)))"
    by (simp add: verifyNoMoreInteractions_def stateOf_def Let_def)
  with assert_all_marks [OF assms(1,4)] show ?thesis by blast
qed

theorem no_more_interactions_iff_covered_witness:
  "\<exists>w'. assert_all [(next_verifier, \<lambda>got. got = 2, \<lambda>got. WrongTimes got 2)] (called next_call mock_world) = Some w' \<and>
     verifyNoMoreInteractions 7 False w' = Inr Passed"
proof -
  have r: "registry (called next_call mock_world) 7 = Some 0"
    and b: "verified (w_states (called next_call mock_world) 0) = [False]"
    by (simp_all add: mock_defs Let_def)
  have "\<forall>(v, check, msg)\<in>set [(next_verifier, \<lambda>got. got = 2, \<lambda>got. WrongTimes got 2)].
      v_s v = 0 \<and> v_timeout v \<le> 0 \<and> calm v (calls (w_states (called next_call mock_world) 0))"
    by (simp add: calm_def called_log next_wanted) (simp add: next_verifier_def)
  from no_more_interactions_iff_covered [OF mreach_called [OF mreach_mock_world] r _ this, of False] b
  show ?thesis by (simp add: called_log wants_def next_wanted Let_def)
qed

section \<open>Call order\<close>

text \<open>
  C38. A series of \<open>InOrder.Verify(...).Once()\<close> passes exactly when the log has calls at increasing
  positions from the cursor on that match the verifiers one by one: taking the earliest match each
  time never misses an order that is there.
\<close>

theorem in_order_iff_positions:
  assumes "\<forall>iv\<in>set ivs. order_calm iv hist"
  shows "once_all ivs hist io \<longleftrightarrow>
     (\<exists>ps. length ps = length ivs \<and> sorted_wrt (<) ps \<and> (\<forall>p\<in>set ps. io_pos io \<le> p) \<and>
        (\<forall>i<length ivs. ps ! i < length hist \<and> order_wants (ivs ! i) (hist ! (ps ! i))))"
  unfolding once_all_iff [OF assms] embeds_drop_iff in_order_at_def by blast

definition order_of :: "string \<Rightarrow> InOrderVerifier" where
  "order_of k = \<lparr>iv_code' = 101, iv_args' = [AStr k], iv_matchers' = []\<rparr>"

definition load_entry :: "string \<Rightarrow> Call" where
  "load_entry k = \<lparr>cl_method = ''Load'', cl_code = 101, cl_args = [AStr k]\<rparr>"

lemma order_wanted_load: "order_wanted (order_of j) (load_entry k) = Inr (j = k)"
  by (auto simp: order_wanted_def order_of_def load_entry_def argsMatch_def)

theorem in_order_iff_positions_witness:
  "once_all [order_of ''a'', order_of ''b''] [load_entry ''a'', load_entry ''c'', load_entry ''b''] NewInOrder"
proof -
  have "\<forall>iv\<in>set [order_of ''a'', order_of ''b''].
      order_calm iv [load_entry ''a'', load_entry ''c'', load_entry ''b'']"
    by (simp add: order_calm_def order_wanted_load)
  from in_order_iff_positions [OF this, of NewInOrder] show ?thesis
    by (simp add: order_wants_def order_wanted_load NewInOrder_def)
       (rule exI [of _ "[0, 2]"], simp add: order_wanted_load less_Suc_eq_0_disj)
qed

text \<open>
  \<open>InOrder.Times(n)\<close> stops at the n-th match, so for a positive \<open>n\<close> it passes as soon as there
  are at least \<open>n\<close> matching calls from the cursor on; only \<open>Times(0)\<close> is exact.
\<close>

theorem in_order_Times_is_at_least:
  assumes "order_calm iv (drop (io_pos io) hist)" and "0 \<le> n"
  shows "fst (order_times n iv hist io) = Passed \<longleftrightarrow>
     (if n = 0 then filter (order_wants iv) (drop (io_pos io) hist) = []
      else n \<le> int (length (filter (order_wants iv) (drop (io_pos io) hist))))"
proof (cases "n = 0")
  case True
  with order_loop_zero [OF assms(1), of 0 0 None "io_pos io"] show ?thesis
    by (auto simp: order_times_def split: if_splits)
next
  case False
  with assms order_loop_calm [OF assms(1), of 0 n None "io_pos io"] show ?thesis
    by (auto simp: order_times_def min_def split: if_splits)
qed

theorem in_order_Times_is_at_least_witness:
  "fst (order_times 1 (order_of ''a'') [load_entry ''a'', load_entry ''a''] NewInOrder) = Passed"
  using in_order_Times_is_at_least [of "order_of ''a''" NewInOrder "[load_entry ''a'', load_entry ''a'']" 1]
  by (simp add: order_calm_def order_wants_def order_wanted_load NewInOrder_def)

end
