(* ===== verification/MockitoArgs.thy ===== *)
theory MockitoArgs
  imports MockitoProps
begin

text \<open>
  Arguments written with matchers (matcher.go), from the evaluation of \<open>m.F(Any(), Eq(v))\<close> inside
  \<open>When\<close> to the calls the stub then answers.
\<close>

section \<open>Evaluating the arguments\<close>

fun value_of :: "argx \<Rightarrow> any" where
  "value_of (Plain v) = v"
| "value_of (UseAny zero) = zero"
| "value_of (UseEq v) = v"
| "value_of (UseNotNil zero) = zero"
| "value_of (UseMatch zero as_T pred) = zero"
| "value_of (UseContains sub) = AStr []"
| "value_of (UseHasPrefix p) = AStr []"
| "value_of (UseHasSuffix p) = AStr []"

fun matcher_of :: "argx \<Rightarrow> matcher option" where
  "matcher_of (Plain v) = None"
| "matcher_of (UseAny zero) = Some AnyM"
| "matcher_of (UseEq v) = Some (EqM v)"
| "matcher_of (UseNotNil zero) = Some NotNilM"
| "matcher_of (UseMatch zero as_T pred) = Some (Match as_T pred)"
| "matcher_of (UseContains sub) = Some (Contains sub)"
| "matcher_of (UseHasPrefix p) = Some (HasPrefix p)"
| "matcher_of (UseHasSuffix p) = Some (HasSuffix p)"

text \<open>The matchers of the arguments that have one, in their order.\<close>

definition written :: "argx list \<Rightarrow> matcher list" where
  "written xs = List.map_filter matcher_of xs"

lemma written_simps [simp]:
  "written [] = []"
  "written (x # xs) = (case matcher_of x of None \<Rightarrow> written xs | Some m \<Rightarrow> m # written xs)"
  by (simp_all add: written_def map_filter_simps split: option.split)

lemma written_all: "\<forall>x\<in>set xs. matcher_of x \<noteq> None \<Longrightarrow> written xs = map (the \<circ> matcher_of) xs"
  by (induction xs) auto

lemma eval_arg_spec:
  "eval_arg g x w = (value_of x, case matcher_of x of None \<Rightarrow> w | Some m \<Rightarrow> pushMatcher g m w)"
  by (cases x) (simp_all add: Any_def Eq_def NotNil_def push_zero_def)

lemma eval_args_spec:
  "eval_args g xs w =
     (map value_of xs, w\<lparr>matchers := (matchers w)(g := matchers w g @ written xs)\<rparr>)"
proof (induction xs arbitrary: w)
  case (Cons x xs)
  then show ?case by (cases w; cases "matcher_of x") (simp_all add: eval_arg_spec pushMatcher_def fun_eq_iff)
qed simp

lemma mreach_eval: "mreach w \<Longrightarrow> mreach (snd (eval_args g xs w))"
proof (induction xs arbitrary: w)
  case (Cons x xs)
  then have "mreach (snd (eval_arg g x w))"
    by (auto simp: eval_arg_spec intro: mreach.push split: option.split)
  with Cons.IH show ?case by (simp add: case_prod_unfold Let_def)
qed simp

section \<open>Matching against written matchers\<close>

lemma argsMatch_written:
  assumes "\<forall>x\<in>set xs. matcher_of x \<noteq> None"
  shows "argsMatch (map value_of xs) (written xs) got = Inr True \<longleftrightarrow>
         list_all2 (\<lambda>x v. Matches (the (matcher_of x)) v = Inr True) xs got"
  by (auto simp: argsMatch_iff written_all [OF assms] list_all2_conv_all_nth)

lemma argsMatch_loop_decides:
  "length want = length got \<Longrightarrow> \<forall>i<length want. i < length ms \<longrightarrow> (\<exists>b. Matches (ms ! i) (got ! i) = Inr b) \<Longrightarrow>
   \<exists>b. argsMatch_loop want ms got = Inr b"
proof (induction want arbitrary: ms got)
  case (Cons x want)
  then obtain v vs where got: "got = v # vs" by (cases got) auto
  show ?case
  proof (cases ms)
    case Nil
    with Cons.IH [of vs "[]"] Cons.prems got show ?thesis by simp
  next
    case (Cons m ms')
    with Cons.prems(2) got have "\<exists>b. Matches m v = Inr b"
      and "\<forall>i<length want. i < length ms' \<longrightarrow> (\<exists>b. Matches (ms' ! i) (vs ! i) = Inr b)" by auto
    with Cons.IH [of vs ms'] Cons.prems(1) got Cons show ?thesis by auto
  qed
qed simp

text \<open>The rules of the stubs, as opposed to what they have handed out, survive a call.\<close>

lemma intercept_keeps_rules:
  "st_args (w_stubs (snd (intercept g s c w)) b) = st_args (w_stubs w b)"
  "st_matchers (w_stubs (snd (intercept g s c w)) b) = st_matchers (w_stubs w b)"
  by (auto simp: intercept_def run_stub_def stub_rets_def upd_stub_def Let_def
      split: sum.splits option.splits prod.splits if_splits)

lemma find_from_cong:
  "\<forall>b\<in>set as. st_args (h b) = st_args (h' b) \<and> st_matchers (h b) = st_matchers (h' b) \<Longrightarrow>
   find_from h as args = find_from h' as args"
  by (induction as) (auto intro!: arg_cong2 [of _ _ _ _ res_bind])

section \<open>What a written stub answers\<close>

text \<open>
  The world after goroutine \<open>g\<close> ran \<open>When(m.F(xs...)).ThenReturn(v)\<close>, where \<open>c\<close> is the call the
  arguments make, on the mock at \<open>s\<close>. It is \<open>None\<close> when that call or \<open>When\<close> panics, so that \<open>ThenReturn\<close>
  never runs.
\<close>

definition When_Return ::
  "(any list option \<Rightarrow> bool) \<Rightarrow> goid \<Rightarrow> addr \<Rightarrow> argx list \<Rightarrow> invocation \<Rightarrow> any \<Rightarrow> mworld \<Rightarrow> mworld option" where
  "When_Return passes g s xs c v w =
     (let (vs, w1) = eval_args g xs w
      in case after_trigger passes g s (c\<lparr>iv_args := vs\<rparr>) (whenRecorded g) w1 of
           None \<Rightarrow> None
         | Some (Inl e, w2) \<Rightarrow> None
         | Some (Inr sb, w2) \<Rightarrow> Some (snd (ThenReturn [v] sb w2)))"

text \<open>How the call inside \<open>When(m.F(xs...))\<close> ends.\<close>

definition trigger :: "goid \<Rightarrow> addr \<Rightarrow> argx list \<Rightarrow> invocation \<Rightarrow> mworld \<Rightarrow> moutcome" where
  "trigger g s xs c w =
     (let (vs, w1) = eval_args g xs w in fst (intercept g s (c\<lparr>iv_args := vs\<rparr>) w1))"

lemma When_Return_runs:
  "When_Return passes g s xs c v w \<noteq> None \<longleftrightarrow> trigger_returns passes (trigger g s xs c w)"
proof -
  obtain out w2 where i: "intercept g s (c\<lparr>iv_args := map value_of xs\<rparr>) (snd (eval_args g xs w)) = (out, w2)"
    by fastforce
  obtain p where "lasts w2 g = Some p"
    using intercept_fields(2) [OF i] by simp
  then obtain sb w3 where "whenRecorded g w2 = (Inr sb, w3)"
    by (simp add: whenRecorded_def popLast_def)
  with i show ?thesis
    by (simp add: When_Return_def trigger_def after_trigger_def eval_args_spec)
qed

definition written_call :: "addr \<Rightarrow> argx list \<Rightarrow> invocation \<Rightarrow> matcher list \<Rightarrow> pendingCall" where
  "written_call s xs c ms =
     \<lparr>p_state = s, p_code = iv_code c, p_method = m_name (iv_method c), p_args = map value_of xs,
      p_numOut = length (m_out (iv_method c)), p_matchers = ms\<rparr>"

lemma When_Return_newest:
  assumes "mreach w" and "length (m_out (iv_method c)) = 1"
    and w'_def: "When_Return passes g s xs c v w = Some w'" and p_def: "p = written_call s xs c (matchers w g @ written xs)"
  shows "\<exists>a. newest p a w' \<and> w_stubs w' a = return_stub p [[v]] 0 \<and>
           (\<forall>b. b \<noteq> a \<longrightarrow> st_args (w_stubs w' b) = st_args (w_stubs w b) \<and>
                        st_matchers (w_stubs w' b) = st_matchers (w_stubs w b)) \<and>
           stubs (w_states w' s) (iv_code c) = stubs (w_states w s) (iv_code c) @ [a] \<and>
           a \<notin> set (stubs (w_states w s) (iv_code c)) \<and> matchers w' g = []"
proof -
  let ?c = "c\<lparr>iv_args := map value_of xs\<rparr>"
  let ?w1 = "snd (eval_args g xs w)"
  obtain out w2 where i: "intercept g s ?c ?w1 = (out, w2)" by fastforce
  have "mreach w2" using mreach.call [OF mreach_eval [OF assms(1)] i] .
  then have inv: "mock_inv w2" by (rule mreach_inv)
  note f = intercept_fields [OF i]
  have last: "lasts w2 g = Some p"
    using f(2) by (simp add: eval_args_spec p_def written_call_def)
  then obtain sb w3 where rec: "whenRecorded g w2 = (Inr sb, w3)"
    by (simp add: whenRecorded_def popLast_def)
  obtain sb' w4 where ret: "ThenReturn [v] sb w3 = (sb', w4)" by fastforce
  have w': "w' = w4"
    using i rec ret w'_def
    by (simp add: When_Return_def after_trigger_def eval_args_spec split: if_splits)
  have "p_numOut p = 1" using assms(2) by (simp add: p_def written_call_def)
  note made = ThenReturn_newest [OF inv last this rec ret]
  have rules: "st_args (w_stubs w2 b) = st_args (w_stubs w b)" "st_matchers (w_stubs w2 b) = st_matchers (w_stubs w b)" for b
    using intercept_keeps_rules [of g s ?c ?w1 b] i by (simp_all add: eval_args_spec)
  have st: "stubs (w_states w2 s) = stubs (w_states w s)"
    using f(1) by (simp add: eval_args_spec)
  have "matchers w2 g = []"
    using i by (auto simp: intercept_def record_invocation_def takeMatchers_def recordLast_def upd_state_def
        run_stub_def upd_stub_def Let_def split: sum.splits option.splits prod.splits if_splits)
  moreover have "w_next_stub w2 \<notin> set (stubs (w_states w s) (iv_code c))"
    using inv unfolding mock_inv_def st [symmetric] by blast
  ultimately show ?thesis
    using made rules st by (intro exI [of _ "w_next_stub w2"]) (simp add: w' p_def written_call_def)
qed

text \<open>
  C34. When every argument is written with a matcher and the call inside \<open>When\<close> comes back, the stub
  answers exactly the calls whose arguments satisfy the matchers position by position, whoever makes
  them; a call with an argument that does not is answered as if the stub were not there. The matchers
  are used up: none is left for the next call. If the call inside \<open>When\<close> does not come back (an earlier
  \<open>ThenPanic\<close> stub matches it), there is no stub.
\<close>

theorem written_matchers_decide:
  assumes "mreach w" and "matchers w g = []" and "\<forall>x\<in>set xs. matcher_of x \<noteq> None"
    and "length (m_out (iv_method c)) = 1"
    and "iv_code d = iv_code c" and "length (m_out (iv_method d)) = 1" and "length (iv_args d) = length xs"
  shows "let ok = (\<lambda>x a. Matches (the (matcher_of x)) a) in
         case When_Return passes g s xs c v w of
           None \<Rightarrow> \<not> trigger_returns passes (trigger g s xs c w)
         | Some w' \<Rightarrow>
             trigger_returns passes (trigger g s xs c w) \<and>
             (list_all2 (\<lambda>x a. ok x a = Inr True) xs (iv_args d) \<longrightarrow>
                fst (intercept h s d w') =
                  MReturn [if v = ANil then zero_of (hd (m_out (iv_method d))) else v]) \<and>
             (list_all2 (\<lambda>x a. ok x a \<in> {Inr True, Inr False}) xs (iv_args d) \<and>
              \<not> list_all2 (\<lambda>x a. ok x a = Inr True) xs (iv_args d) \<longrightarrow>
                findStub (w_stubs w') (w_states w' s) (iv_code d) (iv_args d) =
                findStub (w_stubs w) (w_states w s) (iv_code d) (iv_args d)) \<and>
             matchers w' g = []"
proof (cases "When_Return passes g s xs c v w")
  case None
  with When_Return_runs [of passes g s xs c v w] show ?thesis by simp
next
  case run: (Some w')
  let ?w = w' and ?p = "written_call s xs c (written xs)"
  let ?ok = "\<lambda>x a. Matches (the (matcher_of x)) a"
  obtain a where new: "newest ?p a ?w" and st: "w_stubs ?w a = return_stub ?p [[v]] 0"
    and old: "\<forall>b. b \<noteq> a \<longrightarrow> st_args (w_stubs ?w b) = st_args (w_stubs w b) \<and>
                  st_matchers (w_stubs ?w b) = st_matchers (w_stubs w b)"
    and reg: "stubs (w_states ?w s) (iv_code c) = stubs (w_states w s) (iv_code c) @ [a]"
    and fresh: "a \<notin> set (stubs (w_states w s) (iv_code c))" and used: "matchers ?w g = []"
    using When_Return_newest [OF assms(1,4) run refl] assms(2) by auto
  note decides = argsMatch_written [OF assms(3), of "iv_args d"]
  have hit: "fst (intercept h s d ?w) =
      MReturn [if v = ANil then zero_of (hd (m_out (iv_method d))) else v]"
    if "list_all2 (\<lambda>x a. ?ok x a = Inr True) xs (iv_args d)"
  proof -
    have "hits ?p (h, s, d)"
      using that decides assms(5) by (simp add: hits_def written_call_def)
    from intercept_hit(1) [OF new st _ this] have "fst (intercept h s d ?w) = handed_out [[v]] 0 (iv_method d)"
      by simp
    moreover obtain t where "m_out (iv_method d) = [t]"
      using assms(6) by (auto simp: length_Suc_conv)
    ultimately show ?thesis by (simp add: handed_out_def)
  qed
  have miss: "findStub (w_stubs ?w) (w_states ?w s) (iv_code d) (iv_args d) =
      findStub (w_stubs w) (w_states w s) (iv_code d) (iv_args d)"
    if total: "list_all2 (\<lambda>x a. ?ok x a \<in> {Inr True, Inr False}) xs (iv_args d)"
      and "\<not> list_all2 (\<lambda>x a. ?ok x a = Inr True) xs (iv_args d)"
  proof -
    have "\<exists>b. argsMatch_loop (map value_of xs) (written xs) (iv_args d) = Inr b"
      using total assms(7)
      by (intro argsMatch_loop_decides) (auto simp: written_all [OF assms(3)] list_all2_conv_all_nth)
    then have "argsMatch (map value_of xs) (written xs) (iv_args d) = Inr False"
      using that(2) decides assms(7) by (auto simp: argsMatch_def)
    moreover have "find_from (w_stubs ?w) (rev (stubs (w_states w s) (iv_code c))) (iv_args d) =
        find_from (w_stubs w) (rev (stubs (w_states w s) (iv_code c))) (iv_args d)"
      using old fresh by (intro find_from_cong) auto
    ultimately show ?thesis
      using st by (simp add: findStub_def assms(5) reg return_stub_def written_call_def)
  qed
  have "trigger_returns passes (trigger g s xs c w)"
    using When_Return_runs [of passes g s xs c v w] run by simp
  with hit miss used show ?thesis unfolding Let_def run option.case by blast
qed

theorem written_matchers_decide_witness:
  "\<exists>w'. When_Return (\<lambda>r. True) 1 0 [UseHasPrefix ''key''] (load_call []) (AInt 3) mock_world = Some w' \<and>
     fst (intercept 2 0 (load_call ''keys'') w') = MReturn [AInt 3]"
proof -
  have "trigger_returns (\<lambda>r. True) (trigger 1 0 [UseHasPrefix ''key''] (load_call []) mock_world)"
    by (simp add: trigger_returns_def trigger_def eval_args_spec mock_defs load_call_def load_method_def Let_def)
  then obtain w' where "When_Return (\<lambda>r. True) 1 0 [UseHasPrefix ''key''] (load_call []) (AInt 3) mock_world = Some w'"
    using When_Return_runs by blast
  with written_matchers_decide [OF mreach_mock_world, where g = 1 and xs = "[UseHasPrefix ''key'']" and c = "load_call []"
      and d = "load_call ''keys''" and passes = "\<lambda>r. True" and s = 0 and v = "AInt 3" and h = 2]
  show ?thesis
    by (simp add: mock_world_def Mock_def new_state_def empty_world_def load_call_def load_method_def
        HasPrefix_def Let_def)
qed

text \<open>
  A matcher binds to its place among the matchers, not among the arguments: in
  \<open>When(m.F(a, Any()))\<close> it is the first argument that is free, and the second has to be the
  placeholder.
\<close>

theorem matcher_after_plain_binds_first:
  assumes "mreach w" and "matchers w g = []" and "length (m_out (iv_method c)) = 1"
    and "When_Return passes g s [Plain x, UseAny zero] c v w = Some w'"
  shows "let st = w_stubs w' (last (stubs (w_states w' s) (iv_code c))) in
         argsMatch (st_args st) (st_matchers st) [y, z] = Inr (deep_equal zero z)"
proof -
  obtain a where "w_stubs w' a = return_stub (written_call s [Plain x, UseAny zero] c [AnyM]) [[v]] 0"
    and "stubs (w_states w' s) (iv_code c) = stubs (w_states w s) (iv_code c) @ [a]"
    using When_Return_newest [OF assms(1,3,4) refl] assms(2) by auto
  then show ?thesis
    by (simp add: return_stub_def written_call_def argsMatch_def)
qed

theorem matcher_after_plain_binds_first_witness:
  "\<exists>w'. When_Return (\<lambda>r. True) 1 0 [Plain (AInt 1), UseAny (AInt 0)] next_call (AInt 3) mock_world = Some w' \<and>
     (let st = w_stubs w' (last (stubs (w_states w' 0) 100)) in
      argsMatch (st_args st) (st_matchers st) [AInt 7, AInt 8] = Inr False)"
proof -
  have "trigger_returns (\<lambda>r. True) (trigger 1 0 [Plain (AInt 1), UseAny (AInt 0)] next_call mock_world)"
    by (simp add: trigger_returns_def trigger_def eval_args_spec mock_defs Let_def)
  then obtain w' where run: "When_Return (\<lambda>r. True) 1 0 [Plain (AInt 1), UseAny (AInt 0)] next_call (AInt 3) mock_world = Some w'"
    using When_Return_runs by blast
  with matcher_after_plain_binds_first [OF mreach_mock_world _ _ run, of "AInt 7" "AInt 8"]
  show ?thesis
    by (simp add: mock_world_def Mock_def new_state_def empty_world_def next_call_def next_method_def Let_def)
qed

section \<open>Plain arguments\<close>

text \<open>
  A value equals itself deeply unless it is a NaN or a function, or a struct that holds one: behind a
  pointer, in a slice or in a map the address decides first.
\<close>

fun self_equal :: "any \<Rightarrow> bool" where
  "self_equal (AFloat a) = (a \<noteq> NaN)"
| "self_equal (ANamed t x) = self_equal x"
| "self_equal (AFunc t f) = (f = None)"
| "self_equal (AStruct t xs) = (\<forall>x\<in>set xs. self_equal x)"
| "self_equal v = True"

lemma deep_equal_list_self: "deep_equal_list xs xs \<longleftrightarrow> (\<forall>x\<in>set xs. deep_equal x x)"
  by (induction xs) simp_all

lemma deep_equal_address [simp]:
  "deep_equal (APtr t p) (APtr t p)" "deep_equal (ASlice t xs) (ASlice t xs)" "deep_equal (AMap t es) (AMap t es)"
proof -
  show "deep_equal (APtr t p) (APtr t p)" by (cases p) auto
  show "deep_equal (ASlice t xs) (ASlice t xs)" by (cases xs) auto
  show "deep_equal (AMap t es) (AMap t es)" by (cases es) auto
qed

lemma deep_equal_self: "deep_equal v v \<longleftrightarrow> self_equal v"
  by (induction v rule: self_equal.induct) (simp_all add: deep_equal_list_self float_eq_def)

text \<open>
  A stub recorded with plain arguments answers the call with the same arguments, except where an
  argument is not equal to itself.
\<close>

theorem plain_arguments_match_themselves:
  "argsMatch vs [] vs = Inr True \<longleftrightarrow> (\<forall>v\<in>set vs. self_equal v)"
  by (simp add: argsMatch_iff deep_equal_self all_set_conv_all_nth)

end
