(* ===== verification/Spec2Isabelle.thy ===== *)
theory Spec2Isabelle
  imports UnwindProps Mirrors ChaosAlias ChaosProxy MockitoArgs
begin

text \<open>
  Verification of weave, a dynamic proxy library for Go interfaces, with its two packages built on
  proxies: mockito (mocks) and chaos (fault injection).

  \<^bold>\<open>The program.\<close> \<open>weave.New\<close> makes a value of an interface type at run time. It lays out every method
  of the interface in registers and stack as the Go compiler would (abi.go), gets a machine code
  trampoline per method (tramp.go, jit.go, jitcode_*.go), registers each trampoline with the runtime
  so that unwinder and garbage collector know its frame (jit.go, rfunc_*.go, moduledata_*.go), and
  forges an itab whose code pointers are the trampolines (rt.go, proxy.go). A call through the value
  enters a trampoline, which calls \<open>Dispatch\<close> (dispatch_*.go) with the register file and the stack
  area. \<open>Dispatch\<close> runs the chain of interceptors (invocation.go), whose last link calls the target;
  arguments and results are read from and written to registers and stack as bytes (materialize.go).
  mockito and chaos are interceptors: a mock records calls and answers them from stubs, an injector
  decides per call whether to delay it, fail it or panic.

  \<^bold>\<open>Results and errors.\<close> A Go panic is \<open>Inl\<close> with its message, a return is \<open>Inr\<close> (\<open>res\<close>, Prelude);
  components with structured errors have a datatype for them (\<open>setErr\<close>, \<open>ruleErr\<close>, \<open>failure\<close>). State is
  passed explicitly. Machine integers that can wrap are words; register and stack offsets are natural
  numbers, related to the machine arithmetic by \<open>alignUp_align_up\<close>.
\<close>

section \<open>Theories\<close>

text \<open>
  \<^bold>\<open>Prelude\<close>: results, alignment, facts on lists. \<^bold>\<open>GoTypes\<close>: the part of \<open>reflect.Type\<close> the code reads.
  \<^bold>\<open>GoValues\<close>: floats as compared, errors, boxed values with \<open>reflect.DeepEqual\<close>. \<^bold>\<open>GoStrings\<close>:
  \<open>Sprintf\<close>, \<open>FieldsFunc\<close> and \<open>ParseInt\<close> as far as the assemblers use them.

  \<^bold>\<open>Layout of calls\<close> (abi.go, abi_amd64.go, abi_arm64.go, abi_generic.go, precise.go).
  Abi: \<open>regAssign\<close>, \<open>stackAssign\<close>, \<open>addArg\<close>, \<open>addRcvr\<close>, \<open>stepsForValue\<close>. AbiSeq: what every sequence so
  built satisfies. Layout: \<open>abiLayout\<close>, \<open>newABILayout\<close>, \<open>ptrOffsets\<close>, \<open>shape\<close>. LayoutCorrect, LayoutProps: a
  value goes to registers exactly when its flattening fits, every register is handed out once, slots
  are disjoint and inside the area, the shape's bitmaps are exact.

  \<^bold>\<open>Arguments and results\<close> (materialize.go). Frame: the register file and stack area as bytes (\<open>mem\<close>),
  \<open>callState\<close>, \<open>materializeArgs\<close>, \<open>storeResults\<close>, \<open>scatterValue\<close> and the mirrors of pointer registers.
  FrameCorrect makes that memory an instance of the interface \<open>byte_store\<close>; FrameResults shows that
  results do not overwrite one another.

  \<^bold>\<open>Calls\<close> (invocation.go, dispatch_*.go). Invocation: \<open>Proceed\<close>, \<open>callTarget\<close> with its register fast
  path and its reflect path, \<open>Dispatch\<close>; an interceptor is the tree \<open>ix\<close> of what it does with its
  \<open>Invocation\<close>. InvocationProps: the chain refines the nested calls of its documentation (\<open>ideal\<close>),
  terminates, and is transparent when it only passes on. CallProps: arguments are what the registers
  hold, results reach the caller, both paths to the target agree.

  \<^bold>\<open>Trampolines\<close> (jitcode_amd64.go, jitcode_arm64.go). AsmAmd64, AsmArm64: both mnemonic assemblers
  from text to bytes, and \<open>jitStubCode\<close>. PcTable: \<open>encodePCSP\<close> and the reader \<open>pcvalue\<close>. Machine,
  MachineAmd64, MachineArm64: decoding and executing the bytes. StubFrame, TrampAmd64, TrampArm64,
  RunArm64: which instructions the bytes are and in which state they call \<open>Dispatch\<close>. JitProps,
  JitArm64Props: the call of \<open>Dispatch\<close>, the way back, and the stack pointer tables.

  \<^bold>\<open>Registration and generation\<close> (jit.go, jitmem.go, tramp.go, rfunc_*.go, moduledata_*.go). Module,
  ModuleCorrect: \<open>buildJITModule\<close> byte by byte and what the runtime reads back from it. Mirrors: every
  mirrored structure of every supported Go version against the offsets it declares. Jit, JitCorrect:
  the state of jit.go (\<open>jit\<close>: cache, pages, modules, roots) and its operations, which keep \<open>jit_ok\<close> for
  any generator that satisfies \<open>code_generator\<close>.

  \<^bold>\<open>Proxies\<close> (proxy.go, rt.go). Proxy: \<open>NewOf\<close>, \<open>As\<close>, \<open>New\<close>, \<open>forgeITab\<close>, \<open>makeIface\<close>, the accessors and
  the self-check. ProxyCorrect, ProxyProps, BuildProps: which interfaces are accepted, what the itab
  holds, that the collector sees exactly the pointers of the stack area. InterfaceCall puts the parts
  together: from the itab entry of a proxy through machine code and \<open>Dispatch\<close> back to the caller.
  UnwindProps: the unwinder's view of the whole execution on amd64.

  \<^bold>\<open>chaos\<close> (chaos/chaos.go, inject.go, spec.go). ChaosRules: rules, validation, the compiled plan, the
  injector. ChaosOwner: validation and lookup against the order of conditions by specificity.
  ChaosInject: one intercepted call. ChaosSample: the sampling is exact. ChaosLife: an injector and its
  proxies over time (\<open>reach\<close>) and calls racing for a budget (\<open>race_step\<close>). ChaosSpec: rules as data.
  ChaosProps: the properties. ChaosAlias: the same injector on slices it shares with its callers, a
  refinement of ChaosRules. ChaosProxy: the injector's interceptor in the chain of \<open>Dispatch\<close>.

  \<^bold>\<open>mockito\<close> (mockito/*.go). Mockito: matchers, mocks, stubs and the call log. MockitoVerify:
  verification, polling with a timeout and call order. MockitoLog, MockitoRuns, MockitoCount: the log
  as an instance of \<open>call_log\<close>, reachable worlds (\<open>mreach\<close>), sequences of calls, counting. MockitoProps,
  MockitoArgs: the properties, the second for arguments written with matchers.
\<close>

section \<open>Interfaces\<close>

text \<open>
  \<^item> \<open>byte_store\<close> (FrameCorrect): reading after writing, overlap aside; interpreted on the memory of a call.
  \<^item> \<open>instruction_set\<close> (Machine): decoding is independent of what follows; interpreted on both machines,
    for any behaviour of the called code.
  \<^item> \<open>code_generator\<close> (JitCorrect, continued in ProxyCorrect): for every shape it supports the generator
    succeeds, with code that is not empty and fits a page; interpreted on both architectures. What
    jit.go and proxy.go keep is proved inside it.
  \<^item> \<open>condition_index\<close> (ChaosOwner): a map from conditions to rules; interpreted on compiled plans.
  \<^item> \<open>call_log\<close> (MockitoLog): a log that grows at its end and can drop its newest entry; interpreted on the
    calls and marks of a mock.
\<close>

section \<open>Fuel and bounds\<close>

text \<open>
  \<open>proceed_fuel\<close> bounds the nesting of interceptors; \<open>Proceed\<close> gives it the rest of the chain and one,
  which is enough (\<open>Proceed_unfold\<close>), because \<open>next\<close> only grows. \<open>run_code\<close> counts instructions; the
  theorems name the counts after which a trampoline calls \<open>Dispatch\<close> and has returned, so they state
  that it does. A method is accepted when its stack area has at most 480 bytes, 60 words, and the
  generic trampolines serve the method indices below 128. On amd64 the address of \<open>Dispatch\<close> is below
  \<open>2^63\<close> (the assembler parses it as a signed integer) and interfaces have at most \<open>2^31\<close> methods, on
  arm64 at most \<open>2^16\<close> (\<open>supported\<close>). The arm64 assembler's buffer of 512 bytes is part of the model.
\<close>

section \<open>What is a parameter, and what is not modelled\<close>

text \<open>
  \<^bold>\<open>Parameters.\<close> The record \<open>goruntime\<close>: what \<open>reflect\<close> and the runtime answer about types, itabs and
  boxed values. \<open>platform\<close>: architecture, Go version, operating system (\<open>mmap\<close>, which may fail
  but hands out fresh pages, \<open>mmap_fresh\<close>; \<open>mmap_serves\<close> says how many mappings still succeed where a
  property needs it) and the code behind an address. \<open>target\<close>: what \<open>reflect\<close> says of a
  target. The target's machine code is a function of the register file; theorems that relate it to
  the target's method assume it implements it (\<open>implements\<close>). In chaos the clock and the parsers of
  the \<open>time\<close> package, in mockito the formatting of values are arguments.

  \<^bold>\<open>Written from documented formats\<close>, and so not mapped to code of the repository: the instructions of
  x86-64 and AArch64 the trampolines use (MachineAmd64, MachineArm64), the runtime's readers of module
  data (\<open>pcvalue\<close>, \<open>findfunc\<close>, \<open>getStackMap\<close>) and Go's layout of structs (\<open>offset_of\<close>).

  \<^bold>\<open>Not modelled.\<close> The Go assembler files (redial_*.s, getg_*.s): \<open>redial\<close> is stated as loading the
  registers, calling, and storing them. Page protection on macOS (jitmem_darwin_arm64.go, internal/rt):
  system calls; to the model they are the mapping of pages. The programs under examples/, which use
  the library and print, and doc.go, which is documentation. \<open>jitMu\<close>, the injector's and the mocks'
  mutexes make operations atomic steps; the collector running while a module is being linked into the
  runtime's list is not modelled, nor is the memory model below atomics. A mock that is called again
  from its own \<open>ThenAnswer\<close> or from its spied target would block on its mutex;
  answers are therefore functions of the arguments. Boxed values are finite trees: a value that refers
  to itself, which \<open>reflect.DeepEqual\<close> handles with a set of visited pairs, is not one.
\<close>

end
